(* ===== verification/GoPrelude.thy ===== *)
theory GoPrelude
  imports Main "HOL-Library.Sublist"
begin

text \<open>
  The prelude of the development: the result type that stands for Go's pair of a value and an
  error, 64-bit integer arithmetic, the part of Go's \<^verbatim>\<open>strings\<close>, \<^verbatim>\<open>strconv\<close> and \<^verbatim>\<open>sort\<close>
  packages the program calls, and the generic lemmas the components share. Go strings are byte
  sequences and so is the HOL type \<^typ>\<open>string\<close>; where the Go library looks at runes (white
  space), the UTF-8 encodings of those runes are written out.
\<close>

section \<open>Collections of facts\<close>

named_theorems go_simps \<open>evaluation rules for the modelled Go library\<close>
named_theorems inv_rules \<open>preservation rules of component invariants\<close>

section \<open>Results\<close>

text \<open>An \<^verbatim>\<open>error\<close> value is represented by the text \<^verbatim>\<open>Error()\<close> returns; \<open>None\<close> is Go's \<^verbatim>\<open>nil\<close>.
  A function that returns \<^verbatim>\<open>(T, error)\<close> returns a sum: \<open>Inl\<close> the error, \<open>Inr\<close> the value.\<close>

type_synonym go_error = "string"
type_synonym 'a result = "string + 'a"

fun bind_result :: "'a result \<Rightarrow> ('a \<Rightarrow> 'b result) \<Rightarrow> 'b result" where
  "bind_result (Inl e) f = Inl e"
| "bind_result (Inr a) f = f a"

fun is_ok :: "'a result \<Rightarrow> bool" where
  "is_ok (Inl e) = False"
| "is_ok (Inr a) = True"

lemma is_ok_iff: "is_ok r \<longleftrightarrow> (\<exists>a. r = Inr a)"
  by (cases r) auto

lemma bind_result_eq_Inr [simp]:
  "bind_result r f = Inr b \<longleftrightarrow> (\<exists>a. r = Inr a \<and> f a = Inr b)"
  by (cases r) auto

lemma bind_result_eq_Inl [simp]:
  "bind_result r f = Inl e \<longleftrightarrow> r = Inl e \<or> (\<exists>a. r = Inr a \<and> f a = Inl e)"
  by (cases r) auto

lemma map_sum_eq_iff [simp]:
  "map_sum f g r = Inr b \<longleftrightarrow> (\<exists>a. r = Inr a \<and> b = g a)"
  "map_sum f g r = Inl e \<longleftrightarrow> (\<exists>a. r = Inl a \<and> e = f a)"
  by (cases r; auto)+

section \<open>64-bit integers\<close>

text \<open>Go's \<^verbatim>\<open>int\<close> and \<^verbatim>\<open>int64\<close> are two's complement 64-bit values: addition wraps around.\<close>

definition min_int :: int where "min_int = - (2 ^ 63)"
definition max_int :: int where "max_int = 2 ^ 63 - 1"

definition wrap64 :: "int \<Rightarrow> int" where
  "wrap64 x = (x + 2 ^ 63) mod 2 ^ 64 - 2 ^ 63"

lemma wrap64_id: "min_int \<le> x \<Longrightarrow> x \<le> max_int \<Longrightarrow> wrap64 x = x"
  by (simp add: wrap64_def min_int_def max_int_def)

lemma wrap64_above:
  assumes "max_int < x" "x \<le> 2 * max_int + 1"
  shows "wrap64 x = x - 2 ^ 64"
proof -
  have "(x + 2 ^ 63) mod 2 ^ 64 = x + 2 ^ 63 - 2 ^ 64"
    by (rule int_mod_pos_eq [where q = 1]) (use assms in \<open>simp_all add: max_int_def\<close>)
  then show ?thesis by (simp add: wrap64_def)
qed

lemma wrap64_range: "min_int \<le> wrap64 x \<and> wrap64 x \<le> max_int"
proof -
  have "0 \<le> (x + 2 ^ 63) mod 2 ^ 64" "(x + 2 ^ 63) mod 2 ^ 64 < 2 ^ 64" by simp_all
  then show ?thesis by (simp add: wrap64_def min_int_def max_int_def)
qed

section \<open>Integer division\<close>

lemma div_less_mult:
  fixes b q k :: int
  assumes "0 < k" "b < q * k"
  shows "b div k < q"
proof (rule ccontr)
  assume "\<not> b div k < q"
  then have "q * k \<le> b div k * k" using assms(1) by (intro mult_right_mono) auto
  also have "\<dots> \<le> b" using assms(1) by (simp add: minus_mod_eq_div_mult [symmetric])
  finally show False using assms(2) by simp
qed

lemma div_eq_between:
  fixes a b k :: int
  assumes "0 < k" "a \<le> b" "b < (a div k + 1) * k"
  shows "b div k = a div k"
proof (rule antisym)
  show "a div k \<le> b div k" using assms(1,2) by (simp add: zdiv_mono1)
  show "b div k \<le> a div k" using div_less_mult [OF assms(1,3)] by simp
qed

section \<open>Package strings\<close>

definition HasPrefix :: "string \<Rightarrow> string \<Rightarrow> bool" where
  "HasPrefix s p \<longleftrightarrow> take (length p) s = p"

text \<open>\<^verbatim>\<open>strings.Cut\<close>: the text before and after the first occurrence of the separator.\<close>

fun Cut :: "string \<Rightarrow> string \<Rightarrow> (string \<times> string) option" where
  "Cut [] sep = (if sep = [] then Some ([], []) else None)"
| "Cut (c # s) sep =
     (if HasPrefix (c # s) sep then Some ([], drop (length sep) (c # s))
      else map_option (\<lambda>(a, b). (c # a, b)) (Cut s sep))"

definition Contains :: "string \<Rightarrow> string \<Rightarrow> bool" where
  "Contains s sub \<longleftrightarrow> Cut s sub \<noteq> None"

lemma HasPrefix_append [simp]: "HasPrefix (p @ s) p"
  by (simp add: HasPrefix_def)

lemma HasPrefixE:
  assumes "HasPrefix s p" obtains r where "s = p @ r"
  using assms append_take_drop_id unfolding HasPrefix_def by metis

lemma HasPrefix_single [simp]:
  "HasPrefix [] [c] = False" "HasPrefix (d # s) [c] \<longleftrightarrow> d = c"
  by (auto simp: HasPrefix_def)

lemma Cut_SomeD: "Cut s sep = Some (a, b) \<Longrightarrow> s = a @ sep @ b"
proof (induction s arbitrary: a)
  case (Cons c s)
  then show ?case
    by (fastforce elim: HasPrefixE split: if_splits)
qed (auto split: if_splits)

lemma Cut_length: "Cut s sep = Some (a, b) \<Longrightarrow> sep \<noteq> [] \<Longrightarrow> length b < length s"
  by (drule Cut_SomeD) simp

text \<open>\<^verbatim>\<open>strings.Split\<close>. An empty separator splits into single characters.\<close>

function Split :: "string \<Rightarrow> string \<Rightarrow> string list" where
  "Split s sep =
     (if sep = [] then map (\<lambda>c. [c]) s
      else case Cut s sep of None \<Rightarrow> [s] | Some (a, b) \<Rightarrow> a # Split b sep)"
  by pat_completeness auto
termination
  by (relation "measure (\<lambda>(s, sep). length s)") (auto dest: Cut_length)

declare Split.simps [simp del]

text \<open>\<^verbatim>\<open>strings.Join\<close>.\<close>

fun Join :: "string list \<Rightarrow> string \<Rightarrow> string" where
  "Join [] sep = []"
| "Join [a] sep = a"
| "Join (a # b # as) sep = a @ sep @ Join (b # as) sep"

lemma Split_not_Nil: "sep \<noteq> [] \<Longrightarrow> Split s sep \<noteq> []"
  by (subst Split.simps) (auto split: option.splits)

lemma Join_Cons: "as \<noteq> [] \<Longrightarrow> Join (a # as) sep = a @ sep @ Join as sep"
  by (cases as) auto

lemma Join_Split: "sep \<noteq> [] \<Longrightarrow> Join (Split s sep) sep = s"
proof (induction s sep rule: Split.induct)
  case (1 s sep)
  show ?case
  proof (cases "Cut s sep")
    case None
    with 1 show ?thesis by (simp add: Split.simps [of s sep])
  next
    case (Some ab)
    obtain a b where ab: "ab = (a, b)" by force
    with 1 Some have "Join (Split b sep) sep = b" by simp
    with 1 Some ab show ?thesis
      by (simp add: Split.simps [of s sep] Join_Cons Split_not_Nil flip: Cut_SomeD [of s sep a b])
  qed
qed

text \<open>Separators of one character: what is between two of them holds none.\<close>

lemma Cut_single_None [simp]: "Cut s [c] = None \<longleftrightarrow> c \<notin> set s"
  by (induction s) auto

lemma Cut_single_absent: "c \<notin> set s \<Longrightarrow> Cut s [c] = None"
  by simp

lemma Contains_single [simp]: "Contains s [c] \<longleftrightarrow> c \<in> set s"
  by (simp add: Contains_def)

lemma Cut_single_append:
  "c \<notin> set a \<Longrightarrow> Cut (a @ c # b) [c] = Some (a, b)"
  by (induction a) auto

lemma Split_single_none: "c \<notin> set s \<Longrightarrow> Split s [c] = [s]"
  by (subst Split.simps) (simp flip: Cut_single_None)

lemma Split_single_append:
  "c \<notin> set a \<Longrightarrow> Split (a @ c # b) [c] = a # Split b [c]"
  by (subst Split.simps) (simp add: Cut_single_append)

lemma Split_Join_single:
  assumes "as \<noteq> []" "\<forall>a \<in> set as. c \<notin> set a"
  shows "Split (Join as [c]) [c] = as"
  using assms
proof (induction as)
  case (Cons a as)
  then show ?case
    by (cases "as = []") (auto simp: Join_Cons Split_single_none Split_single_append)
qed simp

end
