(* ===== verification/GoConv.thy ===== *)
theory GoConv
  imports GoPrelude
begin

text \<open>
  White space and numbers: \<^verbatim>\<open>strings.Fields\<close> and \<^verbatim>\<open>strings.TrimSpace\<close>, \<^verbatim>\<open>strconv.Atoi\<close> and
  \<^verbatim>\<open>strconv.ParseInt\<close> in base 10, the decimal printing of \<^verbatim>\<open>fmt\<close>, and \<^verbatim>\<open>sort.SearchInts\<close>.
\<close>

section \<open>White space\<close>

text \<open>The number of bytes of the \<^verbatim>\<open>unicode.IsSpace\<close> rune at the head of a string, 0 if there is
  none: the six ASCII spaces, U+0085, U+00A0, U+1680, U+2000 to U+200A, U+2028, U+2029, U+202F,
  U+205F and U+3000 in UTF-8.\<close>

definition ascii_space :: "int \<Rightarrow> bool" where
  "ascii_space b \<longleftrightarrow> b = 32 \<or> 9 \<le> b \<and> b \<le> 13"

definition space2 :: "int \<Rightarrow> int \<Rightarrow> bool" where
  "space2 b b1 \<longleftrightarrow> b = 194 \<and> (b1 = 133 \<or> b1 = 160)"

definition space3 :: "int \<Rightarrow> int \<Rightarrow> int \<Rightarrow> bool" where
  "space3 b b1 b2 \<longleftrightarrow>
     b = 225 \<and> b1 = 154 \<and> b2 = 128
   \<or> b = 226 \<and> b1 = 128 \<and> (128 \<le> b2 \<and> b2 \<le> 138 \<or> b2 = 168 \<or> b2 = 169 \<or> b2 = 175)
   \<or> b = 226 \<and> b1 = 129 \<and> b2 = 159
   \<or> b = 227 \<and> b1 = 128 \<and> b2 = 128"

fun space_len :: "string \<Rightarrow> nat" where
  "space_len [] = 0"
| "space_len [c] = (if ascii_space (of_char c) then 1 else 0)"
| "space_len [c, c1] =
     (if ascii_space (of_char c) then 1 else if space2 (of_char c) (of_char c1) then 2 else 0)"
| "space_len (c # c1 # c2 # s) =
     (if ascii_space (of_char c) then 1 else if space2 (of_char c) (of_char c1) then 2
      else if space3 (of_char c) (of_char c1) (of_char c2) then 3 else 0)"

lemma space_len_le: "space_len s \<le> length s"
  by (cases s rule: space_len.cases) auto

declare space_len.simps [simp del]

lemma space_len_Nil [simp]: "space_len [] = 0"
  by (simp add: space_len.simps)

text \<open>\<^verbatim>\<open>strings.Fields\<close>: the maximal runs of non-space characters, with the run read so far as an
  accumulator (reversed).\<close>

function Fields_from :: "string \<Rightarrow> string \<Rightarrow> string list" where
  "Fields_from acc [] = (if acc = [] then [] else [rev acc])"
| "Fields_from acc (c # s) =
     (if space_len (c # s) = 0 then Fields_from (c # acc) s
      else (if acc = [] then [] else [rev acc]) @ Fields_from [] (drop (space_len (c # s)) (c # s)))"
  by pat_completeness auto
termination
  by (relation "measure (\<lambda>(acc, s). length s)") auto

definition Fields :: "string \<Rightarrow> string list" where
  "Fields s = Fields_from [] s"

text \<open>\<^verbatim>\<open>strings.TrimSpace\<close>.\<close>

function trim_left :: "string \<Rightarrow> string" where
  "trim_left s = (if space_len s = 0 then s else trim_left (drop (space_len s) s))"
  by pat_completeness auto
termination
proof (relation "measure length")
  fix s :: string
  assume "space_len s \<noteq> 0"
  then show "(drop (space_len s) s, s) \<in> measure length"
    using space_len_le [of s] by (cases s) auto
qed simp

declare trim_left.simps [simp del]

fun trim_right :: "string \<Rightarrow> string" where
  "trim_right [] = []"
| "trim_right (c # s) = (if trim_left (c # s) = [] then [] else c # trim_right s)"

definition TrimSpace :: "string \<Rightarrow> string" where
  "TrimSpace s = trim_right (trim_left s)"

text \<open>A character that no white space begins with.\<close>

definition plain_char :: "char \<Rightarrow> bool" where
  "plain_char c \<longleftrightarrow> (let b = of_char c :: int in 33 \<le> b \<and> b \<le> 126)"

lemma space_len_plain [simp]: "plain_char c \<Longrightarrow> space_len (c # s) = 0"
  by (cases "c # s" rule: space_len.cases)
    (auto simp: space_len.simps(2-) ascii_space_def space2_def space3_def plain_char_def Let_def)

lemma space_len_blank [simp]: "space_len (CHR '' '' # s) = 1"
  by (cases "CHR '' '' # s" rule: space_len.cases) (auto simp: space_len.simps(2-) ascii_space_def)

lemma Fields_from_plain:
  assumes "\<forall>c \<in> set w. plain_char c"
  shows "Fields_from acc (w @ CHR '' '' # s) =
    (if rev acc @ w = [] then [] else [rev acc @ w]) @ Fields_from [] s"
    and "Fields_from acc w = (if rev acc @ w = [] then [] else [rev acc @ w])"
  using assms by (induction w arbitrary: acc) auto

text \<open>Words joined by blanks are read back as they are.\<close>

lemma Fields_Join:
  assumes "\<forall>w \<in> set ws. w \<noteq> [] \<and> (\<forall>c \<in> set w. plain_char c)"
  shows "Fields (Join ws '' '') = ws"
  using assms
proof (induction ws)
  case (Cons w ws)
  then show ?case
    by (cases "ws = []") (auto simp: Fields_def Join_Cons Fields_from_plain)
qed (simp add: Fields_def)

lemma trim_left_plain [simp]: "plain_char c \<Longrightarrow> trim_left (c # s) = c # s"
  by (subst trim_left.simps) simp

lemma trim_right_plain: "\<forall>c \<in> set s. plain_char c \<Longrightarrow> trim_right s = s"
  by (induction s) auto

lemma TrimSpace_plain: "\<forall>c \<in> set s. plain_char c \<Longrightarrow> TrimSpace s = s"
  by (cases s) (auto simp: TrimSpace_def trim_right_plain trim_left.simps)

section \<open>Numbers\<close>

definition is_digit :: "char \<Rightarrow> bool" where
  "is_digit c \<longleftrightarrow> (let b = of_char c :: int in 48 \<le> b \<and> b \<le> 57)"

fun digits_val :: "int \<Rightarrow> string \<Rightarrow> int option" where
  "digits_val acc [] = Some acc"
| "digits_val acc (c # s) =
     (if is_digit c then digits_val (10 * acc + (of_char c - 48)) s else None)"

text \<open>\<^verbatim>\<open>strconv.ParseInt(s, 10, 64)\<close>: an optional sign, then at least one digit and nothing else;
  \<open>None\<close> stands for the syntax and the range error.\<close>

definition ParseInt :: "string \<Rightarrow> int option" where
  "ParseInt s =
     (let neg = HasPrefix s ''-'';
          ds = (if neg \<or> HasPrefix s ''+'' then tl s else s)
      in if ds = [] then None
         else case digits_val 0 ds of
             None \<Rightarrow> None
           | Some n \<Rightarrow> let v = (if neg then - n else n)
                       in if min_int \<le> v \<and> v \<le> max_int then Some v else None)"

text \<open>\<^verbatim>\<open>strconv.Atoi\<close> is \<^verbatim>\<open>ParseInt(s, 10, 0)\<close>; \<^verbatim>\<open>int\<close> has 64 bits.\<close>

definition Atoi :: "string \<Rightarrow> int option" where
  "Atoi s = ParseInt s"

lemma ParseInt_range: "ParseInt s = Some v \<Longrightarrow> min_int \<le> v \<and> v \<le> max_int"
  by (auto simp: ParseInt_def Let_def split: option.splits if_splits)

lemma Atoi_range: "Atoi s = Some v \<Longrightarrow> min_int \<le> v \<and> v \<le> max_int"
  by (simp add: Atoi_def ParseInt_range)

text \<open>A numeral of \<open>k\<close> characters is below \<open>10 ^ k\<close>.\<close>

lemma digits_val_bound:
  "digits_val a s = Some n \<Longrightarrow> 0 \<le> a \<Longrightarrow> 0 \<le> n \<and> n < (a + 1) * 10 ^ length s"
proof (induction s arbitrary: a)
  case (Cons c s)
  let ?a = "10 * a + (of_char c - 48)"
  from Cons.prems have d: "is_digit c" "digits_val ?a s = Some n" by (auto split: if_splits)
  then have "0 \<le> ?a" "?a + 1 \<le> (a + 1) * 10"
    using Cons.prems(2) by (auto simp: is_digit_def Let_def)
  with Cons.IH [OF d(2)] have n: "0 \<le> n" "n < (?a + 1) * 10 ^ length s" by blast+
  have "(?a + 1) * 10 ^ length s \<le> (a + 1) * 10 * 10 ^ length s"
    using \<open>?a + 1 \<le> (a + 1) * 10\<close> by (rule mult_right_mono) simp
  with n(2) have "n < (a + 1) * 10 * 10 ^ length s" by (rule less_le_trans)
  with n(1) show ?case by (simp only: length_Cons power_Suc mult.assoc)
qed simp

lemma ParseInt_SomeE:
  assumes "ParseInt s = Some v"
  obtains n ds where "digits_val 0 ds = Some n" "length ds \<le> length s" "v \<le> n"
proof -
  let ?ds = "if HasPrefix s ''-'' \<or> HasPrefix s ''+'' then tl s else s"
  from assms obtain n where "digits_val 0 ?ds = Some n" "v = n \<or> v = - n"
    by (auto simp: ParseInt_def Let_def split: option.splits if_splits)
  with digits_val_bound [of 0 ?ds n] show ?thesis
    by (intro that [of ?ds n]) auto
qed

lemma Atoi_bound:
  assumes "Atoi s = Some v" shows "v < 10 ^ length s"
proof -
  from assms obtain n ds where "digits_val 0 ds = Some n" "length ds \<le> length s" "v \<le> n"
    unfolding Atoi_def by (rule ParseInt_SomeE)
  moreover from this have "n < 10 ^ length ds" by (auto dest: digits_val_bound)
  moreover have "(10::int) ^ length ds \<le> 10 ^ length s"
    using \<open>length ds \<le> length s\<close> by (simp add: power_increasing)
  ultimately show ?thesis by linarith
qed

text \<open>Decimal printing (\<^verbatim>\<open>%d\<close>).\<close>

fun Itoa_nat :: "nat \<Rightarrow> string" where
  "Itoa_nat n = (if n < 10 then [char_of (48 + n)] else Itoa_nat (n div 10) @ [char_of (48 + n mod 10)])"

declare Itoa_nat.simps [simp del]

definition Itoa :: "int \<Rightarrow> string" where
  "Itoa v = (if v < 0 then CHR ''-'' # Itoa_nat (nat (- v)) else Itoa_nat (nat v))"


lemma is_digit_char_of [simp]: "d < 10 \<Longrightarrow> is_digit (char_of (48 + d))"
  and of_char_digit [simp]: "d < 10 \<Longrightarrow> of_char (char_of (48 + d)) = (48 + int d :: int)"
proof -
  have b: "of_char (char_of (48 + d :: nat)) = (48 + int d :: int)" if "d < 10" for d
  proof -
    have "of_char (char_of (48 + d)) = (48 + d :: nat)" using that by simp
    then show ?thesis by (metis of_nat_add of_nat_numeral of_nat_of_char)
  qed
  show "d < 10 \<Longrightarrow> is_digit (char_of (48 + d))"
    by (simp add: is_digit_def b del: of_char_of)
  show "d < 10 \<Longrightarrow> of_char (char_of (48 + d)) = (48 + int d :: int)" by (rule b)
qed

lemma digits_val_append:
  "digits_val a (s @ t) = Option.bind (digits_val a s) (\<lambda>b. digits_val b t)"
  by (induction s arbitrary: a) auto

lemma Itoa_nat_digits: "c \<in> set (Itoa_nat n) \<Longrightarrow> is_digit c"
proof (induction n rule: Itoa_nat.induct)
  case (1 n)
  then show ?case
    by (cases "n < 10") (auto simp: Itoa_nat.simps [of n])
qed

lemma Itoa_nat_not_Nil [simp]: "Itoa_nat n \<noteq> []"
  by (subst Itoa_nat.simps) simp

lemma digits_val_Itoa_nat: "digits_val 0 (Itoa_nat n) = Some (int n)"
proof (induction n rule: Itoa_nat.induct)
  case (1 n)
  show ?case
  proof (cases "n < 10")
    case True
    then show ?thesis by (simp add: Itoa_nat.simps [of n])
  next
    case False
    with 1 have "digits_val 0 (Itoa_nat (n div 10)) = Some (int (n div 10))" by simp
    with False show ?thesis
      by (simp add: Itoa_nat.simps [of n] digits_val_append zdiv_int zmod_int)
  qed
qed

lemma not_HasPrefix_digits:
  "\<forall>c \<in> set s. is_digit c \<Longrightarrow> \<not> is_digit d \<Longrightarrow> \<not> HasPrefix s [d]"
  by (cases s) auto

lemma Atoi_Itoa: "min_int \<le> v \<Longrightarrow> v \<le> max_int \<Longrightarrow> Atoi (Itoa v) = Some v"
proof -
  assume v: "min_int \<le> v" "v \<le> max_int"
  have sign: "\<not> HasPrefix (Itoa_nat n) [d]" if "\<not> is_digit d" for n d
    using that by (intro not_HasPrefix_digits) (auto dest: Itoa_nat_digits)
  have "\<not> is_digit (CHR ''-'')" "\<not> is_digit (CHR ''+'')" by (simp_all add: is_digit_def)
  with v show ?thesis
    by (simp add: Atoi_def ParseInt_def Itoa_def digits_val_Itoa_nat sign)
qed

lemma Itoa_nonneg_digits: "0 \<le> v \<Longrightarrow> c \<in> set (Itoa v) \<Longrightarrow> is_digit c"
  by (simp add: Itoa_def Itoa_nat_digits)

lemma Itoa_not_Nil [simp]: "Itoa v \<noteq> []"
  by (simp add: Itoa_def)

lemma is_digit_plain: "is_digit c \<Longrightarrow> plain_char c"
  by (auto simp: is_digit_def plain_char_def Let_def)

section \<open>Binary search\<close>

text \<open>\<^verbatim>\<open>sort.SearchInts\<close>: the loop of the library, with its two bounds.\<close>

function search_loop :: "int list \<Rightarrow> int \<Rightarrow> nat \<Rightarrow> nat \<Rightarrow> nat" where
  "search_loop a x i j =
     (if i < j then
        let h = (i + j) div 2
        in if a ! h < x then search_loop a x (h + 1) j else search_loop a x i h
      else i)"
  by pat_completeness auto
termination
  by (relation "measure (\<lambda>(a, x, i, j). j - i)") auto

declare search_loop.simps [simp del]

definition SearchInts :: "int list \<Rightarrow> int \<Rightarrow> nat" where
  "SearchInts a x = search_loop a x 0 (length a)"

text \<open>The index found separates the smaller elements from the others.\<close>

lemma search_loop_spec:
  assumes "sorted a" "j \<le> length a" "i \<le> j"
    and "\<forall>k < i. a ! k < x" "\<forall>k. j \<le> k \<and> k < length a \<longrightarrow> x \<le> a ! k"
  shows "search_loop a x i j \<le> length a
    \<and> (\<forall>k < search_loop a x i j. a ! k < x)
    \<and> (\<forall>k. search_loop a x i j \<le> k \<and> k < length a \<longrightarrow> x \<le> a ! k)"
  using assms
proof (induction a x i j rule: search_loop.induct)
  case (1 a x i j)
  let ?h = "(i + j) div 2"
  let ?goal = "\<lambda>r. r \<le> length a \<and> (\<forall>k < r. a ! k < x) \<and> (\<forall>k. r \<le> k \<and> k < length a \<longrightarrow> x \<le> a ! k)"
  show ?case
  proof (cases "i < j")
    case True
    then have h: "i \<le> ?h" "?h < j" "?h < length a" using "1.prems" by auto
    show ?thesis
    proof (cases "a ! ?h < x")
      case less: True
      have "\<forall>k < ?h + 1. a ! k < x"
        using sorted_nth_mono [OF "1.prems"(1), of _ ?h] h(3) less
        by (metis Suc_eq_plus1 less_Suc_eq_le order.strict_trans1)
      then have "?goal (search_loop a x (?h + 1) j)"
        using "1.IH"(1) [OF True refl less] "1.prems"(1,2,5) h(2) by (metis Suc_eq_plus1 Suc_leI)
      with True less show ?thesis by (simp add: search_loop.simps [of a x i j])
    next
      case ge: False
      have "\<forall>k. ?h \<le> k \<and> k < length a \<longrightarrow> x \<le> a ! k"
        using sorted_nth_mono [OF "1.prems"(1), of ?h] ge by (metis not_less order_trans)
      then have "?goal (search_loop a x i ?h)"
        using "1.IH"(2) [OF True refl ge] "1.prems"(1,4) h by (meson less_imp_le)
      with True ge show ?thesis by (simp add: search_loop.simps [of a x i j])
    qed
  next
    case False
    then have "search_loop a x i j = i" by (simp add: search_loop.simps [of a x i j])
    with False "1.prems" show ?thesis by auto
  qed
qed

lemma SearchInts_spec:
  assumes "sorted a"
  shows "SearchInts a x < length a \<and> a ! SearchInts a x = x \<longleftrightarrow> x \<in> set a"
proof -
  let ?i = "SearchInts a x"
  have s: "?i \<le> length a" "\<forall>k < ?i. a ! k < x" "\<forall>k. ?i \<le> k \<and> k < length a \<longrightarrow> x \<le> a ! k"
    using search_loop_spec [OF assms, of "length a" 0 x] by (auto simp: SearchInts_def)
  show ?thesis
  proof
    assume "x \<in> set a"
    then obtain k where k: "k < length a" "a ! k = x" by (auto simp: in_set_conv_nth)
    with s(2) have "?i \<le> k" using not_less by auto
    with k s(3) sorted_nth_mono [OF assms this k(1)]
    show "?i < length a \<and> a ! ?i = x" by auto
  qed (metis nth_mem)
qed

end
