(* ===== verification/CronParser.thy ===== *)
theory CronParser
  imports GoConv
begin

text \<open>
  The cron expression parser, \<^verbatim>\<open>src/pgk/parser/cron_expression_parser.go\<close>: \<^verbatim>\<open>parsePart\<close>,
  \<^verbatim>\<open>contains\<close> and \<^verbatim>\<open>ParseCron\<close>. The parser's loops count with a wrapping 64-bit integer and end
  only when the counter passes the upper bound, so they are partial: a result \<open>None\<close> is a loop
  that does not end, \<open>Some (Inl e)\<close> an error and \<open>Some (Inr v)\<close> a value. The set the code builds
  (a Go map with empty values) is an \<^typ>\<open>int set\<close>; the map's iteration order does not matter,
  because the values are sorted at the end.
\<close>

section \<open>The parser\<close>

record CronExpr =
  Minute :: "int list"
  Hour :: "int list"
  DayOfMonth :: "int list"
  Month :: "int list"
  DayOfWeek :: "int list"

partial_function (option) step_loop :: "int \<Rightarrow> int \<Rightarrow> int \<Rightarrow> int set \<Rightarrow> int set option" where
  "step_loop i lim step S =
     (if i \<le> lim then step_loop (wrap64 (i + step)) lim step (insert i S) else Some S)"

declare step_loop.simps [code]

definition fill :: "int \<Rightarrow> int \<Rightarrow> int \<Rightarrow> int set \<Rightarrow> int set result option" where
  "fill i lim step S = map_option Inr (step_loop i lim step S)"

text \<open>A token with a step. In the branch for a range, the code's \<^verbatim>\<open>rEnd, err2 := \<dots>\<close> declares a
  new \<^verbatim>\<open>rEnd\<close> for that block only; the loop after the branches reads the outer \<^verbatim>\<open>rEnd\<close>, still 0.\<close>

definition parseStepToken :: "string \<Rightarrow> int \<Rightarrow> int \<Rightarrow> int set \<Rightarrow> int set result option" where
  "parseStepToken token mn mx S =
     (let rangeAndStep = Split token ''/'' in
      if length rangeAndStep \<noteq> 2 then Some (Inl (''invalid step expression: '' @ token))
      else let base = rangeAndStep ! 0 in
        case Atoi (rangeAndStep ! 1) of
          None \<Rightarrow> Some (Inl (''invalid step value: '' @ token))
        | Some step \<Rightarrow>
            if step \<le> 0 then Some (Inl (''invalid step value: '' @ token))
            else if base = ''*'' then fill mn mx step S
            else if Contains base ''-'' then
              let parts = Split base ''-'' in
              if length parts \<noteq> 2 then Some (Inl (''invalid range: '' @ base))
              else (case (Atoi (parts ! 0), Atoi (parts ! 1)) of
                  (Some rStart, Some rEnd) \<Rightarrow>
                    if rStart > rEnd \<or> rStart < mn \<or> rEnd > mx
                    then Some (Inl (''invalid range: '' @ base))
                    else fill rStart 0 step S
                | _ \<Rightarrow> Some (Inl (''invalid range: '' @ base)))
            else (case Atoi base of
                None \<Rightarrow> Some (Inl (''invalid value: '' @ base))
              | Some num \<Rightarrow>
                  if num < mn \<or> num > mx then Some (Inl (''invalid value: '' @ base))
                  else fill num mx step S))"

definition parseToken :: "string \<Rightarrow> int \<Rightarrow> int \<Rightarrow> int set \<Rightarrow> int set result option" where
  "parseToken token mn mx S =
     (if Contains token ''/'' then parseStepToken token mn mx S
      else if Contains token ''-'' then
        let parts = Split token ''-'' in
        if length parts \<noteq> 2 then Some (Inl (''invalid range: '' @ token))
        else (case (Atoi (parts ! 0), Atoi (parts ! 1)) of
            (Some start, Some end') \<Rightarrow>
              if start > end' \<or> start < mn \<or> end' > mx
              then Some (Inl (''invalid range: '' @ token))
              else fill start end' 1 S
          | _ \<Rightarrow> Some (Inl (''invalid range: '' @ token)))
      else case Atoi token of
          None \<Rightarrow> Some (Inl (''invalid value: '' @ token))
        | Some num \<Rightarrow>
            if num < mn \<or> num > mx then Some (Inl (''invalid value: '' @ token))
            else Some (Inr (insert num S)))"

fun parseTokens :: "string list \<Rightarrow> int \<Rightarrow> int \<Rightarrow> int set \<Rightarrow> int set result option" where
  "parseTokens [] mn mx S = Some (Inr S)"
| "parseTokens (token # ts) mn mx S =
     (case parseToken token mn mx S of
        Some (Inr S') \<Rightarrow> parseTokens ts mn mx S'
      | r \<Rightarrow> r)"

definition parseSet :: "string \<Rightarrow> int \<Rightarrow> int \<Rightarrow> int set result option" where
  "parseSet part mn mx =
     (if part = ''*'' \<or> HasPrefix part ''*/'' then
        if HasPrefix part ''*/'' then
          case Atoi (drop 2 part) of
            None \<Rightarrow> Some (Inl (''invalid step: '' @ part))
          | Some s \<Rightarrow> if s \<le> 0 then Some (Inl (''invalid step: '' @ part)) else fill mn mx s {}
        else fill mn mx 1 {}
      else parseTokens (Split part '','') mn mx {})"

definition parsePart :: "string \<Rightarrow> int \<Rightarrow> int \<Rightarrow> int list result option" where
  "parsePart part mn mx = map_option (map_sum id sorted_list_of_set) (parseSet part mn mx)"

definition contains :: "int list \<Rightarrow> int \<Rightarrow> bool" where
  "contains vals v = (let i = SearchInts vals v in i < length vals \<and> vals ! i = v)"

text \<open>One field of the expression: parse it, and put the field's name before an error.\<close>

definition parseField ::
  "string \<Rightarrow> string \<Rightarrow> int \<Rightarrow> int \<Rightarrow> (int list \<Rightarrow> 'a result option) \<Rightarrow> 'a result option" where
  "parseField name part mn mx k =
     (case parsePart part mn mx of
        None \<Rightarrow> None
      | Some (Inl err) \<Rightarrow> Some (Inl (name @ '' error: '' @ err))
      | Some (Inr vals) \<Rightarrow> k vals)"

definition ParseCron :: "string \<Rightarrow> CronExpr result option" where
  "ParseCron expr =
     (let parts = Fields expr in
      if length parts \<noteq> 5 then Some (Inl (''invalid cron expression: '' @ expr))
      else
        parseField ''minute'' (parts ! 0) 0 59 (\<lambda>minute.
        parseField ''hour'' (parts ! 1) 0 23 (\<lambda>hour.
        parseField ''dayOfMonth'' (parts ! 2) 1 31 (\<lambda>dayOfMonth.
        parseField ''month'' (parts ! 3) 1 12 (\<lambda>month.
        parseField ''dayOfWeek'' (parts ! 4) 0 6 (\<lambda>dayOfWeek.
          Some (Inr \<lparr>Minute = minute, Hour = hour, DayOfMonth = dayOfMonth,
                     Month = month, DayOfWeek = dayOfWeek\<rparr>)))))))"

section \<open>The counting loop\<close>

lemma step_loop_stop: "lim < i \<Longrightarrow> step_loop i lim s S = Some S"
  by (simp add: step_loop.simps)

lemma step_loop_go: "i \<le> lim \<Longrightarrow> step_loop i lim s S = step_loop (wrap64 (i + s)) lim s (insert i S)"
  by (subst step_loop.simps) simp

text \<open>While the counter cannot overflow, the loop collects the arithmetic progression.\<close>

lemma progression_step:
  fixes i s lim :: int
  assumes "0 < s" "i \<le> lim"
  shows "{v. i \<le> v \<and> v \<le> lim \<and> s dvd (v - i)}
    = insert i {v. i + s \<le> v \<and> v \<le> lim \<and> s dvd (v - (i + s))}"
proof -
  have "s dvd (v - (i + s)) \<longleftrightarrow> s dvd (v - i)" for v
    by (metis diff_diff_eq dvd_diff_left_iff dvd_refl)
  moreover have "s \<le> v - i" if "s dvd (v - i)" "i \<le> v" "v \<noteq> i" for v
    using that by (intro zdvd_imp_le) auto
  ultimately show ?thesis using assms by force
qed

lemma step_loop_progression:
  assumes "0 < s" "lim + s \<le> max_int" "min_int \<le> i"
  shows "step_loop i lim s S = Some (S \<union> {v. i \<le> v \<and> v \<le> lim \<and> s dvd (v - i)})"
  using assms
proof (induction "nat (lim + 1 - i)" arbitrary: i S rule: less_induct)
  case less
  show ?case
  proof (cases "i \<le> lim")
    case True
    then have w: "wrap64 (i + s) = i + s"
      using less.prems by (intro wrap64_id) auto
    have "step_loop (i + s) lim s (insert i S)
        = Some (insert i S \<union> {v. i + s \<le> v \<and> v \<le> lim \<and> s dvd (v - (i + s))})"
      using less.prems True by (intro less.hyps) auto
    with True w less.prems(1) show ?thesis by (simp add: step_loop_go progression_step)
  qed (auto simp: step_loop_stop)
qed

text \<open>With a step near the largest integer the counter wraps around and comes back below its
  start; the loop still ends, because each such round lowers the counter.\<close>

lemma step_loop_ends_wrapping:
  assumes "0 \<le> i" "max_int < lim + s" "s \<le> max_int" "lim < 2 ^ 61"
  shows "\<exists>T. step_loop i lim s S = Some T"
  using assms(1)
proof (induction "nat i" arbitrary: i S rule: less_induct)
  case less
  have big: "2 ^ 62 < s" "lim < s" using assms(2,4) by (simp_all add: max_int_def)
  show ?case
  proof (cases "i \<le> lim")
    case le: True
    show ?thesis
    proof (cases "i + s \<le> max_int")
      case True
      then have "wrap64 (i + s) = i + s"
        using less.prems big(1) by (intro wrap64_id) (auto simp: min_int_def)
      with le big(2) less.prems show ?thesis by (simp add: step_loop_go step_loop_stop)
    next
      case False
      let ?j = "i + s - 2 ^ 64"
      have w1: "wrap64 (i + s) = ?j"
        using False le assms(3,4) by (intro wrap64_above) (auto simp: max_int_def)
      have w2: "wrap64 (?j + s) = ?j + s"
        using False le assms(3,4) by (intro wrap64_id) (auto simp: max_int_def min_int_def)
      have le2: "?j \<le> lim" "?j + s \<le> lim" "?j + s < i"
        using le assms(3) less.prems by (auto simp: max_int_def)
      have e: "step_loop i lim s S = step_loop (?j + s) lim s (insert ?j (insert i S))"
        using le le2 w1 w2 by (simp add: step_loop_go)
      show ?thesis
      proof (cases "0 \<le> ?j + s")
        case True
        then show ?thesis
          unfolding e using le2(3) by (intro less.hyps) auto
      next
        case neg: False
        have "wrap64 (?j + s + s) = ?j + s + s"
          using neg assms(3) big(1) less.prems
          by (intro wrap64_id) (auto simp: max_int_def min_int_def)
        moreover have "lim < ?j + s + s"
          using assms(2,4) less.prems by (simp add: max_int_def)
        ultimately show ?thesis
          unfolding e using le2(2) by (simp add: step_loop_go step_loop_stop)
      qed
    qed
  qed (auto simp: step_loop_stop)
qed

lemma step_loop_ends:
  assumes "0 \<le> i" "0 < s" "s \<le> max_int" "lim < 2 ^ 61"
  shows "\<exists>T. step_loop i lim s S = Some T"
  using step_loop_progression [of s lim i S] step_loop_ends_wrapping [of i lim s S] assms
  by (cases "lim + s \<le> max_int") (auto simp: min_int_def)

lemma step_loop_result:
  assumes "step_loop i lim s S = Some T"
  shows "(finite S \<longrightarrow> finite T) \<and> S \<subseteq> T \<and> (\<forall>v \<in> T. v \<in> S \<or> v \<le> lim)"
proof (rule step_loop.raw_induct [where P = "\<lambda>i lim s S T.
    (finite S \<longrightarrow> finite T) \<and> S \<subseteq> T \<and> (\<forall>v \<in> T. v \<in> S \<or> v \<le> lim)", OF _ assms])
  fix f :: "int \<Rightarrow> int \<Rightarrow> int \<Rightarrow> int set \<Rightarrow> int set option" and i lim s S T
  assume IH: "\<And>i lim s S T. f i lim s S = Some T \<Longrightarrow>
      (finite S \<longrightarrow> finite T) \<and> S \<subseteq> T \<and> (\<forall>v \<in> T. v \<in> S \<or> v \<le> lim)"
    and eq: "(if i \<le> lim then f (wrap64 (i + s)) lim s (insert i S) else Some S) = Some T"
  show "(finite S \<longrightarrow> finite T) \<and> S \<subseteq> T \<and> (\<forall>v \<in> T. v \<in> S \<or> v \<le> lim)"
    using eq IH [of "wrap64 (i + s)" lim s "insert i S" T] by (auto split: if_splits)
qed

section \<open>Every parse ends\<close>

lemma fill_total [intro]:
  "0 \<le> i \<Longrightarrow> 0 < s \<Longrightarrow> s \<le> max_int \<Longrightarrow> lim < 2 ^ 61 \<Longrightarrow> \<exists>r. fill i lim s S = Some r"
  using step_loop_ends [of i s lim S] by (auto simp: fill_def)

lemma parseStepToken_total:
  assumes "0 \<le> mn" "mx < 2 ^ 61"
  shows "\<exists>r. parseStepToken token mn mx S = Some r"
  using assms
  by (auto simp: parseStepToken_def Let_def dest!: Atoi_range split: option.splits)

lemma parseToken_total:
  assumes "0 \<le> mn" "mx < 2 ^ 61"
  shows "\<exists>r. parseToken token mn mx S = Some r"
  using assms parseStepToken_total [OF assms]
  by (auto simp: parseToken_def Let_def max_int_def split: option.splits)

lemma parseTokens_total:
  assumes "0 \<le> mn" "mx < 2 ^ 61"
  shows "\<exists>r. parseTokens ts mn mx S = Some r"
proof (induction ts arbitrary: S)
  case (Cons t ts)
  then show ?case
    using parseToken_total [OF assms, of t S] by (auto split: sum.splits)
qed simp

lemma parsePart_total:
  assumes "0 \<le> mn" "mx < 2 ^ 61"
  shows "\<exists>r. parsePart part mn mx = Some r"
  using assms parseTokens_total [OF assms]
  by (auto simp: parsePart_def parseSet_def max_int_def dest!: Atoi_range split: option.splits)

lemma parseField_total:
  assumes "0 \<le> mn" "mx < 2 ^ 61" "\<And>vals. \<exists>r. k vals = Some r"
  shows "\<exists>r. parseField name part mn mx k = Some r"
  using parsePart_total [OF assms(1,2), of part] assms(3)
  by (auto simp: parseField_def split: sum.splits)

lemma ParseCron_total: "\<exists>r. ParseCron expr = Some r"
  by (auto simp: ParseCron_def Let_def intro!: parseField_total)

section \<open>The shape of a parsed field\<close>

text \<open>A predicate on the set built so far that every way of adding to it keeps is a property of
  the whole parse; the tokens enter by the bound on the step they can spell.\<close>

lemma fill_bounds:
  assumes "fill i lim s S = Some (Inr T)" "0 < s" "s < 10 ^ 18" "mx < 2 ^ 61"
    and "0 \<le> mn" "mn \<le> i" "lim \<le> mx"
  shows "T \<subseteq> S \<union> {mn..mx}"
proof -
  have "step_loop i lim s S = Some (S \<union> {v. i \<le> v \<and> v \<le> lim \<and> s dvd (v - i)})"
    using assms by (intro step_loop_progression) (auto simp: max_int_def min_int_def)
  with assms show ?thesis by (auto simp: fill_def)
qed

lemma fill_finite: "fill i lim s S = Some (Inr T) \<Longrightarrow> finite S \<Longrightarrow> finite T"
  using step_loop_result by (auto simp: fill_def)

lemma Split_lengths: "a \<in> set (Split s [c]) \<Longrightarrow> length a \<le> length s"
proof (induction s "[c]" rule: Split.induct)
  case (1 s)
  show ?case
  proof (cases "Cut s [c]")
    case None
    with 1 show ?thesis by (simp add: Split.simps [of s])
  next
    case (Some p)
    obtain x y where p: "p = (x, y)" by force
    with Some have s: "s = x @ [c] @ y" by (metis Cut_SomeD)
    from 1 Some p have "a = x \<or> length a \<le> length y" by (auto simp: Split.simps [of s])
    with s show ?thesis by auto
  qed
qed

lemma Atoi_short: "Atoi s = Some v \<Longrightarrow> length s \<le> 18 \<Longrightarrow> v < 10 ^ 18"
  using Atoi_bound [of s v] power_increasing [of "length s" 18 "10::int"] by simp

lemma step_part_short:
  assumes "length token \<le> 18" "length (Split token ''/'') = 2" "Atoi (Split token ''/'' ! 1) = Some v"
  shows "v < 10 ^ 18"
proof -
  have "Split token ''/'' ! 1 \<in> set (Split token ''/'')" using assms(2) by simp
  with assms show ?thesis by (meson Atoi_short Split_lengths order_trans)
qed

text \<open>How a token can succeed: it is a value, or it runs the counting loop within the bounds.\<close>

lemma parseToken_InrE:
  assumes "parseToken token mn mx S = Some (Inr T)" "0 \<le> mn" "mn \<le> mx"
  obtains (single) num where "mn \<le> num" "num \<le> mx" "T = insert num S"
  | (loop) i lim s where "fill i lim s S = Some (Inr T)" "0 < s" "mn \<le> i" "lim \<le> mx"
      "s = 1 \<or> length (Split token ''/'') = 2 \<and> Atoi (Split token ''/'' ! 1) = Some s"
proof (cases "Contains token ''/''")
  case True
  with assms(1) have "parseStepToken token mn mx S = Some (Inr T)" by (simp add: parseToken_def)
  then obtain i lim s where "fill i lim s S = Some (Inr T)" "0 < s" "mn \<le> i" "lim \<le> mx"
      "length (Split token ''/'') = 2 \<and> Atoi (Split token ''/'' ! 1) = Some s"
    using assms(2,3)
    by (auto simp: parseStepToken_def Let_def not_le not_less split: if_splits option.splits)
  then show ?thesis by (intro loop) auto
next
  case False
  then show ?thesis
    using assms single loop
    by (auto simp: parseToken_def Let_def not_le not_less split: if_splits option.splits)
qed

lemma parseToken_bounds:
  assumes "parseToken token mn mx S = Some (Inr T)" "length token \<le> 18" "0 \<le> mn" "mn \<le> mx" "mx < 2 ^ 61"
  shows "T \<subseteq> S \<union> {mn..mx} \<and> (finite S \<longrightarrow> finite T)"
  using assms(1,3,4)
proof (cases rule: parseToken_InrE)
  case (loop i lim s)
  then have "s < 10 ^ 18" using assms(2) by (auto dest: step_part_short)
  with loop assms show ?thesis
    using fill_bounds [of i lim s S T mx mn] fill_finite by blast
qed auto

lemma parseTokens_bounds:
  assumes "parseTokens ts mn mx S = Some (Inr T)" "\<forall>t \<in> set ts. length t \<le> 18"
    and "0 \<le> mn" "mn \<le> mx" "mx < 2 ^ 61"
  shows "T \<subseteq> S \<union> {mn..mx} \<and> (finite S \<longrightarrow> finite T)"
  using assms(1,2)
proof (induction ts arbitrary: S)
  case (Cons t ts)
  then obtain S' where S': "parseToken t mn mx S = Some (Inr S')" "parseTokens ts mn mx S' = Some (Inr T)"
    by (auto split: option.splits sum.splits)
  have "S' \<subseteq> S \<union> {mn..mx} \<and> (finite S \<longrightarrow> finite S')"
    using parseToken_bounds [OF S'(1)] Cons.prems(2) assms(3-) by simp
  with Cons.IH [OF S'(2)] Cons.prems(2) show ?case by auto
qed simp

lemma parseToken_finite:
  "parseToken token mn mx S = Some (Inr T) \<Longrightarrow> finite S \<Longrightarrow> finite T"
  by (auto simp: parseToken_def parseStepToken_def Let_def dest: fill_finite
      split: if_splits option.splits)

lemma parseTokens_finite:
  "parseTokens ts mn mx S = Some (Inr T) \<Longrightarrow> finite S \<Longrightarrow> finite T"
  by (induction ts arbitrary: S) (auto split: option.splits sum.splits dest: parseToken_finite)

lemma parseSet_finite: "parseSet part mn mx = Some (Inr S) \<Longrightarrow> finite S"
  by (auto simp: parseSet_def dest: fill_finite parseTokens_finite split: if_splits option.splits)

lemma parsePart_InrE:
  assumes "parsePart part mn mx = Some (Inr vals)"
  obtains S where "parseSet part mn mx = Some (Inr S)" "finite S" "vals = sorted_list_of_set S"
proof -
  from assms obtain S where "parseSet part mn mx = Some (Inr S)" "vals = sorted_list_of_set S"
    by (auto simp: parsePart_def)
  with that parseSet_finite show ?thesis by blast
qed

lemma parseSet_bounds:
  assumes "parseSet part mn mx = Some (Inr S)" "length part \<le> 18" "0 \<le> mn" "mn \<le> mx" "mx < 2 ^ 61"
  shows "S \<subseteq> {mn..mx}"
proof (cases "part = ''*'' \<or> HasPrefix part ''*/''")
  case True
  then obtain s where "fill mn mx s {} = Some (Inr S)" "0 < s" "s < 10 ^ 18"
    using assms(1,2) Atoi_short [of "drop 2 part"]
    by (fastforce simp: parseSet_def split: if_splits option.splits)
  with assms show ?thesis using fill_bounds [of mn mx s "{}" S mx mn] by simp
next
  case False
  have "\<forall>t \<in> set (Split part '',''). length t \<le> 18"
    using Split_lengths assms(2) by (meson order_trans)
  with False assms show ?thesis
    using parseTokens_bounds [of "Split part '',''" mn mx "{}" S] by (simp add: parseSet_def)
qed

lemma contains_iff: "sorted vals \<Longrightarrow> contains vals v \<longleftrightarrow> v \<in> set vals"
  by (simp add: contains_def Let_def SearchInts_spec)

lemma parsePart_sorted:
  "parsePart part mn mx = Some (Inr vals) \<Longrightarrow> sorted vals \<and> distinct vals"
  by (auto elim!: parsePart_InrE)

end
