(* ===== verification/CronFields.thy ===== *)
theory CronFields
  imports CronParser
begin

text \<open>
  What a cron field means, as an abstract syntax with the set of values it denotes, and the
  theorems that tie the parser to it: every parse ends, a parsed field is a sorted set of values
  within its bounds, and the text of a field is read back as what it denotes. The one form of
  item the parser gets wrong, a range with a step, is stated as what the code computes.
\<close>

section \<open>The language of cron fields\<close>

datatype cron_item = Value int | Range int int | ValueStep int int | StarStep int

datatype cron_field = Any | AnyStep int | Items "cron_item list"

fun item_text :: "cron_item \<Rightarrow> string" where
  "item_text (Value v) = Itoa v"
| "item_text (Range a b) = Itoa a @ CHR ''-'' # Itoa b"
| "item_text (ValueStep v s) = Itoa v @ CHR ''/'' # Itoa s"
| "item_text (StarStep s) = CHR ''*'' # CHR ''/'' # Itoa s"

fun item_vals :: "int \<Rightarrow> int \<Rightarrow> cron_item \<Rightarrow> int set" where
  "item_vals mn mx (Value v) = {v}"
| "item_vals mn mx (Range a b) = {a..b}"
| "item_vals mn mx (ValueStep v s) = {u. v \<le> u \<and> u \<le> mx \<and> s dvd (u - v)}"
| "item_vals mn mx (StarStep s) = {u. mn \<le> u \<and> u \<le> mx \<and> s dvd (u - mn)}"

fun item_ok :: "int \<Rightarrow> int \<Rightarrow> cron_item \<Rightarrow> bool" where
  "item_ok mn mx (Value v) = (mn \<le> v \<and> v \<le> mx)"
| "item_ok mn mx (Range a b) = (mn \<le> a \<and> a \<le> b \<and> b \<le> mx)"
| "item_ok mn mx (ValueStep v s) = (mn \<le> v \<and> v \<le> mx \<and> 0 < s \<and> mx + s \<le> max_int)"
| "item_ok mn mx (StarStep s) = (0 < s \<and> mx + s \<le> max_int)"

text \<open>The parser takes a field that begins with \<^verbatim>\<open>*/\<close> as one step expression, so a list whose
  first item is such a step is not in the language (\<^verbatim>\<open>*/15,7\<close> is an error).\<close>

fun field_ok :: "int \<Rightarrow> int \<Rightarrow> cron_field \<Rightarrow> bool" where
  "field_ok mn mx Any = True"
| "field_ok mn mx (AnyStep s) = (0 < s \<and> mx + s \<le> max_int)"
| "field_ok mn mx (Items its) =
     (its \<noteq> [] \<and> list_all (item_ok mn mx) its \<and> (\<forall>s. hd its \<noteq> StarStep s))"

fun field_text :: "cron_field \<Rightarrow> string" where
  "field_text Any = ''*''"
| "field_text (AnyStep s) = CHR ''*'' # CHR ''/'' # Itoa s"
| "field_text (Items its) = Join (map item_text its) '',''"

fun field_vals :: "int \<Rightarrow> int \<Rightarrow> cron_field \<Rightarrow> int set" where
  "field_vals mn mx Any = {mn..mx}"
| "field_vals mn mx (AnyStep s) = {u. mn \<le> u \<and> u \<le> mx \<and> s dvd (u - mn)}"
| "field_vals mn mx (Items its) = (\<Union>it \<in> set its. item_vals mn mx it)"

section \<open>Items are parsed as what they denote\<close>

lemma not_digit_simps [simp]:
  "\<not> is_digit (CHR ''-'')" "\<not> is_digit (CHR ''/'')" "\<not> is_digit (CHR '','')"
  "\<not> is_digit (CHR ''*'')"
  by (simp_all add: is_digit_def)

lemma Itoa_free: "0 \<le> v \<Longrightarrow> \<not> is_digit c \<Longrightarrow> c \<notin> set (Itoa v)"
  by (auto dest: Itoa_nonneg_digits)

lemma Itoa_not_star: "0 \<le> v \<Longrightarrow> Itoa v \<noteq> ''*''"
  using Itoa_free [of v "CHR ''*''"] by auto

lemmas Itoa_split = Itoa_free Itoa_not_star Split_single_append Split_single_none Atoi_Itoa

lemma fill_progression:
  "0 < s \<Longrightarrow> lim + s \<le> max_int \<Longrightarrow> 0 \<le> i \<Longrightarrow>
   fill i lim s S = Some (Inr (S \<union> {u. i \<le> u \<and> u \<le> lim \<and> s dvd (u - i)}))"
  by (simp add: fill_def step_loop_progression min_int_def)

lemma parseToken_item:
  assumes "item_ok mn mx it" "0 \<le> mn" "mn \<le> mx" "mx < 2 ^ 61"
  shows "parseToken (item_text it) mn mx S = Some (Inr (S \<union> item_vals mn mx it))"
proof (cases it)
  case (Value v)
  with assms show ?thesis
    by (simp add: parseToken_def Itoa_split min_int_def max_int_def)
next
  case (Range a b)
  with assms show ?thesis
    by (auto simp: parseToken_def Itoa_split min_int_def max_int_def fill_progression)
next
  case (ValueStep v s)
  with assms show ?thesis
    by (simp add: parseToken_def parseStepToken_def Itoa_split min_int_def max_int_def
        fill_progression Let_def)
next
  case (StarStep s)
  with assms have "Split (item_text it) ''/'' = [''*'', Itoa s]"
    using Split_single_append [of "CHR ''/''" "''*''" "Itoa s"] by (simp add: Itoa_split)
  with StarStep assms show ?thesis
    by (simp add: parseToken_def parseStepToken_def Itoa_split min_int_def max_int_def
        fill_progression)
qed

lemma parseTokens_items:
  assumes "list_all (item_ok mn mx) its" "0 \<le> mn" "mn \<le> mx" "mx < 2 ^ 61"
  shows "parseTokens (map item_text its) mn mx S = Some (Inr (S \<union> (\<Union>it \<in> set its. item_vals mn mx it)))"
  using assms(1) by (induction its arbitrary: S) (auto simp: parseToken_item [OF _ assms(2-)])

lemma item_text_no_comma: "item_ok mn mx it \<Longrightarrow> 0 \<le> mn \<Longrightarrow> CHR '','' \<notin> set (item_text it)"
  by (cases it) (auto simp: Itoa_free)

lemma item_text_head:
  assumes "item_ok mn mx it" "0 \<le> mn" "\<forall>s. it \<noteq> StarStep s"
  shows "\<exists>c t. item_text it = c # t \<and> is_digit c"
proof -
  have d: "\<exists>c t. Itoa v @ u = c # t \<and> is_digit c" if "0 \<le> v" for v u
    using that Itoa_nonneg_digits [of v] by (cases "Itoa v") auto
  show ?thesis using assms d [of _ "[]"] d by (cases it) simp_all
qed

lemma Join_head: "as \<noteq> [] \<Longrightarrow> hd as = c # t \<Longrightarrow> \<exists>u. Join as sep = c # u"
  by (cases as; cases "tl as") (auto simp: Join_Cons)

lemma parseSet_field:
  assumes "field_ok mn mx f" "0 \<le> mn" "mn \<le> mx" "mx < 2 ^ 61"
  shows "parseSet (field_text f) mn mx = Some (Inr (field_vals mn mx f))"
proof (cases f)
  case Any
  then show ?thesis using assms
    by (auto simp: parseSet_def HasPrefix_def fill_progression max_int_def)
next
  case (AnyStep s)
  then show ?thesis using assms
    by (simp add: parseSet_def HasPrefix_def fill_progression Itoa_split min_int_def max_int_def)
next
  case (Items its)
  with assms have ok: "its \<noteq> []" "list_all (item_ok mn mx) its" "\<forall>s. hd its \<noteq> StarStep s" by auto
  then have "item_ok mn mx (hd its)" by (auto simp: list_all_iff)
  with ok obtain c t where c: "item_text (hd its) = c # t" "is_digit c"
    using item_text_head assms(2) by blast
  with ok obtain u where u: "Join (map item_text its) '','' = c # u"
    using Join_head [of "map item_text its"] by (fastforce simp: hd_map)
  have "Split (Join (map item_text its) '','') '','' = map item_text its"
    using ok assms(2) by (intro Split_Join_single) (auto simp: list_all_iff item_text_no_comma)
  with Items ok u c(2) show ?thesis
    by (auto simp: parseSet_def HasPrefix_def parseTokens_items [OF _ assms(2-)])
qed

section \<open>Whole expressions\<close>

lemma plain_char_simps [simp]:
  "plain_char (CHR ''-'')" "plain_char (CHR ''/'')" "plain_char (CHR '','')" "plain_char (CHR ''*'')"
  by (simp_all add: plain_char_def)

lemma Itoa_plain: "0 \<le> v \<Longrightarrow> c \<in> set (Itoa v) \<Longrightarrow> plain_char c"
  by (auto dest: Itoa_nonneg_digits is_digit_plain)

lemma item_text_plain: "item_ok mn mx it \<Longrightarrow> 0 \<le> mn \<Longrightarrow> c \<in> set (item_text it) \<Longrightarrow> plain_char c"
  by (cases it) (auto dest: Itoa_plain [rotated])

lemma set_Join: "set (Join as sep) \<subseteq> (\<Union>a \<in> set as. set a) \<union> set sep"
  by (induction as sep rule: Join.induct) auto

lemma field_text_word:
  assumes "field_ok mn mx f" "0 \<le> mn"
  shows "field_text f \<noteq> [] \<and> (\<forall>c \<in> set (field_text f). plain_char c)"
proof (cases f)
  case (Items its)
  with assms have ok: "its \<noteq> []" "list_all (item_ok mn mx) its" by auto
  have "item_text (hd its) \<noteq> []" by (cases "hd its") auto
  then obtain c t where "item_text (hd its) = c # t" by (cases "item_text (hd its)") auto
  then have "field_text f \<noteq> []"
    using Items ok(1) Join_head [of "map item_text its" c t "'',''"] by (auto simp: hd_map)
  moreover have "plain_char c" if "c \<in> set (field_text f)" for c
  proof -
    have "c = CHR '','' \<or> (\<exists>it \<in> set its. c \<in> set (item_text it))"
      using that Items set_Join [of "map item_text its" "'',''"] by auto
    then show ?thesis
      using ok(2) assms(2) item_text_plain by (auto simp: list_all_iff)
  qed
  ultimately show ?thesis by blast
qed (use assms in \<open>auto dest: Itoa_plain [rotated]\<close>)

lemma parseField_InrE:
  assumes "parseField name part mn mx k = Some (Inr a)"
  obtains vals where "parsePart part mn mx = Some (Inr vals)" "k vals = Some (Inr a)"
  using assms by (auto simp: parseField_def split: option.splits sum.splits)

lemma parseField_ok:
  assumes "field_ok mn mx f" "0 \<le> mn" "mn \<le> mx" "mx < 2 ^ 61"
  shows "parseField name (field_text f) mn mx k = k (sorted_list_of_set (field_vals mn mx f))"
  by (simp add: parseField_def parsePart_def parseSet_field [OF assms])

text \<open>A parsed expression is well formed when every field is a sorted list of distinct values
  within the field's range.\<close>

definition field_wf :: "int \<Rightarrow> int \<Rightarrow> int list \<Rightarrow> bool" where
  "field_wf mn mx vals \<longleftrightarrow> sorted vals \<and> distinct vals \<and> list_all (\<lambda>v. mn \<le> v \<and> v \<le> mx) vals"

definition cron_wf :: "CronExpr \<Rightarrow> bool" where
  "cron_wf ce \<longleftrightarrow> field_wf 0 59 (Minute ce) \<and> field_wf 0 23 (Hour ce) \<and> field_wf 1 31 (DayOfMonth ce)
     \<and> field_wf 1 12 (Month ce) \<and> field_wf 0 6 (DayOfWeek ce)"

lemma parsePart_wf:
  assumes "parsePart part mn mx = Some (Inr vals)" "length part \<le> 18" "0 \<le> mn" "mn \<le> mx" "mx < 2 ^ 61"
  shows "field_wf mn mx vals"
  using assms parseSet_bounds [OF _ assms(2-)]
  by (auto simp: field_wf_def list_all_iff subset_iff elim!: parsePart_InrE)

lemma ParseCron_InrE:
  assumes "ParseCron expr = Some (Inr ce)"
  obtains "length (Fields expr) = 5"
    "parsePart (Fields expr ! 0) 0 59 = Some (Inr (Minute ce))"
    "parsePart (Fields expr ! 1) 0 23 = Some (Inr (Hour ce))"
    "parsePart (Fields expr ! 2) 1 31 = Some (Inr (DayOfMonth ce))"
    "parsePart (Fields expr ! 3) 1 12 = Some (Inr (Month ce))"
    "parsePart (Fields expr ! 4) 0 6 = Some (Inr (DayOfWeek ce))"
  using assms by (auto simp: ParseCron_def Let_def split: if_splits elim!: parseField_InrE)

lemma ParseCron_sorted:
  assumes "ParseCron expr = Some (Inr ce)"
  shows "sorted (Minute ce) \<and> sorted (Hour ce) \<and> sorted (DayOfMonth ce) \<and> sorted (Month ce)
    \<and> sorted (DayOfWeek ce)"
  using assms by (auto elim!: ParseCron_InrE dest!: parsePart_sorted)

section \<open>Properties of the parser\<close>

text \<open>(C28) Parsing ends for every input string: the counting loops of \<^verbatim>\<open>parsePart\<close> reach their
  bound for every step a token can spell, those that make the counter wrap around included, so
  \<^verbatim>\<open>ParseCron\<close> returns an expression or an error.\<close>

theorem ParseCron_returns: "\<exists>r. ParseCron expr = Some r"
  by (rule ParseCron_total)

text \<open>(C33) A parsed expression whose fields are no longer than 18 characters has in every field
  a strictly ordered list of values within the documented range of that field.\<close>

theorem ParseCron_well_formed:
  assumes "ParseCron expr = Some (Inr ce)" "\<forall>w \<in> set (Fields expr). length w \<le> 18"
  shows "cron_wf ce"
  using assms(1)
proof (rule ParseCron_InrE)
  assume "length (Fields expr) = 5"
  then have "length (Fields expr ! i) \<le> 18" if "i < 5" for i
    using assms(2) that by simp
  moreover assume "parsePart (Fields expr ! 0) 0 59 = Some (Inr (Minute ce))"
    "parsePart (Fields expr ! 1) 0 23 = Some (Inr (Hour ce))"
    "parsePart (Fields expr ! 2) 1 31 = Some (Inr (DayOfMonth ce))"
    "parsePart (Fields expr ! 3) 1 12 = Some (Inr (Month ce))"
    "parsePart (Fields expr ! 4) 0 6 = Some (Inr (DayOfWeek ce))"
  ultimately show ?thesis
    by (simp add: cron_wf_def parsePart_wf)
qed

theorem ParseCron_well_formed_witness:
  "cron_wf \<lparr>Minute = [0], Hour = [0], DayOfMonth = [1], Month = [1], DayOfWeek = [0, 6]\<rparr>"
  by (rule ParseCron_well_formed [of "''0 0 1 1 0,6''"]) code_simp+

text \<open>(C6) Round trip: the text of a well-formed expression (wildcards, steps, values, ranges and
  lists of them in the five fields) is parsed into exactly the sets of values it denotes.\<close>

theorem ParseCron_field_text:
  assumes "field_ok 0 59 m" "field_ok 0 23 h" "field_ok 1 31 d" "field_ok 1 12 mo" "field_ok 0 6 w"
  shows "ParseCron (Join (map field_text [m, h, d, mo, w]) '' '') =
    Some (Inr \<lparr>Minute = sorted_list_of_set (field_vals 0 59 m),
               Hour = sorted_list_of_set (field_vals 0 23 h),
               DayOfMonth = sorted_list_of_set (field_vals 1 31 d),
               Month = sorted_list_of_set (field_vals 1 12 mo),
               DayOfWeek = sorted_list_of_set (field_vals 0 6 w)\<rparr>)"
proof -
  have "Fields (Join (map field_text [m, h, d, mo, w]) '' '') = map field_text [m, h, d, mo, w]"
    using assms by (intro Fields_Join) (auto dest: field_text_word)
  then show ?thesis
    using assms by (simp add: ParseCron_def Let_def parseField_ok)
qed

theorem ParseCron_field_text_witness:
  "ParseCron (Join (map field_text
      [AnyStep 20, Items [Value 0, Range 8 10], Any, Items [ValueStep 10 1], Items [Value 1, StarStep 3]]) '' '')
    = Some (Inr \<lparr>Minute = sorted_list_of_set (field_vals 0 59 (AnyStep 20)),
        Hour = sorted_list_of_set (field_vals 0 23 (Items [Value 0, Range 8 10])),
        DayOfMonth = sorted_list_of_set (field_vals 1 31 Any),
        Month = sorted_list_of_set (field_vals 1 12 (Items [ValueStep 10 1])),
        DayOfWeek = sorted_list_of_set (field_vals 0 6 (Items [Value 1, StarStep 3]))\<rparr>)"
  by (rule ParseCron_field_text) (simp_all add: max_int_def)

text \<open>(C40) A range with a step, such as \<^verbatim>\<open>10-40/5\<close>, is accepted and denotes nothing (only 0 when
  the range starts at 0): the end of the range is bound to a variable of the inner block, and the
  loop runs to the outer variable, which is 0.\<close>

theorem parsePart_range_step:
  assumes "0 \<le> mn" "mn \<le> a" "a \<le> b" "b \<le> mx" "mx < 2 ^ 61" "0 < s" "s \<le> max_int"
  shows "parsePart (Itoa a @ CHR ''-'' # Itoa b @ CHR ''/'' # Itoa s) mn mx
    = Some (Inr (if a = 0 then [0] else []))"
proof -
  let ?base = "Itoa a @ CHR ''-'' # Itoa b"
  let ?tok = "Itoa a @ CHR ''-'' # Itoa b @ CHR ''/'' # Itoa s"
  have ab: "0 \<le> a" "0 \<le> b" "0 \<le> s" "a \<le> max_int" "b \<le> max_int" using assms by (auto simp: max_int_def)
  have split: "Split ?tok ''/'' = [?base, Itoa s]"
    using Split_single_append [of "CHR ''/''" ?base "Itoa s"] ab by (simp add: Itoa_split)
  have star: "?base \<noteq> ''*''" by (cases "Itoa a") auto
  have head: "?tok \<noteq> ''*'' \<and> \<not> HasPrefix ?tok ''*/''"
    using ab(1) Itoa_free [of a "CHR ''*''"] by (cases "Itoa a") (auto simp: HasPrefix_def)
  have "parseStepToken ?tok mn mx {} = fill a 0 s {}"
    using assms ab star by (simp add: parseStepToken_def split Itoa_split min_int_def Let_def)
  moreover have "fill a 0 s {} = Some (Inr (if a = 0 then {0} else {}))"
    using ab assms by (auto simp: fill_progression)
  moreover have "Split ?tok '','' = [?tok]"
    using ab by (intro Split_single_none) (auto simp: Itoa_free)
  moreover have "Contains ?tok ''/''" by simp
  ultimately have "parseSet ?tok mn mx = Some (Inr (if a = 0 then {0} else {}))"
    using head by (simp add: parseSet_def parseToken_def)
  then show ?thesis by (simp add: parsePart_def)
qed

theorem parsePart_range_step_witness: "parsePart ''10-40/5'' 0 59 = Some (Inr [])"
proof -
  have "Itoa 10 @ CHR ''-'' # Itoa 40 @ CHR ''/'' # Itoa 5 = ''10-40/5''" by code_simp
  then show ?thesis using parsePart_range_step [of 0 10 40 59 5] by (simp add: max_int_def)
qed

text \<open>With a step close to the largest integer the counter of the loop wraps around: the
  field \<^verbatim>\<open>*/9223372036854775807\<close> of days 1 to 31 is accepted, and its values are not days.\<close>

lemma parsePart_step_wraps:
  "parsePart ''*/9223372036854775807'' 1 31 = Some (Inr [- 9223372036854775808, - 1, 1])"
  by code_simp

text \<open>The membership test by binary search agrees with membership on the sorted lists the
  parser returns.\<close>

lemma contains_is_membership:
  assumes "parsePart part mn mx = Some (Inr vals)"
  shows "contains vals v \<longleftrightarrow> v \<in> set vals"
  using parsePart_sorted [OF assms] by (simp add: contains_iff)

end
