(* ===== verification/GoTime.thy ===== *)
theory GoTime
  imports GoPrelude
begin

text \<open>
  The part of Go's \<^verbatim>\<open>time\<close> package the program uses: instants in nanoseconds with a location,
  the calendar (the proleptic Gregorian calendar, as Go's), \<^verbatim>\<open>Add\<close>, \<^verbatim>\<open>Truncate\<close>, \<^verbatim>\<open>Date\<close> with its
  normalisation, and \<^verbatim>\<open>AddDate\<close>. An instant is an unbounded integer counted from Go's zero time,
  January 1 of year 1, 00:00 UTC. A location is a fixed offset from UTC in seconds; zones that
  change their offset are not modelled. As in Go, \<^verbatim>\<open>Truncate\<close> works on the instant, not on the
  wall clock.
\<close>

section \<open>Instants and the wall clock\<close>

record gotime =
  instant :: int
  zone :: int

abbreviation second_ns :: int where "second_ns \<equiv> 1000000000"
abbreviation minute_ns :: int where "minute_ns \<equiv> 60000000000"
abbreviation hour_ns :: int where "hour_ns \<equiv> 3600000000000"
abbreviation day_ns :: int where "day_ns \<equiv> 86400000000000"

definition time_Add :: "gotime \<Rightarrow> int \<Rightarrow> gotime" where
  "time_Add t d = t\<lparr>instant := instant t + d\<rparr>"

definition time_Truncate :: "gotime \<Rightarrow> int \<Rightarrow> gotime" where
  "time_Truncate t d = (if d \<le> 0 then t else t\<lparr>instant := instant t - instant t mod d\<rparr>)"

text \<open>The wall clock: nanoseconds from the zero time as the location reads them.\<close>

definition wall :: "gotime \<Rightarrow> int" where
  "wall t = instant t + zone t * second_ns"

definition wall_day :: "gotime \<Rightarrow> int" where
  "wall_day t = wall t div day_ns"

definition time_Hour :: "gotime \<Rightarrow> int" where
  "time_Hour t = wall t mod day_ns div hour_ns"

definition time_Minute :: "gotime \<Rightarrow> int" where
  "time_Minute t = wall t mod hour_ns div minute_ns"

text \<open>January 1 of year 1 is a Monday; Sunday is 0.\<close>

definition time_Weekday :: "gotime \<Rightarrow> int" where
  "time_Weekday t = (wall_day t + 1) mod 7"

section \<open>The calendar\<close>

definition is_leap :: "int \<Rightarrow> bool" where
  "is_leap y \<longleftrightarrow> 4 dvd y \<and> (\<not> 100 dvd y \<or> 400 dvd y)"

text \<open>Days from the zero time to January 1 of a year.\<close>

definition year_start :: "int \<Rightarrow> int" where
  "year_start y = 365 * (y - 1) + (y - 1) div 4 - (y - 1) div 100 + (y - 1) div 400"

text \<open>The year of a day, by the cycles of 400, 100, 4 and 1 years.\<close>

definition year_of_day :: "int \<Rightarrow> int" where
  "year_of_day n =
     (let a = n div 146097; r1 = n mod 146097;
          b = min 3 (r1 div 36524); r2 = r1 - 36524 * b;
          c = r2 div 1461; r3 = r2 - 1461 * c;
          e = min 3 (r3 div 365)
      in 400 * a + 100 * b + 4 * c + e + 1)"

definition days_before :: "bool \<Rightarrow> int \<Rightarrow> int" where
  "days_before leap m =
     (if m \<le> 1 then 0 else if m = 2 then 31
      else (if leap then 1 else 0) +
        (if m = 3 then 59 else if m = 4 then 90 else if m = 5 then 120 else if m = 6 then 151
         else if m = 7 then 181 else if m = 8 then 212 else if m = 9 then 243 else if m = 10 then 273
         else if m = 11 then 304 else if m = 12 then 334 else 365))"

definition month_of_yday :: "bool \<Rightarrow> int \<Rightarrow> int" where
  "month_of_yday leap d =
     (if d < days_before leap 2 then 1 else if d < days_before leap 3 then 2
      else if d < days_before leap 4 then 3 else if d < days_before leap 5 then 4
      else if d < days_before leap 6 then 5 else if d < days_before leap 7 then 6
      else if d < days_before leap 8 then 7 else if d < days_before leap 9 then 8
      else if d < days_before leap 10 then 9 else if d < days_before leap 11 then 10
      else if d < days_before leap 12 then 11 else 12)"

definition month_start :: "int \<Rightarrow> int \<Rightarrow> int" where
  "month_start y m = year_start y + days_before (is_leap y) m"

definition time_Year :: "gotime \<Rightarrow> int" where
  "time_Year t = year_of_day (wall_day t)"

definition time_Month :: "gotime \<Rightarrow> int" where
  "time_Month t = (let y = time_Year t in month_of_yday (is_leap y) (wall_day t - year_start y))"

definition time_Day :: "gotime \<Rightarrow> int" where
  "time_Day t = wall_day t - month_start (time_Year t) (time_Month t) + 1"

text \<open>\<^verbatim>\<open>time.Date\<close> from a month, a day and a wall-clock time within the day, normalising the month
  into 1 to 12.\<close>

definition time_Date :: "int \<Rightarrow> int \<Rightarrow> int \<Rightarrow> int \<Rightarrow> int \<Rightarrow> gotime" where
  "time_Date year month day clock z =
     (let y = year + (month - 1) div 12; m = (month - 1) mod 12 + 1;
          n = month_start y m + (day - 1)
      in \<lparr>instant = n * day_ns + clock - z * second_ns, zone = z\<rparr>)"

definition time_AddDate :: "gotime \<Rightarrow> int \<Rightarrow> int \<Rightarrow> int \<Rightarrow> gotime" where
  "time_AddDate t years months days =
     time_Date (time_Year t + years) (time_Month t + months) (time_Day t + days)
       (wall t mod day_ns) (zone t)"

section \<open>Years and months partition the days\<close>

lemma div_succ:
  fixes z k :: int
  assumes "0 < k"
  shows "(z + 1) div k = z div k + (if k dvd (z + 1) then 1 else 0)"
proof -
  let ?q = "z div k" and ?r = "z mod k"
  have r: "0 \<le> ?r" "?r < k" using assms by simp_all
  have z: "z + 1 = ?q * k + (?r + 1)" by simp
  show ?thesis
  proof (cases "?r + 1 = k")
    case True
    with z have "z + 1 = (?q + 1) * k" by (simp only: distrib_right mult_1)
    with assms show ?thesis by simp
  next
    case False
    with r have r1: "0 \<le> ?r + 1" "?r + 1 < k" by auto
    have "(z + 1) mod k = ?r + 1"
      using r1 by (subst z) (simp only: mod_mult_self3 mod_pos_pos_trivial)
    moreover have "(z + 1) div k = ?q"
      using r1 assms by (subst z) (simp only: div_mult_self3 div_pos_pos_trivial less_irrefl add_0_right not_False_eq_True)
    ultimately show ?thesis using r(1) by (simp add: dvd_eq_mod_eq_0)
  qed
qed

lemma year_start_succ: "year_start (y + 1) = year_start y + 365 + (if is_leap y then 1 else 0)"
proof -
  have d: "400 dvd y \<Longrightarrow> 100 dvd y" "100 dvd y \<Longrightarrow> 4 dvd y" by presburger+
  have s: "y div 4 = (y - 1) div 4 + (if 4 dvd y then 1 else 0)"
    "y div 100 = (y - 1) div 100 + (if 100 dvd y then 1 else 0)"
    "y div 400 = (y - 1) div 400 + (if 400 dvd y then 1 else 0)"
    using div_succ [of 4 "y - 1"] div_succ [of 100 "y - 1"] div_succ [of 400 "y - 1"] by simp_all
  have e: "year_start (y + 1) = year_start y + 365 + (if 4 dvd y then 1 else 0)
      - (if 100 dvd y then 1 else 0) + (if 400 dvd y then 1 else 0)"
    unfolding year_start_def add_diff_cancel_right' s by (simp only: algebra_simps)
  show ?thesis
    unfolding e is_leap_def using d by (cases "4 dvd y"; cases "100 dvd y"; cases "400 dvd y") simp_all
qed

lemma year_start_mono: "y \<le> y' \<Longrightarrow> year_start y \<le> year_start y'"
proof (induction y' rule: int_ge_induct)
  case (step y')
  then show ?case by (simp add: year_start_succ split: if_splits)
qed simp

lemma year_of_day_spec: "year_start (year_of_day n) \<le> n \<and> n < year_start (year_of_day n + 1)"
proof -
  define a where "a = n div 146097"
  define r1 where "r1 = n mod 146097"
  define b where "b = min 3 (r1 div 36524)"
  define r2 where "r2 = r1 - 36524 * b"
  define c where "c = r2 div 1461"
  define r3 where "r3 = r2 - 1461 * c"
  define e where "e = min 3 (r3 div 365)"
  define y where "y = 400 * a + 100 * b + 4 * c + e + 1"
  have n: "n = 146097 * a + r1" by (simp add: a_def r1_def)
  have r1: "0 \<le> r1" "r1 < 146097" by (simp_all add: r1_def)
  have b: "0 \<le> b" "b \<le> 3" "0 \<le> r2" "r2 \<le> 36524" "b < 3 \<Longrightarrow> r2 < 36524"
    using r1 unfolding r2_def b_def by linarith+
  have c: "0 \<le> c" "c \<le> 24" "0 \<le> r3" "r3 \<le> 1460"
    using b unfolding r3_def c_def by linarith+
  have e: "0 \<le> e" "e \<le> 3" "0 \<le> r3 - 365 * e" "r3 - 365 * e \<le> 365" "e < 3 \<Longrightarrow> r3 - 365 * e < 365"
    using c unfolding e_def by linarith+
  have d4: "(y - 1) div 4 = 100 * a + 25 * b + c" unfolding y_def using e by linarith
  have d100: "(y - 1) div 100 = 4 * a + b" unfolding y_def using e c by linarith
  have d400: "(y - 1) div 400 = a" unfolding y_def using e c b by linarith
  have start: "year_start y = n - (r3 - 365 * e)"
    unfolding year_start_def d4 d100 d400 by (simp add: n r3_def r2_def y_def)
  have leap: "is_leap y" if "r3 - 365 * e = 365"
  proof -
    from that e have e3: "e = 3" "r3 = 1460" by linarith+
    then have y4: "y = 4 * (100 * a + 25 * b + c + 1)" by (simp add: y_def)
    show ?thesis
    proof (cases "c = 24")
      case True
      with e3 r3_def b have "b = 3" by linarith
      with True y4 have "y = 400 * (a + 1)" by simp
      then show ?thesis by (simp add: is_leap_def)
    next
      case False
      have "\<not> 100 dvd y"
      proof
        assume "100 dvd y"
        then obtain k where "y = 100 * k" ..
        then have "c + 1 = 25 * (k - 4 * a - b)" using y4 by simp
        then obtain j where "c + 1 = 25 * j" by blast
        with c(1,2) False show False by (cases "j \<le> 0") linarith+
      qed
      then show ?thesis using y4 by (simp add: is_leap_def)
    qed
  qed
  have "n < year_start (y + 1)"
  proof (cases "r3 - 365 * e = 365")
    case True
    with leap start show ?thesis unfolding year_start_succ by simp
  next
    case False
    with e(4) have "r3 - 365 * e < 365" by linarith
    with start show ?thesis unfolding year_start_succ by (cases "is_leap y") simp_all
  qed
  moreover have "year_of_day n = y"
    unfolding year_of_day_def Let_def y_def e_def r3_def c_def r2_def b_def r1_def a_def ..
  moreover have "year_start y \<le> n" using start e(3) by linarith
  ultimately show ?thesis by (simp only: simp_thms)
qed

lemma year_of_day_unique:
  assumes "year_start y \<le> n" "n < year_start (y + 1)"
  shows "year_of_day n = y"
proof (rule ccontr)
  assume "year_of_day n \<noteq> y"
  then consider "year_of_day n + 1 \<le> y" | "y + 1 \<le> year_of_day n" by linarith
  then show False
    using year_of_day_spec [of n] assms
      year_start_mono [of "year_of_day n + 1" y] year_start_mono [of "y + 1" "year_of_day n"]
    by cases linarith+
qed

lemma month_of_yday_spec:
  assumes "0 \<le> d" "d < days_before leap 13"
  shows "1 \<le> month_of_yday leap d \<and> month_of_yday leap d \<le> 12
    \<and> days_before leap (month_of_yday leap d) \<le> d \<and> d < days_before leap (month_of_yday leap d + 1)"
  using assms by (simp add: month_of_yday_def days_before_def)

lemma days_before_mono: "m \<le> m' \<Longrightarrow> days_before leap m \<le> days_before leap m'"
proof (induction m' rule: int_ge_induct)
  case (step m')
  have "days_before leap m' \<le> days_before leap (m' + 1)" by (simp add: days_before_def)
  with step.IH show ?case by linarith
qed simp

lemma month_of_yday_unique:
  assumes "1 \<le> m" "m \<le> 12" "days_before leap m \<le> d" "d < days_before leap (m + 1)"
  shows "month_of_yday leap d = m"
proof (rule ccontr)
  have d: "0 \<le> d" "d < days_before leap 13"
    using assms days_before_mono [of "m + 1" 13 leap] days_before_mono [of 1 m leap]
    by (simp_all add: days_before_def [of leap 1])
  let ?m = "month_of_yday leap d"
  assume "?m \<noteq> m"
  then consider "?m + 1 \<le> m" | "m + 1 \<le> ?m" by linarith
  then show False
    using month_of_yday_spec [OF d] assms(3,4)
      days_before_mono [of "?m + 1" m leap] days_before_mono [of "m + 1" ?m leap]
    by cases linarith+
qed

lemma month_start_13: "month_start y 13 = year_start (y + 1)"
  and month_start_1: "month_start y 1 = year_start y"
  by (simp_all add: month_start_def days_before_def year_start_succ)

lemma wall_day_in_month:
  "1 \<le> time_Month t \<and> time_Month t \<le> 12
   \<and> month_start (time_Year t) (time_Month t) \<le> wall_day t
   \<and> wall_day t < month_start (time_Year t) (time_Month t + 1)"
proof -
  let ?y = "time_Year t" and ?d = "wall_day t - year_start (time_Year t)"
  have "0 \<le> ?d" "?d < days_before (is_leap ?y) 13"
    using year_of_day_spec [of "wall_day t"] month_start_13 [of ?y]
    by (simp_all add: time_Year_def month_start_def)
  from month_of_yday_spec [OF this] show ?thesis
    by (simp add: time_Month_def month_start_def Let_def)
qed

lemma month_unique:
  assumes "1 \<le> m" "m \<le> 12" "month_start y m \<le> wall_day t" "wall_day t < month_start y (m + 1)"
  shows "time_Year t = y \<and> time_Month t = m"
proof -
  have "year_start y \<le> wall_day t"
    using assms(1,3) days_before_mono [of 1 m "is_leap y"] by (simp add: month_start_def days_before_def [of _ 1])
  moreover have "wall_day t < year_start (y + 1)"
    using assms(2,4) days_before_mono [of "m + 1" 13 "is_leap y"] month_start_13 [of y]
    by (simp add: month_start_def)
  ultimately have "time_Year t = y" by (simp add: time_Year_def year_of_day_unique)
  then show ?thesis
    using assms by (simp add: time_Month_def month_start_def Let_def month_of_yday_unique)
qed

lemma time_Day_ge_1: "1 \<le> time_Day t"
  using wall_day_in_month [of t] by (simp add: time_Day_def)

section \<open>Arithmetic of times\<close>

lemma wall_simps [simp]:
  "wall (time_Add t d) = wall t + d" "zone (time_Add t d) = zone t"
  "instant (time_Add t d) = instant t + d" "zone (time_Truncate t d) = zone t"
  "zone (time_AddDate t a b c) = zone t"
  by (simp_all add: wall_def time_Add_def time_Truncate_def time_AddDate_def time_Date_def Let_def)

lemma instant_wall: "instant t = wall t - zone t * second_ns"
  by (simp add: wall_def)

lemma wall_Date:
  "wall (time_Date y m d clock z)
    = (month_start (y + (m - 1) div 12) ((m - 1) mod 12 + 1) + (d - 1)) * day_ns + clock"
  by (simp add: wall_def time_Date_def Let_def)

text \<open>One day later on the calendar is 24 hours later.\<close>

lemma AddDate_day: "wall (time_AddDate t 0 0 1) = wall t + day_ns"
proof -
  have m: "(time_Month t - 1) div 12 = 0" "(time_Month t - 1) mod 12 + 1 = time_Month t"
    using wall_day_in_month [of t] by simp_all
  have "wall (time_AddDate t 0 0 1) = (wall_day t + 1) * day_ns + wall t mod day_ns"
    unfolding time_AddDate_def wall_Date by (simp add: m time_Day_def)
  also have "\<dots> = wall t + day_ns"
    unfolding wall_day_def by (simp add: algebra_simps)
  finally show ?thesis .
qed

text \<open>The first day of the next month, at the same time of day.\<close>

lemma AddDate_month:
  "wall (time_AddDate t 0 1 (- time_Day t + 1))
    = month_start (time_Year t) (time_Month t + 1) * day_ns + wall t mod day_ns"
proof (cases "time_Month t = 12")
  case True
  then show ?thesis
    unfolding time_AddDate_def wall_Date by (simp add: month_start_13 month_start_1)
next
  case False
  then have "time_Month t div 12 = 0" "time_Month t mod 12 + 1 = time_Month t + 1"
    using wall_day_in_month [of t] by simp_all
  then show ?thesis
    unfolding time_AddDate_def wall_Date by simp
qed

lemma time_Minute_range: "0 \<le> time_Minute t" "time_Minute t \<le> 59"
  unfolding time_Minute_def by linarith+

lemma time_Hour_range: "0 \<le> time_Hour t" "time_Hour t \<le> 23"
  unfolding time_Hour_def by linarith+

end
