(* ===== verification/NextRun.thy ===== *)
theory NextRun
  imports CronFields GoTime
begin

text \<open>
  The next run of a cron expression, \<^verbatim>\<open>CalculateNextRun\<close> of
  \<^verbatim>\<open>src/pgk/parser/cron_expression_parser.go\<close>: a search that moves a time forward by months,
  days, hours and minutes, for at most 525600 rounds. The theorems compare it with the abstract
  specification, the least minute after the start at which the expression fires: in UTC the search
  computes it; in a zone an hour or more away from UTC it does not, because \<^verbatim>\<open>Truncate(24 * time.Hour)\<close>
  goes to midnight UTC.
\<close>

section \<open>The search\<close>

text \<open>One round of the loop: \<open>Inl\<close> the time found, \<open>Inr\<close> the time to go on from.\<close>

definition cron_step :: "CronExpr \<Rightarrow> gotime \<Rightarrow> gotime + gotime" where
  "cron_step cronExpr t =
     (if \<not> contains (Month cronExpr) (time_Month t)
      then Inr (time_Truncate (time_AddDate t 0 1 (- time_Day t + 1)) (24 * hour_ns))
      else if \<not> contains (DayOfMonth cronExpr) (time_Day t)
           \<or> \<not> contains (DayOfWeek cronExpr) (time_Weekday t)
      then Inr (time_Truncate (time_AddDate t 0 0 1) (24 * hour_ns))
      else if \<not> contains (Hour cronExpr) (time_Hour t)
      then Inr (time_Add t (hour_ns - time_Minute t * minute_ns))
      else if contains (Minute cronExpr) (time_Minute t) then Inl t
      else Inr (time_Add t minute_ns))"

fun cron_loop :: "nat \<Rightarrow> CronExpr \<Rightarrow> gotime \<Rightarrow> gotime option" where
  "cron_loop 0 cronExpr t = None"
| "cron_loop (Suc n) cronExpr t =
     (case cron_step cronExpr t of Inl r \<Rightarrow> Some r | Inr t' \<Rightarrow> cron_loop n cronExpr t')"

definition CalculateNextRun :: "string \<Rightarrow> gotime \<Rightarrow> gotime option" where
  "CalculateNextRun expr from =
     (case ParseCron expr of
        None \<Rightarrow> None
      | Some (Inl err) \<Rightarrow> Some (time_Add from hour_ns)
      | Some (Inr cronExpr) \<Rightarrow>
          (case cron_loop 525600 cronExpr (time_Truncate (time_Add from minute_ns) minute_ns) of
             Some t \<Rightarrow> Some t
           | None \<Rightarrow> Some (time_Add from hour_ns)))"

lemma cron_loop_numeral:
  "cron_loop (numeral k) ce t =
     (case cron_step ce t of Inl r \<Rightarrow> Some r | Inr t' \<Rightarrow> cron_loop (pred_numeral k) ce t')"
  by (simp add: numeral_eq_Suc)

section \<open>The specification\<close>

text \<open>An expression fires at a minute when each component of the wall clock is in its field.\<close>

definition fires :: "CronExpr \<Rightarrow> gotime \<Rightarrow> bool" where
  "fires ce t \<longleftrightarrow> instant t mod minute_ns = 0 \<and> time_Month t \<in> set (Month ce)
     \<and> time_Day t \<in> set (DayOfMonth ce) \<and> time_Weekday t \<in> set (DayOfWeek ce)
     \<and> time_Hour t \<in> set (Hour ce) \<and> time_Minute t \<in> set (Minute ce)"

definition fields_sorted :: "CronExpr \<Rightarrow> bool" where
  "fields_sorted ce \<longleftrightarrow> sorted (Minute ce) \<and> sorted (Hour ce) \<and> sorted (DayOfMonth ce)
     \<and> sorted (Month ce) \<and> sorted (DayOfWeek ce)"

lemma ParseCron_fields_sorted: "ParseCron expr = Some (Inr ce) \<Longrightarrow> fields_sorted ce"
  by (drule ParseCron_sorted) (simp add: fields_sorted_def)

section \<open>Every round moves forward\<close>

lemma Truncate_gt: "0 < d \<Longrightarrow> instant t + d \<le> instant u \<Longrightarrow> instant t < instant (time_Truncate u d)"
proof -
  assume d: "0 < d" "instant t + d \<le> instant u"
  have "instant u mod d < d" using d(1) by simp
  with d(2) have "instant t < instant u - instant u mod d" by linarith
  with d(1) show ?thesis by (simp add: time_Truncate_def)
qed

lemma AddDate_month_later: "instant t + day_ns \<le> instant (time_AddDate t 0 1 (- time_Day t + 1))"
proof -
  have "wall_day t + 1 \<le> month_start (time_Year t) (time_Month t + 1)"
    using wall_day_in_month [of t] by linarith
  then have "(wall_day t + 1) * day_ns + wall t mod day_ns \<le> wall (time_AddDate t 0 1 (- time_Day t + 1))"
    unfolding AddDate_month by (intro add_right_mono mult_right_mono) simp_all
  moreover have "(wall_day t + 1) * day_ns + wall t mod day_ns = wall t + day_ns"
    unfolding wall_day_def by (simp add: algebra_simps)
  ultimately show ?thesis by (simp add: instant_wall)
qed

lemma AddDate_day_later: "instant (time_AddDate t 0 0 1) = instant t + day_ns"
  using AddDate_day [of t] by (simp add: instant_wall)

lemma cron_step_forward:
  assumes "cron_step ce t = Inr t'" shows "instant t < instant t' \<and> zone t' = zone t"
proof -
  have "instant t < instant (time_Add t (hour_ns - time_Minute t * minute_ns))"
    using time_Minute_range [of t] by simp
  with assms Truncate_gt [of day_ns t "time_AddDate t 0 0 1"] AddDate_day_later [of t]
    Truncate_gt [of day_ns t "time_AddDate t 0 1 (- time_Day t + 1)"] AddDate_month_later [of t]
  show ?thesis by (auto simp: cron_step_def split: if_splits)
qed

lemma cron_loop_later: "cron_loop n ce t = Some r \<Longrightarrow> instant t \<le> instant r \<and> zone r = zone t"
proof (induction n arbitrary: t)
  case (Suc n)
  show ?case
  proof (cases "cron_step ce t")
    case (Inl r')
    with Suc.prems show ?thesis by (auto simp: cron_step_def split: if_splits)
  next
    case (Inr t')
    with Suc.prems Suc.IH [of t'] cron_step_forward [OF Inr] show ?thesis by auto
  qed
qed simp

lemma start_later:
  "instant from < instant (time_Truncate (time_Add from minute_ns) minute_ns)"
  by (intro Truncate_gt) simp_all

section \<open>In UTC no round skips a match\<close>

lemma same_day:
  assumes "wall_day u = wall_day t"
  shows "time_Month u = time_Month t \<and> time_Day u = time_Day t \<and> time_Weekday u = time_Weekday t"
  using assms by (simp add: time_Day_def time_Weekday_def time_Month_def time_Year_def)

lemma same_month:
  assumes "wall_day t \<le> wall_day u" "wall_day u < month_start (time_Year t) (time_Month t + 1)"
  shows "time_Month u = time_Month t"
  using month_unique [of "time_Month t" "time_Year t" u] wall_day_in_month [of t] assms by simp

lemma wall_utc: "zone t = 0 \<Longrightarrow> wall t = instant t"
  by (simp add: wall_def)


lemma Truncate_instant: "0 < d \<Longrightarrow> instant (time_Truncate t d) = instant t div d * d"
  by (simp add: time_Truncate_def minus_mod_eq_div_mult)

lemma month_skip_utc:
  assumes "zone t = 0"
  shows "instant (time_Truncate (time_AddDate t 0 1 (1 - time_Day t)) day_ns)
    = month_start (time_Year t) (time_Month t + 1) * day_ns"
proof -
  have "instant (time_AddDate t 0 1 (1 - time_Day t))
      = month_start (time_Year t) (time_Month t + 1) * day_ns + wall t mod day_ns"
    using AddDate_month [of t] assms by (simp add: instant_wall)
  moreover have "0 \<le> wall t mod day_ns" "wall t mod day_ns < day_ns" by simp_all
  ultimately show ?thesis by (simp add: Truncate_instant)
qed

lemma day_skip_utc:
  assumes "zone t = 0"
  shows "instant (time_Truncate (time_AddDate t 0 0 1) day_ns) = (wall_day t + 1) * day_ns"
  using assms div_add_self2 [of day_ns "instant t"]
  by (simp add: Truncate_instant AddDate_day_later wall_day_def wall_utc)

lemma hour_skip_utc:
  assumes "zone t = 0" "instant t mod minute_ns = 0"
  shows "instant (time_Add t (hour_ns - time_Minute t * minute_ns)) = (instant t div hour_ns + 1) * hour_ns"
proof -
  have "instant t mod hour_ns mod minute_ns = 0"
    using assms(2) by (simp add: mod_mod_cancel)
  then have "instant t mod hour_ns = instant t mod hour_ns div minute_ns * minute_ns"
    by (metis add.right_neutral div_mult_mod_eq)
  then have "time_Minute t * minute_ns = instant t mod hour_ns"
    using assms(1) by (simp add: time_Minute_def wall_utc)
  then show ?thesis
    by (simp add: algebra_simps minus_mod_eq_mult_div [symmetric])
qed

lemma same_hour:
  assumes "zone t = 0" "zone u = 0" "instant u div hour_ns = instant t div hour_ns"
  shows "wall_day u = wall_day t \<and> time_Hour u = time_Hour t"
proof -
  have day: "x div day_ns = x div hour_ns div 24" for x :: int
    by (simp add: zdiv_zmult2_eq [symmetric])
  have "x mod day_ns div hour_ns = x div hour_ns mod 24" for x :: int
    using zmod_zmult2_eq [of 24 x hour_ns] by simp
  with day assms show ?thesis by (simp add: wall_day_def time_Hour_def wall_utc)
qed

lemma cron_step_utc:
  assumes "fields_sorted ce" "zone t = 0" "instant t mod minute_ns = 0" "cron_step ce t = Inr t'"
    and "zone u = 0" "instant t \<le> instant u" "instant u < instant t'"
  shows "\<not> fires ce u"
proof -
  have srt: "sorted (Month ce)" "sorted (DayOfMonth ce)" "sorted (DayOfWeek ce)" "sorted (Hour ce)"
      "sorted (Minute ce)" using assms(1) by (auto simp: fields_sorted_def)
  have day: "wall_day t \<le> wall_day u"
    using assms(2,5,6) by (simp add: wall_day_def wall_utc zdiv_mono1)
  consider (month) "\<not> contains (Month ce) (time_Month t)"
      "t' = time_Truncate (time_AddDate t 0 1 (- time_Day t + 1)) day_ns"
    | (day) "\<not> contains (DayOfMonth ce) (time_Day t) \<or> \<not> contains (DayOfWeek ce) (time_Weekday t)"
      "t' = time_Truncate (time_AddDate t 0 0 1) day_ns"
    | (hour) "\<not> contains (Hour ce) (time_Hour t)" "t' = time_Add t (hour_ns - time_Minute t * minute_ns)"
    | (minute) "\<not> contains (Minute ce) (time_Minute t)" "t' = time_Add t minute_ns"
    using assms(4) by (auto simp: cron_step_def split: if_splits)
  then show ?thesis
  proof cases
    case month
    then have "wall_day u < month_start (time_Year t) (time_Month t + 1)"
      using assms(2,5,7) by (simp add: month_skip_utc wall_day_def wall_utc div_less_mult)
    with day have "time_Month u = time_Month t" by (rule same_month)
    with month(1) srt show ?thesis by (simp add: fires_def contains_iff)
  next
    case day
    then have "wall_day u = wall_day t"
      using assms(2,5-7) by (simp add: day_skip_utc) (simp add: wall_day_def wall_utc div_eq_between)
    with day(1) srt same_day [of u t] show ?thesis by (auto simp: fires_def contains_iff)
  next
    case hour
    then have "instant u div hour_ns = instant t div hour_ns"
      using assms(6,7) hour_skip_utc [OF assms(2,3)] by (intro div_eq_between) simp_all
    with same_hour [OF assms(2,5)] hour(1) srt show ?thesis by (auto simp: fires_def contains_iff)
  next
    case minute
    have "u = t" if "instant u mod minute_ns = 0"
    proof -
      have "instant u div minute_ns = instant t div minute_ns"
        using assms(6,7) minute(2) assms(3)
        by (intro div_eq_between) (simp_all add: distrib_right minus_mod_eq_div_mult [symmetric])
      then have "instant u = instant t" using that assms(3) by (metis div_mult_mod_eq)
      with assms(2,5) show ?thesis by simp
    qed
    with minute(1) srt show ?thesis by (auto simp: fires_def contains_iff)
  qed
qed

lemma cron_step_aligned:
  assumes "zone t = 0" "instant t mod minute_ns = 0" "cron_step ce t = Inr t'"
  shows "instant t' mod minute_ns = 0"
  using assms by (auto simp: cron_step_def month_skip_utc day_skip_utc hour_skip_utc mod_mult_right_eq split: if_splits)

text \<open>A result of the search is a minute that fires, and no earlier one from the start does; a
  match within as many minutes as there are rounds is found.\<close>

lemma cron_step_found:
  assumes "fields_sorted ce" "instant t mod minute_ns = 0" "cron_step ce t = Inl r"
  shows "r = t \<and> fires ce t"
  using assms by (auto simp: cron_step_def fires_def fields_sorted_def contains_iff split: if_splits)

lemma cron_loop_least:
  assumes "fields_sorted ce" "zone t = 0" "instant t mod minute_ns = 0" "cron_loop n ce t = Some r"
  shows "fires ce r \<and> (\<forall>u. zone u = 0 \<and> instant t \<le> instant u \<and> fires ce u \<longrightarrow> instant r \<le> instant u)"
  using assms(2-)
proof (induction n arbitrary: t)
  case (Suc n)
  show ?case
  proof (cases "cron_step ce t")
    case (Inl r')
    with Suc.prems cron_step_found [OF assms(1) Suc.prems(2) Inl] show ?thesis by auto
  next
    case (Inr t')
    have t': "zone t' = 0" "instant t' mod minute_ns = 0" "cron_loop n ce t' = Some r"
      using Suc.prems cron_step_forward [OF Inr] cron_step_aligned [OF Suc.prems(1,2) Inr] Inr by auto
    have "instant t' \<le> instant u" if "zone u = 0" "instant t \<le> instant u" "fires ce u" for u
      using cron_step_utc [OF assms(1) Suc.prems(1,2) Inr that(1,2)] that(3) by force
    with Suc.IH [OF t'] show ?thesis by blast
  qed
qed simp

lemma aligned_forward:
  fixes a b :: int
  assumes "a < b" "a mod minute_ns = 0" "b mod minute_ns = 0"
  shows "a + minute_ns \<le> b"
  using assms by (elim dvdE [OF mod_0_imp_dvd]) auto

lemma cron_loop_finds:
  assumes "fields_sorted ce" "zone t = 0" "instant t mod minute_ns = 0"
    and "zone u = 0" "fires ce u" "instant t \<le> instant u" "instant u < instant t + int n * minute_ns"
  shows "\<exists>r. cron_loop n ce t = Some r"
  using assms(2,3,6,7)
proof (induction n arbitrary: t)
  case (Suc n)
  show ?case
  proof (cases "cron_step ce t")
    case (Inr t')
    have t': "zone t' = 0" "instant t' mod minute_ns = 0" "instant t + minute_ns \<le> instant t'"
      using Suc.prems(1,2) cron_step_forward [OF Inr] cron_step_aligned [OF Suc.prems(1,2) Inr]
      by (auto intro: aligned_forward)
    have "instant t' \<le> instant u"
      using cron_step_utc [OF assms(1) Suc.prems(1,2) Inr assms(4) Suc.prems(3)] assms(5) by force
    moreover have "instant u < instant t' + int n * minute_ns"
      using Suc.prems(4) t'(3) by (simp add: algebra_simps)
    ultimately show ?thesis using Suc.IH [OF t'(1,2)] Inr by simp
  qed simp
qed simp

text \<open>The search starts at the first whole minute after the given time.\<close>

lemma start_aligned:
  "instant (time_Truncate (time_Add from minute_ns) minute_ns) mod minute_ns = 0"
  by (simp add: Truncate_instant)

lemma start_first_minute:
  assumes "instant u mod minute_ns = 0" "instant from < instant u"
  shows "instant (time_Truncate (time_Add from minute_ns) minute_ns) \<le> instant u"
proof -
  let ?f = "instant from"
  have "instant u = instant u div minute_ns * minute_ns"
    using assms(1) by (metis add.right_neutral div_mult_mod_eq)
  moreover from this have "?f div minute_ns < instant u div minute_ns"
    using assms(2) by (intro div_less_mult) simp_all
  then have "(?f div minute_ns + 1) * minute_ns \<le> instant u div minute_ns * minute_ns"
    by (intro mult_right_mono) simp_all
  ultimately show ?thesis
    using div_add_self2 [of minute_ns ?f] by (simp add: Truncate_instant)
qed

section \<open>A match at any distance is found\<close>

text \<open>A day that does not match costs one round, so the 525600 rounds reach much further than a
  year of minutes: at most the minutes of the first and of the last day are tried one by one.\<close>

lemma cron_loop_mono: "cron_loop n ce t = Some r \<Longrightarrow> n \<le> m \<Longrightarrow> cron_loop m ce t = Some r"
proof (induction n arbitrary: m t)
  case (Suc n)
  then obtain k where m: "m = Suc k" "n \<le> k" by (cases m) auto
  with Suc show ?case by (cases "cron_step ce t") auto
qed simp

text \<open>The time of day of a match fires on every day whose date matches.\<close>

definition at_day :: "int \<Rightarrow> gotime \<Rightarrow> gotime" where
  "at_day d u = \<lparr>instant = d * day_ns + instant u mod day_ns, zone = 0\<rparr>"

lemma at_day_simps:
  assumes "zone u = 0"
  shows "wall_day (at_day d u) = d" "time_Hour (at_day d u) = time_Hour u"
    "time_Minute (at_day d u) = time_Minute u" "zone (at_day d u) = 0"
    "instant u mod minute_ns = 0 \<Longrightarrow> instant (at_day d u) mod minute_ns = 0"
proof -
  have m: "(d * day_ns + x) mod hour_ns = x mod hour_ns" "(d * day_ns + x) mod minute_ns = x mod minute_ns"
    for x :: int
    using mod_mult_self3 [of "d * 24" hour_ns x] mod_mult_self3 [of "d * 1440" minute_ns x]
    by (simp_all add: mult.commute [of d])
  have c: "instant u mod day_ns mod hour_ns = instant u mod hour_ns"
    "instant u mod day_ns mod minute_ns = instant u mod minute_ns"
    by (simp_all add: mod_mod_cancel)
  have b: "0 \<le> instant u mod day_ns" "instant u mod day_ns < day_ns" by simp_all
  show "wall_day (at_day d u) = d" using b by (simp add: wall_day_def wall_def at_day_def)
  show "time_Hour (at_day d u) = time_Hour u"
    using assms by (simp add: time_Hour_def wall_def at_day_def)
  show "time_Minute (at_day d u) = time_Minute u"
    using assms by (simp add: time_Minute_def wall_def at_day_def m c)
  show "zone (at_day d u) = 0" by (simp add: at_day_def)
  show "instant u mod minute_ns = 0 \<Longrightarrow> instant (at_day d u) mod minute_ns = 0"
    using m(2) [of "instant u mod day_ns"] by (simp add: at_day_def c)
qed

definition date_matches :: "CronExpr \<Rightarrow> gotime \<Rightarrow> bool" where
  "date_matches ce t \<longleftrightarrow> time_Month t \<in> set (Month ce) \<and> time_Day t \<in> set (DayOfMonth ce)
     \<and> time_Weekday t \<in> set (DayOfWeek ce)"

lemma fires_at_day:
  assumes "fires ce u" "zone u = 0" "date_matches ce t"
  shows "fires ce (at_day (wall_day t) u)"
  using assms same_day [of "at_day (wall_day t) u" t]
  by (simp add: fires_def date_matches_def at_day_simps)

lemma date_skip:
  assumes "fields_sorted ce" "zone t = 0" "\<not> date_matches ce t"
  obtains t' where "cron_step ce t = Inr t'" "instant t' mod day_ns = 0"
proof (cases "contains (Month ce) (time_Month t)")
  case False
  then have "cron_step ce t = Inr (time_Truncate (time_AddDate t 0 1 (1 - time_Day t)) day_ns)"
    by (simp add: cron_step_def)
  with that show ?thesis by (simp add: month_skip_utc assms(2))
next
  case True
  with assms(1,3) have "cron_step ce t = Inr (time_Truncate (time_AddDate t 0 0 1) day_ns)"
    by (auto simp: cron_step_def date_matches_def fields_sorted_def contains_iff)
  with that show ?thesis by (simp add: day_skip_utc assms(2))
qed

lemma wall_day_forward: "zone t = 0 \<Longrightarrow> zone u = 0 \<Longrightarrow> instant t \<le> instant u \<Longrightarrow> wall_day t \<le> wall_day u"
  by (simp add: wall_day_def wall_utc zdiv_mono1)

lemma same_day_close:
  assumes "zone t = 0" "zone u = 0" "wall_day u = wall_day t"
  shows "instant u < instant t + int 1440 * minute_ns"
  using assms div_mult_mod_eq [of "instant u" day_ns] div_mult_mod_eq [of "instant t" day_ns]
    pos_mod_bound [of day_ns "instant u"] pos_mod_sign [of day_ns "instant t"]
  unfolding wall_day_def by (simp only: wall_utc)

lemma cron_loop_from_midnight:
  assumes "fields_sorted ce" "zone u = 0" "fires ce u"
    and "zone t = 0" "instant t mod day_ns = 0" "instant t \<le> instant u"
    and "\<forall>v. zone v = 0 \<and> fires ce v \<and> instant t \<le> instant v \<longrightarrow> instant u \<le> instant v"
  shows "\<exists>r. cron_loop (1440 + nat (wall_day u - wall_day t)) ce t = Some r"
  using assms(4-)
proof (induction "nat (wall_day u - wall_day t)" arbitrary: t rule: less_induct)
  case less
  have al: "instant t mod minute_ns = 0"
    using less.prems(2) mod_mod_cancel [of minute_ns day_ns "instant t"] by simp
  show ?case
  proof (cases "wall_day u = wall_day t")
    case True
    then show ?thesis
      using cron_loop_finds [OF assms(1) less.prems(1) al assms(2,3) less.prems(3)]
        same_day_close [OF less.prems(1) assms(2) True] by simp
  next
    case False
    have le: "wall_day t < wall_day u"
      using False wall_day_forward [OF less.prems(1) assms(2) less.prems(3)] by simp
    have "\<not> date_matches ce t"
    proof
      assume "date_matches ce t"
      then have f: "fires ce (at_day (wall_day t) u)" using fires_at_day assms(2,3) by blast
      have "instant t = wall_day t * day_ns"
        using less.prems(1,2) by (metis add.right_neutral div_mult_mod_eq wall_day_def wall_utc)
      then have "instant t \<le> instant (at_day (wall_day t) u)" by (simp add: at_day_def)
      then have "instant u \<le> instant (at_day (wall_day t) u)"
        using less.prems(4) f assms(2) by (simp add: at_day_simps)
      then have "wall_day u \<le> wall_day t"
        using wall_day_forward [of u "at_day (wall_day t) u"] assms(2) by (simp add: at_day_simps)
      with le show False by simp
    qed
    then obtain t' where t': "cron_step ce t = Inr t'" "instant t' mod day_ns = 0"
      using date_skip [OF assms(1) less.prems(1)] by blast
    have fw: "instant t < instant t'" "zone t' = 0" using cron_step_forward [OF t'(1)] less.prems(1) by auto
    have tu: "instant t' \<le> instant u"
      using cron_step_utc [OF assms(1) less.prems(1) al t'(1) assms(2) less.prems(3)] assms(3) by force
    have later: "wall_day t < wall_day t'"
      using fw less.prems(1,2) t'(2) by (simp add: wall_day_def wall_utc zdiv_mono_strict)
    have "\<exists>r. cron_loop (1440 + nat (wall_day u - wall_day t')) ce t' = Some r"
      using less.prems(4) fw le later by (intro less.hyps [OF _ fw(2) t'(2) tu]) auto
    then obtain r where "cron_loop (1440 + nat (wall_day u - wall_day t')) ce t' = Some r" by blast
    then have "cron_loop (1439 + nat (wall_day u - wall_day t)) ce t' = Some r"
      by (rule cron_loop_mono) (use later le in linarith)
    moreover have "1440 + nat (wall_day u - wall_day t) = Suc (1439 + nat (wall_day u - wall_day t))" by simp
    ultimately have "cron_loop (1440 + nat (wall_day u - wall_day t)) ce t = Some r"
      using t'(1) by (simp only: cron_loop.simps sum.case)
    then show ?thesis ..
  qed
qed

text \<open>From any minute, the rest of its day is left within 1440 rounds, at a midnight.\<close>

lemma before_midnight: "zone t = 0 \<Longrightarrow> instant t < (wall_day t + 1) * day_ns"
  using div_mult_mod_eq [of "instant t" day_ns] pos_mod_bound [of day_ns "instant t"]
  by (simp add: wall_day_def wall_utc distrib_right)

lemma step_within_day:
  assumes "zone t = 0" "instant t mod minute_ns = 0" "cron_step ce t = Inr t'" "wall_day t \<noteq> wall_day t'"
  shows "instant t' mod day_ns = 0"
proof -
  have z: "zone t' = 0" and fw: "instant t < instant t'" using cron_step_forward [OF assms(3)] assms(1) by auto
  have later: "(wall_day t + 1) * day_ns \<le> instant t'"
  proof -
    have "wall_day t + 1 \<le> instant t' div day_ns"
      using assms(1,4) z fw wall_day_forward [of t t'] by (simp add: wall_day_def wall_utc)
    then have "(wall_day t + 1) * day_ns \<le> instant t' div day_ns * day_ns" by (intro mult_right_mono) auto
    then show ?thesis using div_mult_mod_eq [of "instant t'" day_ns] pos_mod_sign [of day_ns "instant t'"]
      by linarith
  qed
  have end_day: "instant t < (wall_day t + 1) * day_ns" using assms(1) by (rule before_midnight)
  have small: "instant t' = (wall_day t + 1) * day_ns"
    if k: "(0::int) < k" "instant t' = (instant t div k + 1) * k" "day_ns = j * k" for k j
  proof -
    have "instant t < (wall_day t + 1) * j * k" using end_day k(3) by (simp add: mult.assoc)
    then have "instant t div k + 1 \<le> (wall_day t + 1) * j" using div_less_mult [OF k(1)] by force
    then have "instant t' \<le> (wall_day t + 1) * j * k" using k(1,2) by (simp add: mult_right_mono)
    with later k(3) show ?thesis by (simp add: mult.assoc)
  qed
  show ?thesis
  proof (cases "instant t' mod day_ns = 0")
    case False
    then consider "t' = time_Add t (hour_ns - time_Minute t * minute_ns)" | "t' = time_Add t minute_ns"
      using assms(1,3) by (auto simp: cron_step_def month_skip_utc day_skip_utc split: if_splits)
    then show ?thesis
    proof cases
      case 1
      then have "instant t' = (wall_day t + 1) * day_ns"
        using hour_skip_utc [OF assms(1,2)] by (intro small [of hour_ns 24]) simp_all
      then show ?thesis by simp
    next
      case 2
      have "instant t = instant t div minute_ns * minute_ns"
        using assms(2) by (metis add.right_neutral div_mult_mod_eq)
      with 2 have "instant t' = (wall_day t + 1) * day_ns"
        by (intro small [of minute_ns 1440]) (simp_all add: distrib_right)
      then show ?thesis by simp
    qed
  qed
qed

definition minutes_left :: "gotime \<Rightarrow> nat" where
  "minutes_left t = nat (((wall_day t + 1) * day_ns - instant t) div minute_ns)"

lemma minutes_left_le: "zone t = 0 \<Longrightarrow> minutes_left t \<le> 1440"
proof -
  assume "zone t = 0"
  then have "wall_day t * day_ns \<le> instant t"
    using div_mult_mod_eq [of "instant t" day_ns] pos_mod_sign [of day_ns "instant t"]
    by (simp add: wall_day_def wall_utc)
  then have "((wall_day t + 1) * day_ns - instant t) div minute_ns \<le> day_ns div minute_ns"
    by (intro zdiv_mono1) (simp_all add: distrib_right)
  then show ?thesis by (simp add: minutes_left_def)
qed

lemma minutes_left_less:
  assumes "zone t' = 0" "wall_day t = wall_day t'" "instant t + minute_ns \<le> instant t'"
  shows "minutes_left t' < minutes_left t"
proof -
  let ?m = "(wall_day t + 1) * day_ns"
  have "(?m - instant t - minute_ns) div minute_ns = (?m - instant t) div minute_ns - 1"
    using div_add_self2 [of minute_ns "?m - instant t - minute_ns"] by simp
  then show ?thesis
    using assms before_midnight [OF assms(1)] zdiv_mono1 [of "?m - instant t'" "?m - instant t - minute_ns" minute_ns]
      zdiv_mono1 [of 0 "?m - instant t'" minute_ns]
    by (simp add: minutes_left_def)
qed

text \<open>The search reaches \<open>t'\<close> from \<open>t\<close> in \<open>k\<close> rounds without passing over a match.\<close>

definition reaches :: "CronExpr \<Rightarrow> nat \<Rightarrow> gotime \<Rightarrow> gotime \<Rightarrow> bool" where
  "reaches ce k t t' \<longleftrightarrow> zone t' = 0 \<and> instant t \<le> instant t'
     \<and> (\<forall>n. cron_loop (k + n) ce t = cron_loop n ce t')
     \<and> (\<forall>u. zone u = 0 \<and> instant t \<le> instant u \<and> instant u < instant t' \<longrightarrow> \<not> fires ce u)"

lemma reaches_step:
  assumes "fields_sorted ce" "zone t = 0" "instant t mod minute_ns = 0" "cron_step ce t = Inr t'"
  shows "reaches ce (Suc 0) t t'"
  using cron_step_forward [OF assms(4)] cron_step_utc [OF assms] assms by (auto simp: reaches_def)

lemma reaches_trans:
  assumes "reaches ce k t t'" "reaches ce m t' v" shows "reaches ce (k + m) t v"
  using assms by (auto simp: reaches_def add.assoc) (meson not_less)

definition leaves_day :: "CronExpr \<Rightarrow> nat \<Rightarrow> gotime \<Rightarrow> bool" where
  "leaves_day ce k t \<longleftrightarrow> (\<exists>r. cron_loop k ce t = Some r)
     \<or> (\<exists>t'. reaches ce k t t' \<and> instant t' mod day_ns = 0)"

lemma leaves_day_step:
  assumes "cron_step ce t = Inr t'" "reaches ce (Suc 0) t t'" "leaves_day ce k t'"
  shows "leaves_day ce (Suc k) t"
  using assms reaches_trans [OF assms(2), of k] by (auto simp: leaves_day_def mod_eq_0_iff_dvd)

lemma cron_loop_leaves_day:
  assumes "fields_sorted ce" "zone t = 0" "instant t mod minute_ns = 0"
  shows "\<exists>k \<le> Suc (minutes_left t). leaves_day ce k t"
  using assms(2,3)
proof (induction "minutes_left t" arbitrary: t rule: less_induct)
  case less
  show ?case
  proof (cases "cron_step ce t")
    case (Inl r)
    then have "leaves_day ce (Suc 0) t" by (simp add: leaves_day_def)
    then show ?thesis by (intro exI [of _ "Suc 0"]) auto
  next
    case (Inr t')
    have t': "zone t' = 0" "instant t < instant t'" "instant t' mod minute_ns = 0"
      using cron_step_forward [OF Inr] cron_step_aligned [OF less.prems Inr] less.prems by auto
    have one: "reaches ce (Suc 0) t t'" by (rule reaches_step [OF assms(1) less.prems Inr])
    show ?thesis
    proof (cases "wall_day t = wall_day t'")
      case True
      have m: "minutes_left t' < minutes_left t"
        by (rule minutes_left_less [OF t'(1) True aligned_forward [OF t'(2) less.prems(2) t'(3)]])
      from less.hyps [OF m t'(1,3)] obtain k where "k \<le> Suc (minutes_left t')" "leaves_day ce k t'" by blast
      with m leaves_day_step [OF Inr one] show ?thesis by (intro exI [of _ "Suc k"]) auto
    next
      case False
      then show ?thesis
        using step_within_day [OF less.prems Inr] one
        by (intro exI [of _ "Suc 0"]) (auto simp: leaves_day_def)
    qed
  qed
qed

lemma cron_loop_finds_any:
  assumes "fields_sorted ce" "zone t = 0" "instant t mod minute_ns = 0"
    and "zone u = 0" "fires ce u" "instant t \<le> instant u"
    and least: "\<forall>v. zone v = 0 \<and> fires ce v \<and> instant t \<le> instant v \<longrightarrow> instant u \<le> instant v"
    and "wall_day u - wall_day t \<le> 522000"
  shows "\<exists>r. cron_loop 525600 ce t = Some r"
proof -
  obtain k where k: "k \<le> Suc (minutes_left t)" "leaves_day ce k t"
    using cron_loop_leaves_day [OF assms(1-3)] by blast
  have k1441: "k \<le> 1441" using k(1) minutes_left_le [OF assms(2)] by simp
  from k(2) show ?thesis
    unfolding leaves_day_def
  proof
    assume "\<exists>r. cron_loop k ce t = Some r"
    then obtain r where "cron_loop k ce t = Some r" ..
    then have "cron_loop 525600 ce t = Some r" by (rule cron_loop_mono) (use k1441 in simp)
    then show ?thesis ..
  next
    assume "\<exists>t'. reaches ce k t t' \<and> instant t' mod day_ns = 0"
    then obtain t' where t': "zone t' = 0" "instant t \<le> instant t'" "instant t' mod day_ns = 0"
        "\<And>n. cron_loop (k + n) ce t = cron_loop n ce t'" "instant t' \<le> instant u"
      using assms(4-6) unfolding reaches_def by (metis not_less)
    let ?n = "1440 + nat (wall_day u - wall_day t')"
    obtain r where "cron_loop ?n ce t' = Some r"
      using cron_loop_from_midnight [OF assms(1,4,5) t'(1,3,5)] least t'(2) by (meson order_trans)
    then have "cron_loop (k + ?n) ce t = Some r" by (simp add: t'(4))
    moreover have "k + ?n \<le> 525600"
      using k1441 wall_day_forward [OF assms(2) t'(1,2)] assms(8) by linarith
    ultimately have "cron_loop 525600 ce t = Some r" by (rule cron_loop_mono)
    then show ?thesis ..
  qed
qed

section \<open>The calendar repeats\<close>

text \<open>The Gregorian calendar has a period of 400 years, 146097 days, which is a whole number of
  weeks; an expression that fires once fires again within every such period.\<close>

abbreviation period_ns :: int where "period_ns \<equiv> 146097 * day_ns"

lemma year_start_period: "year_start (y + 400 * k) = year_start y + 146097 * k"
proof -
  have "(y + 400 * k - 1) div 4 = (y - 1) div 4 + 100 * k" "(y + 400 * k - 1) div 100 = (y - 1) div 100 + 4 * k"
    "(y + 400 * k - 1) div 400 = (y - 1) div 400 + k"
    by linarith+
  then show ?thesis by (simp add: year_start_def)
qed

lemma is_leap_period: "is_leap (y + 400 * k) = is_leap y"
proof -
  have "4 dvd (y + 400 * k) \<longleftrightarrow> 4 dvd y" "100 dvd (y + 400 * k) \<longleftrightarrow> 100 dvd y"
    "400 dvd (y + 400 * k) \<longleftrightarrow> 400 dvd y"
    by (simp_all add: dvd_add_left_iff)
  then show ?thesis by (simp add: is_leap_def)
qed

definition shift :: "int \<Rightarrow> gotime \<Rightarrow> gotime" where
  "shift k u = \<lparr>instant = instant u + k * period_ns, zone = 0\<rparr>"

lemma fires_shift:
  assumes "zone u = 0" "fires ce u" shows "fires ce (shift k u)"
proof -
  let ?v = "shift k u"
  have w: "wall ?v = wall u + k * 146097 * day_ns" "wall u = instant u"
    using assms(1) by (simp_all add: shift_def wall_def)
  have day: "wall_day ?v = wall_day u + 146097 * k"
    unfolding wall_day_def w(1) by (simp add: mult.commute)
  have "year_of_day (wall_day ?v) = time_Year u + 400 * k"
  proof (rule year_of_day_unique)
    show "year_start (time_Year u + 400 * k) \<le> wall_day ?v"
      using year_of_day_spec [of "wall_day u"] by (simp add: day year_start_period time_Year_def)
    have "time_Year u + 400 * k + 1 = (time_Year u + 1) + 400 * k" by simp
    then show "wall_day ?v < year_start (time_Year u + 400 * k + 1)"
      using year_of_day_spec [of "wall_day u"]
      by (simp only: day year_start_period time_Year_def add_less_cancel_right)
  qed
  then have y: "time_Year ?v = time_Year u + 400 * k" by (simp add: time_Year_def)
  have month: "time_Month ?v = time_Month u"
    by (simp add: time_Month_def y day is_leap_period year_start_period Let_def)
  have "time_Day ?v = time_Day u"
    by (simp add: time_Day_def month y day month_start_def is_leap_period year_start_period)
  moreover have "time_Weekday ?v = time_Weekday u"
    using mod_mult_self1 [of "wall_day u + 1" "20871 * k" 7] by (simp add: time_Weekday_def day algebra_simps)
  moreover have "time_Hour ?v = time_Hour u" "time_Minute ?v = time_Minute u"
    using mod_mult_self1 [of "wall u" "k * 146097" day_ns] mod_mult_self1 [of "wall u" "k * 146097 * 24" hour_ns]
    by (simp_all add: time_Hour_def time_Minute_def w(1) algebra_simps)
  moreover have "instant ?v mod minute_ns = instant u mod minute_ns"
    using mod_mult_self1 [of "instant u" "k * 146097 * 1440" minute_ns] by (simp add: shift_def algebra_simps)
  ultimately show ?thesis using assms(2) month by (simp add: fires_def)
qed

text \<open>So there is a match within a period after any time, and among those a least one.\<close>

lemma match_within_period:
  assumes "zone u = 0" "fires ce u"
  obtains v where "zone v = 0" "fires ce v" "a < instant v" "instant v \<le> a + period_ns"
proof -
  let ?k = "(a - instant u) div period_ns + 1"
  have "a < instant (shift ?k u)" "instant (shift ?k u) \<le> a + period_ns"
    using div_mult_mod_eq [of "a - instant u" period_ns] pos_mod_bound [of period_ns "a - instant u"]
      pos_mod_sign [of period_ns "a - instant u"]
    by (simp_all add: shift_def distrib_right)
  moreover have "zone (shift ?k u) = 0" by (simp add: shift_def)
  ultimately show ?thesis using that fires_shift [OF assms] by blast
qed

lemma least_match:
  assumes "zone u = 0" "fires ce u" "a < instant u"
  obtains v where "zone v = 0" "fires ce v" "a < instant v" "instant v \<le> instant u"
    "\<And>w. zone w = 0 \<Longrightarrow> fires ce w \<Longrightarrow> a < instant w \<Longrightarrow> instant v \<le> instant w"
proof -
  let ?P = "\<lambda>v. zone v = 0 \<and> fires ce v \<and> a < instant v"
  let ?f = "\<lambda>v. nat (instant v - a)"
  define v where "v = arg_min ?f ?P"
  have P: "?P v" and min: "?f v \<le> ?f w" if "?P w" for w
    using assms that arg_min_nat_lemma [of ?P _ ?f] unfolding v_def by blast+
  have "instant v \<le> instant w" if "?P w" for w
    using min [OF that] P [OF that] that by linarith
  with that P assms show ?thesis by blast
qed

section \<open>Properties of the next run\<close>

lemma next_run_later:
  "\<exists>r. CalculateNextRun expr from = Some r \<and> instant from < instant r \<and> zone r = zone from"
proof -
  let ?t = "time_Truncate (time_Add from minute_ns) minute_ns"
  obtain p where p: "ParseCron expr = Some p" using ParseCron_total by blast
  show ?thesis
  proof (cases p)
    case (Inl e)
    with p show ?thesis by (simp add: CalculateNextRun_def)
  next
    case (Inr ce)
    show ?thesis
    proof (cases "cron_loop 525600 ce ?t")
      case None
      with p Inr show ?thesis by (simp add: CalculateNextRun_def)
    next
      case (Some r)
      with p Inr cron_loop_later [OF Some] start_later [of "from"] show ?thesis
        by (simp add: CalculateNextRun_def)
    qed
  qed
qed

lemma next_run_least:
  assumes "ParseCron expr = Some (Inr ce)" "zone from = 0" "zone u = 0" "fires ce u"
  shows "\<exists>r. CalculateNextRun expr from = Some r \<and> fires ce r \<and> zone r = 0 \<and> instant from < instant r
    \<and> (\<forall>v. zone v = 0 \<and> fires ce v \<and> instant from < instant v \<longrightarrow> instant r \<le> instant v)"
proof -
  let ?t = "time_Truncate (time_Add from minute_ns) minute_ns"
  have s: "fields_sorted ce" using assms(1) by (rule ParseCron_fields_sorted)
  have t: "zone ?t = 0" "instant ?t mod minute_ns = 0" "instant from < instant ?t"
    using assms(2) start_aligned start_later by simp_all
  have first: "instant ?t \<le> instant v" if "fires ce v" "instant from < instant v" for v
    using that by (intro start_first_minute) (simp_all add: fires_def)
  obtain w where w: "zone w = 0" "fires ce w" "instant from < instant w" "instant w \<le> instant from + period_ns"
    using match_within_period [OF assms(3,4)] by blast
  obtain v where v: "zone v = 0" "fires ce v" "instant from < instant v" "instant v \<le> instant w"
    "\<And>x. zone x = 0 \<Longrightarrow> fires ce x \<Longrightarrow> instant from < instant x \<Longrightarrow> instant v \<le> instant x"
    using least_match [OF w(1-3)] by blast
  have "instant v div day_ns \<le> (instant ?t + period_ns) div day_ns"
    using v(4) w(4) t(3) by (intro zdiv_mono1) auto
  moreover have "(instant ?t + period_ns) div day_ns = 146097 + instant ?t div day_ns"
    by (rule div_mult_self1) simp
  ultimately have "wall_day v - wall_day ?t \<le> 522000"
    unfolding wall_day_def wall_utc [OF t(1)] wall_utc [OF v(1)] by linarith
  moreover have "\<forall>x. zone x = 0 \<and> fires ce x \<and> instant ?t \<le> instant x \<longrightarrow> instant v \<le> instant x"
    using v(5) less_le_trans [OF t(3)] by simp
  ultimately obtain r where r: "cron_loop 525600 ce ?t = Some r"
    using cron_loop_finds_any [OF s t(1,2) v(1,2) first [OF v(2,3)]] by blast
  have "CalculateNextRun expr from = Some r" using assms(1) r by (simp add: CalculateNextRun_def)
  moreover have "fires ce r \<and> (\<forall>v. zone v = 0 \<and> fires ce v \<and> instant from < instant v \<longrightarrow> instant r \<le> instant v)"
    using cron_loop_least [OF s t(1,2) r] first by blast
  ultimately show ?thesis using cron_loop_later [OF r] t by auto
qed

text \<open>(C29) The next run is always computed, for every expression and every time, and it lies
  strictly after the time it is computed from, so a scheduler that waits for it never spins.\<close>

theorem CalculateNextRun_future:
  "\<exists>r. CalculateNextRun expr from = Some r \<and> instant from < instant r \<and> zone r = zone from"
  by (rule next_run_later)

text \<open>(C3) In UTC, the next run of an expression that fires at all is the least minute after the
  given time at which it fires: the jumps over months, days and hours skip no match, and the
  525600 rounds are enough for every date the calendar can hold, February 29 included.\<close>

theorem CalculateNextRun_least:
  assumes "ParseCron expr = Some (Inr ce)" "zone from = 0" "zone u = 0" "fires ce u"
  shows "\<exists>r. CalculateNextRun expr from = Some r \<and> fires ce r \<and> zone r = 0 \<and> instant from < instant r
    \<and> (\<forall>v. zone v = 0 \<and> fires ce v \<and> instant from < instant v \<longrightarrow> instant r \<le> instant v)"
  using assms by (rule next_run_least)

theorem CalculateNextRun_least_witness:
  "\<exists>r. CalculateNextRun ''0 0 1 1 *'' \<lparr>instant = 5, zone = 0\<rparr> = Some r \<and> 5 < instant r
    \<and> fires \<lparr>Minute = [0], Hour = [0], DayOfMonth = [1], Month = [1], DayOfWeek = [0, 1, 2, 3, 4, 5, 6]\<rparr> r"
proof -
  let ?ce = "\<lparr>Minute = [0], Hour = [0], DayOfMonth = [1], Month = [1], DayOfWeek = [0, 1, 2, 3, 4, 5, 6]\<rparr>"
  have "ParseCron ''0 0 1 1 *'' = Some (Inr ?ce)" by code_simp
  moreover have "fires ?ce \<lparr>instant = 0, zone = 0\<rparr>" by code_simp
  ultimately show ?thesis
    using CalculateNextRun_least [of "''0 0 1 1 *''" ?ce "\<lparr>instant = 5, zone = 0\<rparr>" "\<lparr>instant = 0, zone = 0\<rparr>"]
    by auto
qed

section \<open>Away from UTC\<close>

text \<open>The weekly expression of \<^verbatim>\<open>ScheduleEveryWeek\<close>.\<close>

abbreviation weekly :: CronExpr where
  "weekly \<equiv> \<lparr>Minute = [0], Hour = [0], DayOfMonth = [1..31], Month = [1..12], DayOfWeek = [0]\<rparr>"

lemma time_Day_le_31: "time_Day t \<le> 31"
proof -
  have "days_before l (m + 1) - days_before l m \<le> 31" for l m by (simp add: days_before_def)
  from this [of "is_leap (time_Year t)" "time_Month t"] wall_day_in_month [of t] show ?thesis
    by (simp add: time_Day_def month_start_def)
qed

text \<open>The hour of the wall clock at midnight UTC.\<close>

definition utc_midnight_hour :: "int \<Rightarrow> int" where
  "utc_midnight_hour z = z mod 86400 div 3600"

definition sunday_midnight :: "gotime \<Rightarrow> bool" where
  "sunday_midnight t \<longleftrightarrow> time_Weekday t = 0 \<and> time_Hour t = 0 \<and> time_Minute t = 0"

lemma first_minute: "time_Hour t = 0 \<and> time_Minute t = 0 \<longleftrightarrow> wall t mod day_ns < minute_ns"
proof -
  let ?x = "wall t mod day_ns"
  have x: "0 \<le> ?x" by simp
  have "time_Minute t = ?x mod hour_ns div minute_ns" by (simp add: time_Minute_def mod_mod_cancel)
  moreover have "?x < minute_ns \<longleftrightarrow> ?x div hour_ns = 0 \<and> ?x mod hour_ns div minute_ns = 0"
  proof
    assume "?x < minute_ns"
    then show "?x div hour_ns = 0 \<and> ?x mod hour_ns div minute_ns = 0" using x by simp
  next
    assume h: "?x div hour_ns = 0 \<and> ?x mod hour_ns div minute_ns = 0"
    then have "?x = ?x mod hour_ns" using div_mult_mod_eq [of ?x hour_ns] by simp
    with h have "?x div minute_ns = 0" by simp
    then show "?x < minute_ns" using x by (auto simp: zdiv_eq_0_iff)
  qed
  ultimately show ?thesis by (simp add: time_Hour_def)
qed

lemma hour_at_utc_midnight:
  assumes "instant t mod day_ns = 0"
  shows "time_Hour t = utc_midnight_hour (zone t)"
proof -
  have "wall t mod day_ns = zone t * second_ns mod (86400 * second_ns)"
    using assms mod_add_left_eq [of "instant t" day_ns "zone t * second_ns"] by (simp add: wall_def)
  also have "\<dots> = zone t mod 86400 * second_ns" by (rule mult_mod_left [symmetric])
  finally have "time_Hour t = zone t mod 86400 * second_ns div (3600 * second_ns)"
    by (simp add: time_Hour_def)
  then show ?thesis by (simp add: utc_midnight_hour_def div_mult_mult2 [of second_ns] del: div_mult_mult1_if)
qed

lemma contains_upto: "contains [a..b] v \<longleftrightarrow> a \<le> v \<and> v \<le> b"
  by (simp add: contains_iff)

lemma contains_one: "contains [a] v \<longleftrightarrow> v = a"
  by (simp add: contains_iff)

text \<open>Going on by less than a day never leads to the first minute of a Sunday from elsewhere on a Sunday.\<close>

lemma sunday_goes_on:
  assumes "time_Weekday t = 0" "\<not> sunday_midnight t" "0 < d" "d \<le> hour_ns"
  shows "\<not> sunday_midnight (time_Add t d)"
proof (cases "wall_day (time_Add t d) = wall_day t")
  case True
  then have "wall t mod day_ns \<le> wall (time_Add t d) mod day_ns"
    using assms(3) div_mult_mod_eq [of "wall t" day_ns] div_mult_mod_eq [of "wall (time_Add t d)" day_ns]
      wall_simps(1) [of t d]
    unfolding wall_day_def by linarith
  then show ?thesis using assms(1,2) first_minute [of t] first_minute [of "time_Add t d"] by (auto simp: sunday_midnight_def)
next
  case False
  have w: "wall t < wall (time_Add t d)" "wall (time_Add t d) \<le> wall t + day_ns" using assms(3,4) by simp_all
  have "wall_day t \<le> wall_day (time_Add t d)" "wall_day (time_Add t d) \<le> wall_day t + 1"
    using w zdiv_mono1 [of "wall t" "wall (time_Add t d)" day_ns] zdiv_mono1 [of "wall (time_Add t d)" "wall t + day_ns" day_ns]
      div_add_self2 [of day_ns "wall t"]
    unfolding wall_day_def by simp_all
  with False have "wall_day (time_Add t d) = wall_day t + 1" by linarith
  then have "time_Weekday (time_Add t d) = 1"
    using assms(1) mod_add_left_eq [of "wall_day t + 1" 7 1] by (simp add: time_Weekday_def)
  then show ?thesis by (simp add: sunday_midnight_def)
qed

lemma weekly_step:
  assumes "1 \<le> utc_midnight_hour (zone t)"
  shows "cron_step weekly t = Inl t \<and> sunday_midnight t
    \<or> (\<exists>t'. cron_step weekly t = Inr t' \<and> \<not> sunday_midnight t \<and> \<not> sunday_midnight t' \<and> zone t' = zone t)"
proof -
  have m: "contains [1..12] (time_Month t)" "contains [1..31] (time_Day t)"
    using wall_day_in_month [of t] time_Day_ge_1 [of t] time_Day_le_31 [of t] by (simp_all add: contains_upto)
  consider "time_Weekday t \<noteq> 0" | "time_Weekday t = 0" "time_Hour t \<noteq> 0"
    | "time_Weekday t = 0" "time_Hour t = 0" "time_Minute t \<noteq> 0" | "sunday_midnight t"
    by (auto simp: sunday_midnight_def)
  then show ?thesis
  proof cases
    case 1
    let ?t = "time_Truncate (time_AddDate t 0 0 1) day_ns"
    have "\<not> sunday_midnight ?t"
      using hour_at_utc_midnight [of ?t] assms by (simp add: sunday_midnight_def Truncate_instant)
    moreover have "cron_step weekly t = Inr ?t" using m 1 by (simp add: cron_step_def contains_one)
    ultimately show ?thesis using 1 by (simp add: sunday_midnight_def)
  next
    case 2
    have "\<not> sunday_midnight (time_Add t (hour_ns - time_Minute t * minute_ns))"
      using 2 time_Minute_range [of t] by (intro sunday_goes_on) (simp_all add: sunday_midnight_def)
    moreover have "cron_step weekly t = Inr (time_Add t (hour_ns - time_Minute t * minute_ns))"
      using m 2 by (simp add: cron_step_def contains_one)
    ultimately show ?thesis using 2 by (simp add: sunday_midnight_def)
  next
    case 3
    have "\<not> sunday_midnight (time_Add t minute_ns)"
      using 3 by (intro sunday_goes_on) (simp_all add: sunday_midnight_def)
    moreover have "cron_step weekly t = Inr (time_Add t minute_ns)"
      using m 3 by (simp add: cron_step_def contains_one)
    ultimately show ?thesis using 3 by (simp add: sunday_midnight_def)
  next
    case 4
    then have "cron_step weekly t = Inl t" using m by (simp add: cron_step_def contains_one sunday_midnight_def)
    with 4 show ?thesis by simp
  qed
qed

lemma weekly_never:
  "\<not> sunday_midnight t \<Longrightarrow> 1 \<le> utc_midnight_hour (zone t) \<Longrightarrow> cron_loop n weekly t = None"
proof (induction n arbitrary: t)
  case (Suc n)
  then show ?case using weekly_step [OF Suc.prems(2)] Suc.IH by (auto simp del: CronExpr.simps)
qed simp

text \<open>(C39) In a zone whose wall clock is at least an hour past midnight at midnight UTC, the search for the
  next run of a weekly schedule, Sunday 00:00, finds it only when it is the very minute after the start, at which the search begins. From
  every other start the search jumps over it every week, and the run computed is the
  fallback, one hour after the start.\<close>

theorem weekly_away_from_utc:
  assumes "3600 \<le> zone from mod 86400"
  shows "CalculateNextRun ''0 0 * * 0'' from =
    (let start = time_Truncate (time_Add from minute_ns) minute_ns
     in Some (if sunday_midnight start then start else time_Add from hour_ns))"
proof -
  let ?t = "time_Truncate (time_Add from minute_ns) minute_ns"
  have p: "ParseCron ''0 0 * * 0'' = Some (Inr weekly)" by code_simp
  have z: "1 \<le> utc_midnight_hour (zone ?t)"
    using zdiv_mono1 [OF assms, of 3600] by (simp add: utc_midnight_hour_def)
  have "sunday_midnight ?t \<Longrightarrow> cron_loop 525600 weekly ?t = Some ?t"
    using weekly_step [OF z] by (auto simp: cron_loop_numeral)
  then show ?thesis
    using weekly_never [OF _ z, of 525600] p by (simp add: CalculateNextRun_def Let_def)
qed

theorem weekly_away_from_utc_witness:
  "CalculateNextRun ''0 0 * * 0'' \<lparr>instant = 0, zone = 12600\<rparr> = Some \<lparr>instant = hour_ns, zone = 12600\<rparr>"
  using weekly_away_from_utc [of "\<lparr>instant = 0, zone = 12600\<rparr>"]
  by (simp add: sunday_midnight_def time_Weekday_def wall_day_def wall_def time_Truncate_def time_Add_def)

end
