(* ===== verification/JobState.thy ===== *)
theory JobState
  imports GoPrelude
begin

text \<open>
  Job statuses and their transitions, \<^verbatim>\<open>src/internal/state/statuses.go\<close>, and the functions of
  \<^verbatim>\<open>src/web/template_renderer.go\<close> that choose how a status is shown. A status is a Go string type,
  so it can hold other texts than the six constants; the model keeps that.
\<close>

section \<open>Statuses\<close>

type_synonym JobStatus = string

definition StatusQueued :: JobStatus where "StatusQueued = ''queued''"
definition StatusProcessing :: JobStatus where "StatusProcessing = ''processing''"
definition StatusSucceeded :: JobStatus where "StatusSucceeded = ''succeeded''"
definition StatusFailed :: JobStatus where "StatusFailed = ''failed''"
definition StatusRetrying :: JobStatus where "StatusRetrying = ''retrying''"
definition StatusDead :: JobStatus where "StatusDead = ''dead''"

lemmas status_defs = StatusQueued_def StatusProcessing_def StatusSucceeded_def StatusFailed_def
  StatusRetrying_def StatusDead_def

definition JobStatus_String :: "JobStatus \<Rightarrow> string" where
  "JobStatus_String s = s"

definition AllStatuses :: "JobStatus list" where
  "AllStatuses = [StatusQueued, StatusProcessing, StatusSucceeded, StatusFailed, StatusRetrying, StatusDead]"

record Transition =
  From :: JobStatus
  To :: JobStatus

definition ValidTransitions :: "Transition list" where
  "ValidTransitions =
     [\<lparr>From = StatusQueued, To = StatusProcessing\<rparr>,
      \<lparr>From = StatusProcessing, To = StatusSucceeded\<rparr>,
      \<lparr>From = StatusProcessing, To = StatusFailed\<rparr>,
      \<lparr>From = StatusFailed, To = StatusRetrying\<rparr>,
      \<lparr>From = StatusRetrying, To = StatusProcessing\<rparr>,
      \<lparr>From = StatusFailed, To = StatusDead\<rparr>]"

fun find_transition :: "Transition list \<Rightarrow> JobStatus \<Rightarrow> JobStatus \<Rightarrow> bool" where
  "find_transition [] from to = False"
| "find_transition (t # ts) from to =
     (if From t = from \<and> To t = to then True else find_transition ts from to)"

definition IsValidTransition :: "JobStatus \<Rightarrow> JobStatus \<Rightarrow> bool" where
  "IsValidTransition from to = find_transition ValidTransitions from to"

lemma status_distinct [simp]: "distinct AllStatuses"
  by (simp add: AllStatuses_def status_defs)

lemma status_neq [simp]:
  "StatusQueued \<noteq> StatusProcessing" "StatusQueued \<noteq> StatusSucceeded" "StatusQueued \<noteq> StatusFailed"
  "StatusQueued \<noteq> StatusRetrying" "StatusQueued \<noteq> StatusDead" "StatusProcessing \<noteq> StatusSucceeded"
  "StatusProcessing \<noteq> StatusFailed" "StatusProcessing \<noteq> StatusRetrying" "StatusProcessing \<noteq> StatusDead"
  "StatusSucceeded \<noteq> StatusFailed" "StatusSucceeded \<noteq> StatusRetrying" "StatusSucceeded \<noteq> StatusDead"
  "StatusFailed \<noteq> StatusRetrying" "StatusFailed \<noteq> StatusDead" "StatusRetrying \<noteq> StatusDead"
  by (simp_all add: status_defs)

lemmas status_neq_sym [simp] = status_neq [symmetric]

lemma find_transition_iff:
  "find_transition ts from to \<longleftrightarrow> (\<exists>t \<in> set ts. From t = from \<and> To t = to)"
  by (induction ts) auto

lemma IsValidTransition_iff:
  "IsValidTransition from to \<longleftrightarrow>
     from = StatusQueued \<and> to = StatusProcessing
   \<or> from = StatusProcessing \<and> (to = StatusSucceeded \<or> to = StatusFailed)
   \<or> from = StatusFailed \<and> (to = StatusRetrying \<or> to = StatusDead)
   \<or> from = StatusRetrying \<and> to = StatusProcessing"
  by (auto simp: IsValidTransition_def find_transition_iff ValidTransitions_def)

section \<open>The life of a job\<close>

text \<open>The statuses a job can take from \<open>queued\<close> along valid transitions.\<close>

inductive status_reach :: "JobStatus \<Rightarrow> bool" where
  start: "status_reach StatusQueued"
| step: "status_reach s \<Longrightarrow> IsValidTransition s s' \<Longrightarrow> status_reach s'"

inductive_cases status_reachE: "status_reach s"

lemma status_reach_sound: "status_reach s \<Longrightarrow> s \<in> set AllStatuses"
  by (induction rule: status_reach.induct) (auto simp: IsValidTransition_iff AllStatuses_def)

text \<open>From \<^verbatim>\<open>queued\<close>, the valid transitions reach exactly the six statuses, and the statuses
  reached that have no transition out are exactly \<^verbatim>\<open>succeeded\<close> and \<^verbatim>\<open>dead\<close>.\<close>

lemma status_life_cycle:
  "(status_reach s \<longleftrightarrow> s \<in> set AllStatuses)
   \<and> (status_reach s \<and> (\<nexists>s'. IsValidTransition s s') \<longleftrightarrow> s = StatusSucceeded \<or> s = StatusDead)"
proof -
  have p: "status_reach StatusProcessing"
    by (rule step [OF start]) (simp add: IsValidTransition_iff)
  have f: "status_reach StatusFailed" by (rule step [OF p]) (simp add: IsValidTransition_iff)
  have "status_reach StatusSucceeded" "status_reach StatusRetrying" "status_reach StatusDead"
    by (rule step [OF p] step [OF f], simp add: IsValidTransition_iff)+
  with p f start have "status_reach s \<longleftrightarrow> s \<in> set AllStatuses"
    using status_reach_sound by (auto simp: AllStatuses_def)
  then show ?thesis by (auto simp: AllStatuses_def IsValidTransition_iff)
qed

section \<open>How a status is shown\<close>

definition StatusBadgeClass :: "JobStatus \<Rightarrow> string" where
  "StatusBadgeClass status =
     (if status = StatusQueued then ''badge bg-info''
      else if status = StatusProcessing then ''badge bg-primary''
      else if status = StatusSucceeded then ''badge bg-success''
      else if status = StatusFailed then ''badge bg-danger''
      else if status = StatusRetrying then ''badge bg-warning''
      else if status = StatusDead then ''badge bg-dark''
      else ''badge bg-light text-dark'')"

definition StatusBgClass :: "JobStatus \<Rightarrow> string" where
  "StatusBgClass status =
     (if status = StatusQueued then '' bg-info''
      else if status = StatusProcessing then '' bg-primary''
      else if status = StatusSucceeded then '' bg-success''
      else if status = StatusFailed then '' bg-danger''
      else if status = StatusRetrying then '' bg-warning''
      else if status = StatusDead then '' bg-dark''
      else '' bg-light text-dark'')"

text \<open>The icons, by their UTF-8 bytes. There is none for \<^verbatim>\<open>dead\<close>: it falls to the default, as an
  unknown status does.\<close>

definition StatusIcon :: "JobStatus \<Rightarrow> string" where
  "StatusIcon status =
     (if status = StatusQueued then [CHR 0xF0, CHR 0x9F, CHR 0x93, CHR 0xA5]
      else if status = StatusProcessing then [CHR 0xE2, CHR 0x9A, CHR 0x99, CHR 0xEF, CHR 0xB8, CHR 0x8F]
      else if status = StatusSucceeded then [CHR 0xE2, CHR 0x9C, CHR 0x85]
      else if status = StatusFailed then [CHR 0xE2, CHR 0x9D, CHR 0x8C]
      else if status = StatusRetrying then [CHR 0xF0, CHR 0x9F, CHR 0x94, CHR 0x81]
      else [CHR 0xE2, CHR 0x9D, CHR 0x93])"

text \<open>The classes tell the statuses apart, and the background class is the badge class without
  its first word.\<close>

lemma StatusBadgeClass_inj:
  "s \<in> set AllStatuses \<Longrightarrow> s' \<in> set AllStatuses \<Longrightarrow> StatusBadgeClass s = StatusBadgeClass s' \<Longrightarrow> s = s'"
  by (auto simp: AllStatuses_def StatusBadgeClass_def)

lemma StatusBadgeClass_eq: "StatusBadgeClass s = ''badge'' @ StatusBgClass s"
  by (simp add: StatusBadgeClass_def StatusBgClass_def)

end
