(* ===== verification/GoJson.thy ===== *)
theory GoJson
  imports Complex_Main GoPrelude
begin

text \<open>
  Job arguments and their encoding. An argument is a Go value of type \<^verbatim>\<open>any\<close>; \<^verbatim>\<open>encoding/json\<close>
  turns the argument list into the payload stored with a job and back into the list a handler is
  called with. The model works on JSON values, not on their text: a payload is what the \<^verbatim>\<open>JSONB\<close>
  column holds. Numbers are rationals; decoding makes every number a \<^verbatim>\<open>float64\<close>, which is exact
  below 2 ^ 53 and rounds larger integers to nearest, ties to even. Strings are assumed to be valid
  UTF-8. Outcomes of user code that can panic are a type of their own.
\<close>

section \<open>Outcomes\<close>

datatype 'a outcome = Returns 'a | Panics string

section \<open>Values\<close>

datatype any =
    AnyNil
  | AnyBool bool
  | AnyInt int
  | AnyFloat rat
  | AnyString string
  | AnyList "any list"
  | AnyMap "(string \<times> any) list"
  | AnyUnsupported \<comment> \<open>a channel, a function or a complex number\<close>

datatype json =
    JNull
  | JBool bool
  | JNumber rat
  | JString string
  | JArray "json list"
  | JObject "(string \<times> json) list"

text \<open>\<^verbatim>\<open>json.Marshal\<close>. A value of an unsupported type anywhere inside is an error.\<close>

fun Marshal :: "any \<Rightarrow> json result"
  and Marshal_list :: "any list \<Rightarrow> json list result"
  and Marshal_map :: "(string \<times> any) list \<Rightarrow> (string \<times> json) list result" where
  "Marshal AnyNil = Inr JNull"
| "Marshal (AnyBool b) = Inr (JBool b)"
| "Marshal (AnyInt n) = Inr (JNumber (of_int n))"
| "Marshal (AnyFloat r) = Inr (JNumber r)"
| "Marshal (AnyString s) = Inr (JString s)"
| "Marshal (AnyList vs) = map_sum id JArray (Marshal_list vs)"
| "Marshal (AnyMap kvs) = map_sum id JObject (Marshal_map kvs)"
| "Marshal AnyUnsupported = Inl ''json: unsupported type''"
| "Marshal_list [] = Inr []"
| "Marshal_list (v # vs) = bind_result (Marshal v) (\<lambda>j. map_sum id ((#) j) (Marshal_list vs))"
| "Marshal_map [] = Inr []"
| "Marshal_map ((k, v) # kvs) =
     bind_result (Marshal v) (\<lambda>j. map_sum id ((#) (k, j)) (Marshal_map kvs))"

text \<open>Rounding an integer to the nearest \<^verbatim>\<open>float64\<close>: 53 significant bits, ties to even.\<close>

fun drop_bits53 :: "nat \<Rightarrow> nat" where
  "drop_bits53 n = (if n < 2 ^ 53 then 0 else Suc (drop_bits53 (n div 2)))"

declare drop_bits53.simps [simp del]

definition round53 :: "int \<Rightarrow> int" where
  "round53 n =
     (let e = drop_bits53 (nat \<bar>n\<bar>); q = \<bar>n\<bar> div 2 ^ e; r = 2 * (\<bar>n\<bar> mod 2 ^ e)
      in sgn n * (if r > 2 ^ e \<or> r = 2 ^ e \<and> odd q then q + 1 else q) * 2 ^ e)"

definition float64 :: "rat \<Rightarrow> rat" where
  "float64 r = (if r = of_int \<lfloor>r\<rfloor> then of_int (round53 \<lfloor>r\<rfloor>) else r)"

text \<open>\<^verbatim>\<open>json.Unmarshal\<close> into a value of type \<^verbatim>\<open>any\<close>.\<close>

fun Unmarshal :: "json \<Rightarrow> any"
  and Unmarshal_list :: "json list \<Rightarrow> any list"
  and Unmarshal_map :: "(string \<times> json) list \<Rightarrow> (string \<times> any) list" where
  "Unmarshal JNull = AnyNil"
| "Unmarshal (JBool b) = AnyBool b"
| "Unmarshal (JNumber r) = AnyFloat (float64 r)"
| "Unmarshal (JString s) = AnyString s"
| "Unmarshal (JArray js) = AnyList (Unmarshal_list js)"
| "Unmarshal (JObject kjs) = AnyMap (Unmarshal_map kjs)"
| "Unmarshal_list [] = []"
| "Unmarshal_list (j # js) = Unmarshal j # Unmarshal_list js"
| "Unmarshal_map [] = []"
| "Unmarshal_map ((k, j) # kjs) = (k, Unmarshal j) # Unmarshal_map kjs"

text \<open>The variadic arguments as a payload: no arguments are a nil slice, which is encoded as
  \<^verbatim>\<open>null\<close>. Decoding into \<^verbatim>\<open>[]interface{}\<close> accepts an array and \<^verbatim>\<open>null\<close>.\<close>

definition Marshal_args :: "any list \<Rightarrow> json result" where
  "Marshal_args args = (if args = [] then Inr JNull else Marshal (AnyList args))"

definition Unmarshal_args :: "json \<Rightarrow> any list result" where
  "Unmarshal_args payload =
     (case payload of
        JArray js \<Rightarrow> Inr (Unmarshal_list js)
      | JNull \<Rightarrow> Inr []
      | _ \<Rightarrow> Inl ''json: cannot unmarshal into Go value of type []interface {}'')"

section \<open>What a handler receives\<close>

text \<open>The value a handler sees for an argument: every number has become a \<^verbatim>\<open>float64\<close>.\<close>

fun received :: "any \<Rightarrow> any" where
  "received AnyNil = AnyNil"
| "received (AnyBool b) = AnyBool b"
| "received (AnyInt n) = AnyFloat (float64 (of_int n))"
| "received (AnyFloat r) = AnyFloat (float64 r)"
| "received (AnyString s) = AnyString s"
| "received (AnyList vs) = AnyList (map received vs)"
| "received (AnyMap kvs) = AnyMap (map (\<lambda>(k, v). (k, received v)) kvs)"
| "received AnyUnsupported = AnyUnsupported"

fun supported :: "any \<Rightarrow> bool" where
  "supported (AnyList vs) = (\<forall>v \<in> set vs. supported v)"
| "supported (AnyMap kvs) = (\<forall>kv \<in> set kvs. supported (snd kv))"
| "supported AnyUnsupported = False"
| "supported _ = True"

lemma Marshal_Unmarshal:
  "supported v \<Longrightarrow> \<exists>j. Marshal v = Inr j \<and> Unmarshal j = received v"
  "\<forall>v \<in> set vs. supported v \<Longrightarrow> \<exists>js. Marshal_list vs = Inr js \<and> Unmarshal_list js = map received vs"
  "\<forall>kv \<in> set kvs. supported (snd kv) \<Longrightarrow>
     \<exists>kjs. Marshal_map kvs = Inr kjs \<and> Unmarshal_map kjs = map (\<lambda>(k, v). (k, received v)) kvs"
  by (induction v and vs and kvs rule: Marshal_Marshal_list_Marshal_map.induct) fastforce+

lemma Marshal_unsupported:
  "\<not> supported v \<Longrightarrow> \<exists>e. Marshal v = Inl e"
  "\<not> (\<forall>v \<in> set vs. supported v) \<Longrightarrow> \<exists>e. Marshal_list vs = Inl e"
  "\<not> (\<forall>kv \<in> set kvs. supported (snd kv)) \<Longrightarrow> \<exists>e. Marshal_map kvs = Inl e"
proof (induction v and vs and kvs rule: Marshal_Marshal_list_Marshal_map.induct)
  case (10 v vs)
  then show ?case using Marshal_Unmarshal(1) [of v] by (cases "supported v") auto
next
  case (12 k v kvs)
  then show ?case using Marshal_Unmarshal(1) [of v] by (cases "supported v") auto
qed auto

lemma round53_small: "\<bar>n\<bar> < 2 ^ 53 \<Longrightarrow> round53 n = n"
proof -
  assume "\<bar>n\<bar> < 2 ^ 53"
  then have "drop_bits53 (nat \<bar>n\<bar>) = 0" by (subst drop_bits53.simps) (simp add: nat_less_iff)
  then show ?thesis by (simp add: round53_def Let_def sgn_mult_abs)
qed

lemma float64_int: "\<bar>n\<bar> < 2 ^ 53 \<Longrightarrow> float64 (of_int n) = of_int n"
  by (simp add: float64_def round53_small)

text \<open>Arguments survive the payload: what a job is enqueued with is encoded and decoded to the
  arguments its handler is called with, in order, every number turned into a \<^verbatim>\<open>float64\<close>; encoding
  fails exactly when some argument has an unsupported type.\<close>

lemma args_round_trip:
  "(case Marshal_args args of
      Inr payload \<Rightarrow> (\<forall>v \<in> set args. supported v) \<and> Unmarshal_args payload = Inr (map received args)
    | Inl err \<Rightarrow> \<not> (\<forall>v \<in> set args. supported v))"
proof (cases "\<forall>v \<in> set args. supported v")
  case True
  with Marshal_Unmarshal(2) [of args] show ?thesis
    by (auto simp: Marshal_args_def Unmarshal_args_def)
next
  case False
  with Marshal_unsupported(2) [of args] show ?thesis
    by (auto simp: Marshal_args_def)
qed

end
