(* ===== verification/JobTypes.thy ===== *)
theory JobTypes
  imports GoTime GoJson JobState
begin

text \<open>
  The data the packages exchange: jobs, results of executions, pages, users (\<^verbatim>\<open>types\<close>) and the
  constants (\<^verbatim>\<open>constants\<close>). Times read from the database are instants, in nanoseconds; times that
  Go code computes carry their zone (\<^typ>\<open>gotime\<close>). A nullable column is an option.
\<close>

type_synonym timestamp = int

section \<open>Jobs\<close>

record EnqueuedJob =
  ej_ID :: int
  ej_Name :: string
  ej_Payload :: json
  ej_Status :: JobStatus
  ej_Attempts :: int
  ej_MaxAttempts :: int
  ej_ScheduledAt :: timestamp
  ej_ExecutedAt :: "timestamp option"
  ej_FinishedAt :: "timestamp option"
  ej_LastError :: "string option"
  ej_LockedBy :: "string option"
  ej_LockedAt :: "timestamp option"
  ej_CreatedAt :: timestamp

text \<open>The time columns of a cron job without time zone hold the reading of a clock, see the store.\<close>

record CronJob =
  cj_ID :: int
  cj_Name :: string
  cj_Payload :: json
  cj_Status :: JobStatus
  cj_LastError :: "string option"
  cj_LockedBy :: "string option"
  cj_LockedAt :: "timestamp option"
  cj_CreatedAt :: timestamp
  cj_LastRunAt :: "int option"
  cj_NextRunAt :: int
  cj_IsActive :: bool
  cj_Expression :: string

record Job =
  job_ID :: int
  job_Name :: string
  job_Args :: "any list"
  job_ScheduledAt :: gotime

section \<open>Results\<close>

text \<open>The Go zero time stands in the fields an enqueued job leaves out.\<close>

definition zero_time :: gotime where "zero_time = \<lparr>instant = 0, zone = 0\<rparr>"

record JobResult =
  res_JobID :: int
  res_Err :: "string option"
  res_Attempts :: int
  res_MaxAttempts :: int
  res_Status :: JobStatus
  res_RanAt :: gotime
  res_NextRun :: gotime

record 'a PaginationResult =
  Items :: "'a list"
  TotalItems :: int
  Page :: int
  PageSize :: int
  TotalPages :: int
  HasNextPage :: bool
  HasPreviousPage :: bool

record User =
  usr_ID :: int
  usr_Username :: string
  usr_Password :: string

section \<open>Constants\<close>

definition MigrationLock :: int where "MigrationLock = 0"
definition EnqueueLock :: int where "EnqueueLock = 1"
definition StartEnqueueLock :: int where "StartEnqueueLock = 2"
definition ScheduleLock :: int where "ScheduleLock = 3"
definition RetryLock :: int where "RetryLock = 4"
definition CronJobLock :: int where "CronJobLock = 5"
definition StartCronJobLock :: int where "StartCronJobLock = 6"

definition Locks :: "int list" where
  "Locks = [MigrationLock, EnqueueLock, StartEnqueueLock, ScheduleLock, RetryLock, CronJobLock,
            StartCronJobLock]"

lemmas lock_defs = MigrationLock_def EnqueueLock_def StartEnqueueLock_def ScheduleLock_def
  RetryLock_def CronJobLock_def StartCronJobLock_def Locks_def

definition MaxRetryAttempt :: int where "MaxRetryAttempt = 3"

end
