(* ===== verification/JobHandlers.thy ===== *)
theory JobHandlers
  imports JobTypes
begin

text \<open>
  The registry of job handlers (\<^verbatim>\<open>types/config/job_handler.go\<close>). A handler is user code: called with
  the decoded arguments it returns nil or an error, or panics. The registry is the map the code
  keeps; the mutex makes every operation on it atomic.
\<close>

type_synonym handler_fun = "any list \<Rightarrow> string option outcome"

record JobHandler =
  handlers :: "string \<rightharpoonup> handler_fun"

definition NewJobHandler :: JobHandler where
  "NewJobHandler = \<lparr>handlers = Map.empty\<rparr>"

definition quoted :: "string \<Rightarrow> string" where
  "quoted s = CHR 0x27 # s @ [CHR 0x27]"

definition Register :: "JobHandler \<Rightarrow> string \<Rightarrow> handler_fun \<Rightarrow> unit result \<times> JobHandler" where
  "Register jh name h =
     (if handlers jh name \<noteq> None then (Inl (''handler '' @ quoted name @ '' already registered''), jh)
      else (Inr (), jh\<lparr>handlers := (handlers jh)(name \<mapsto> h)\<rparr>))"

definition Exists :: "JobHandler \<Rightarrow> string \<Rightarrow> bool" where
  "Exists jh name \<longleftrightarrow> handlers jh name \<noteq> None"

definition Execute :: "JobHandler \<Rightarrow> string \<Rightarrow> any list \<Rightarrow> string option outcome" where
  "Execute jh name args =
     (case handlers jh name of
        None \<Rightarrow> Returns (Some (''handler '' @ quoted name @ '' not found''))
      | Some h \<Rightarrow> h args)"

text \<open>The names in the order the map is iterated, which Go leaves open.\<close>

definition is_List :: "JobHandler \<Rightarrow> string list \<Rightarrow> bool" where
  "is_List jh names \<longleftrightarrow> distinct names \<and> set names = dom (handlers jh)"

text \<open>The loop over \<^verbatim>\<open>cfg.Handlers\<close> at start-up, which stops at the first error.\<close>

fun register_all :: "JobHandler \<Rightarrow> (string \<times> handler_fun) list \<Rightarrow> unit result \<times> JobHandler" where
  "register_all jh [] = (Inr (), jh)"
| "register_all jh ((name, h) # hs) =
     (case Register jh name h of
        (Inl e, jh') \<Rightarrow> (Inl e, jh')
      | (Inr _, jh') \<Rightarrow> register_all jh' hs)"

section \<open>Lemmas\<close>

lemma Register_new: "handlers jh name = None \<Longrightarrow>
    Register jh name h = (Inr (), jh\<lparr>handlers := (handlers jh)(name \<mapsto> h)\<rparr>)"
  by (simp add: Register_def)

lemma Register_taken: "handlers jh name = Some h' \<Longrightarrow>
    Register jh name h = (Inl (''handler '' @ quoted name @ '' already registered''), jh)"
  by (simp add: Register_def)

lemma register_all_fresh:
  assumes "distinct (map fst hs)" "\<forall>n \<in> set (map fst hs). handlers jh n = None"
  shows "register_all jh hs = (Inr (), jh\<lparr>handlers := handlers jh ++ map_of hs\<rparr>)"
  using assms
proof (induction hs arbitrary: jh)
  case (Cons nh hs)
  obtain n h where nh: "nh = (n, h)" by fastforce
  let ?jh = "jh\<lparr>handlers := (handlers jh)(n \<mapsto> h)\<rparr>"
  have none: "map_of hs n = None" using Cons.prems nh by (simp add: map_of_eq_None_iff)
  have "\<forall>m \<in> set (map fst hs). handlers ?jh m = None" using Cons.prems nh by auto
  then have "register_all ?jh hs = (Inr (), ?jh\<lparr>handlers := handlers ?jh ++ map_of hs\<rparr>)"
    using Cons.IH [of ?jh] Cons.prems by (simp add: fun_upd_def)
  moreover have "(handlers jh)(n \<mapsto> h) ++ map_of hs = handlers jh ++ map_of (nh # hs)"
    using none nh by (auto simp: fun_eq_iff map_add_def split: option.splits)
  ultimately show ?case using Cons.prems nh by (simp add: Register_new fun_upd_def)
qed simp

lemma register_all_taken:
  assumes "\<not> (distinct (map fst hs) \<and> (\<forall>n \<in> set (map fst hs). handlers jh n = None))"
  shows "\<exists>e. fst (register_all jh hs) = Inl e"
  using assms
proof (induction hs arbitrary: jh)
  case (Cons nh hs)
  obtain n h where nh: "nh = (n, h)" by fastforce
  show ?case
  proof (cases "handlers jh n")
    case None
    then have "\<not> (distinct (map fst hs) \<and>
        (\<forall>m \<in> set (map fst hs). handlers (jh\<lparr>handlers := (handlers jh)(n \<mapsto> h)\<rparr>) m = None))"
      using Cons.prems nh by (auto split: if_splits)
    from Cons.IH [OF this] None nh show ?thesis by (simp add: Register_new)
  qed (simp add: nh Register_taken)
qed simp

section \<open>Properties\<close>

text \<open>Registering the configured handlers at start-up succeeds exactly when their names are
  pairwise different, and then every job name is executed by the handler configured for it, names
  without a handler being errors.\<close>

lemma register_all_executes:
  "if distinct (map fst hs)
   then fst (register_all NewJobHandler hs) = Inr () \<and>
        Execute (snd (register_all NewJobHandler hs)) name args =
          (case map_of hs name of
             Some h \<Rightarrow> h args
           | None \<Rightarrow> Returns (Some (''handler '' @ quoted name @ '' not found'')))
   else \<exists>e. fst (register_all NewJobHandler hs) = Inl e"
  using register_all_fresh [of hs NewJobHandler] register_all_taken [of hs NewJobHandler]
  by (simp add: NewJobHandler_def Execute_def)

end
