(* ===== verification/GoSql.thy ===== *)
theory GoSql
  imports GoPrelude "HOL-Library.Multiset"
begin

text \<open>
  What the stores use of SQL and of \<^verbatim>\<open>database/sql\<close>. A table is the list of its rows and the next
  value of the sequence behind its \<^verbatim>\<open>SERIAL\<close> primary key. One SQL statement is one atomic step on a
  table. A statement can fail for reasons outside the program (connection, cancelled context,
  closed pool, encoding): every store operation takes the failure of each of its statements as an
  argument of type \<^typ>\<open>string option\<close>, and a failing statement leaves the table as it was.
  Comparisons with \<^verbatim>\<open>NULL\<close> are not true. The cursor \<^verbatim>\<open>sql.Rows\<close> must be advanced with \<^verbatim>\<open>Next\<close> before
  \<^verbatim>\<open>Scan\<close> may read a row.
\<close>

section \<open>Tables\<close>

type_synonym fault = "string option"

record 'r table =
  trows :: "'r list"
  next_id :: int

definition empty_table :: "'r table" where
  "empty_table = \<lparr>trows = [], next_id = 1\<rparr>"

definition insert_row :: "(int \<Rightarrow> 'r) \<Rightarrow> 'r table \<Rightarrow> 'r table" where
  "insert_row r T = \<lparr>trows = trows T @ [r (next_id T)], next_id = next_id T + 1\<rparr>"

definition update_where :: "('r \<Rightarrow> bool) \<Rightarrow> ('r \<Rightarrow> 'r) \<Rightarrow> 'r table \<Rightarrow> 'r table" where
  "update_where P f T = T\<lparr>trows := map (\<lambda>r. if P r then f r else r) (trows T)\<rparr>"

definition delete_where :: "('r \<Rightarrow> bool) \<Rightarrow> 'r table \<Rightarrow> 'r table" where
  "delete_where P T = T\<lparr>trows := filter (\<lambda>r. \<not> P r) (trows T)\<rparr>"

definition select_where :: "('r \<Rightarrow> bool) \<Rightarrow> 'r table \<Rightarrow> 'r list" where
  "select_where P T = filter P (trows T)"

definition rows_matching :: "('r \<Rightarrow> bool) \<Rightarrow> 'r table \<Rightarrow> int" where
  "rows_matching P T = int (length (select_where P T))"

text \<open>\<^verbatim>\<open>ExecContext\<close> with an update or a delete: the number of affected rows or the error.\<close>

definition exec_update :: "fault \<Rightarrow> ('r \<Rightarrow> bool) \<Rightarrow> ('r \<Rightarrow> 'r) \<Rightarrow> 'r table \<Rightarrow> int result \<times> 'r table" where
  "exec_update flt P f T =
     (case flt of Some e \<Rightarrow> (Inl e, T) | None \<Rightarrow> (Inr (rows_matching P T), update_where P f T))"

definition exec_delete :: "fault \<Rightarrow> ('r \<Rightarrow> bool) \<Rightarrow> 'r table \<Rightarrow> int result \<times> 'r table" where
  "exec_delete flt P T =
     (case flt of Some e \<Rightarrow> (Inl e, T) | None \<Rightarrow> (Inr (rows_matching P T), delete_where P T))"

text \<open>The error of a call whose result is not used.\<close>

fun err_of :: "'a result \<Rightarrow> fault" where
  "err_of (Inl e) = Some e"
| "err_of (Inr a) = None"

lemma err_of_None [simp]: "err_of r = None \<longleftrightarrow> (\<exists>a. r = Inr a)"
  by (cases r) auto

lemma table_simps [simp]:
  "trows (insert_row r T) = trows T @ [r (next_id T)]"
  "next_id (insert_row r T) = next_id T + 1"
  "trows (update_where P f T) = map (\<lambda>r. if P r then f r else r) (trows T)"
  "next_id (update_where P f T) = next_id T"
  "trows (delete_where P T) = filter (\<lambda>r. \<not> P r) (trows T)"
  "next_id (delete_where P T) = next_id T"
  "trows empty_table = []" "next_id empty_table = 1"
  by (simp_all add: insert_row_def update_where_def delete_where_def empty_table_def)

lemma rows_matching_pos: "0 < rows_matching P T \<longleftrightarrow> (\<exists>r \<in> set (trows T). P r)"
  by (auto simp: rows_matching_def select_where_def filter_empty_conv)

lemma rows_matching_none: "rows_matching P T = 0 \<longleftrightarrow> (\<forall>r \<in> set (trows T). \<not> P r)"
  by (auto simp: rows_matching_def select_where_def filter_empty_conv)

lemma update_where_none: "(\<And>r. r \<in> set (trows T) \<Longrightarrow> \<not> P r) \<Longrightarrow> update_where P f T = T"
  by (simp add: update_where_def map_idI)

section \<open>Rows by primary key\<close>

definition row_by :: "('r \<Rightarrow> int) \<Rightarrow> 'r table \<Rightarrow> int \<Rightarrow> 'r option" where
  "row_by key T i = find (\<lambda>r. key r = i) (trows T)"

text \<open>The primary key is unique, and the sequence is ahead of all keys.\<close>

definition keyed :: "('r \<Rightarrow> int) \<Rightarrow> 'r table \<Rightarrow> bool" where
  "keyed key T \<longleftrightarrow> distinct (map key (trows T)) \<and> (\<forall>r \<in> set (trows T). 0 < key r \<and> key r < next_id T)
     \<and> 0 < next_id T"

lemma find_SomeD: "find P xs = Some x \<Longrightarrow> x \<in> set xs \<and> P x"
  by (auto simp: find_Some_iff)

lemma find_append: "find P (xs @ ys) = (case find P xs of None \<Rightarrow> find P ys | Some x \<Rightarrow> Some x)"
  by (induction xs) auto

lemma row_by_update:
  assumes "\<And>r. key (f r) = key r"
  shows "row_by key (update_where P f T) i = map_option (\<lambda>r. if P r then f r else r) (row_by key T i)"
proof -
  have "find (\<lambda>r. key r = i) (map (\<lambda>r. if P r then f r else r) rs) =
      map_option (\<lambda>r. if P r then f r else r) (find (\<lambda>r. key r = i) rs)" for rs
    using assms by (induction rs) auto
  then show ?thesis by (simp add: row_by_def)
qed

lemma row_by_Some: "row_by key T i = Some r \<Longrightarrow> r \<in> set (trows T) \<and> key r = i"
  by (auto simp: row_by_def find_Some_iff)

lemma row_by_None: "row_by key T i = None \<longleftrightarrow> i \<notin> key ` set (trows T)"
  by (auto simp: row_by_def find_None_iff)

lemma row_by_mem:
  assumes "keyed key T" "r \<in> set (trows T)"
  shows "row_by key T (key r) = Some r"
proof -
  have "distinct (map key rs) \<Longrightarrow> r \<in> set rs \<Longrightarrow> find (\<lambda>x. key x = key r) rs = Some r" for rs
    by (induction rs) (auto simp: rev_image_eqI)
  with assms show ?thesis by (simp add: row_by_def keyed_def)
qed

lemma row_by_insert:
  assumes "keyed key T" "key (r (next_id T)) = next_id T"
  shows "row_by key (insert_row r T) i = (if i = next_id T then Some (r (next_id T)) else row_by key T i)"
proof -
  have "row_by key T (next_id T) = None" using assms(1) by (auto simp: row_by_None keyed_def)
  with assms(2) show ?thesis by (auto simp: row_by_def find_append split: option.splits)
qed

lemma row_by_delete:
  assumes "keyed key T"
  shows "row_by key (delete_where P T) i = (case row_by key T i of None \<Rightarrow> None | Some r \<Rightarrow> if P r then None else Some r)"
proof -
  have "distinct (map key rs) \<Longrightarrow> find (\<lambda>r. key r = i) (filter (\<lambda>r. \<not> P r) rs) =
      (case find (\<lambda>r. key r = i) rs of None \<Rightarrow> None | Some r \<Rightarrow> if P r then None else Some r)" for rs
    by (induction rs) (auto simp: find_None_iff split: option.splits dest!: find_SomeD)
  with assms show ?thesis by (simp add: row_by_def keyed_def)
qed

lemma matching_key:
  assumes "keyed key T"
  shows "0 < rows_matching (\<lambda>r. key r = i \<and> Q r) T \<longleftrightarrow> (\<exists>r. row_by key T i = Some r \<and> Q r)"
proof
  assume "0 < rows_matching (\<lambda>r. key r = i \<and> Q r) T"
  then obtain r where "r \<in> set (trows T)" "key r = i" "Q r" by (auto simp: rows_matching_pos)
  with row_by_mem [OF assms, of r] show "\<exists>r. row_by key T i = Some r \<and> Q r" by auto
next
  assume "\<exists>r. row_by key T i = Some r \<and> Q r"
  then show "0 < rows_matching (\<lambda>r. key r = i \<and> Q r) T" by (auto simp: rows_matching_pos dest: row_by_Some)
qed

lemma keyed_update:
  assumes "keyed key T" "\<And>r. key (f r) = key r"
  shows "keyed key (update_where P f T)"
proof -
  have "map key (map (\<lambda>r. if P r then f r else r) (trows T)) = map key (trows T)"
    using assms(2) by simp
  with assms show ?thesis by (auto simp del: map_map simp: keyed_def)
qed

lemma keyed_delete: "keyed key T \<Longrightarrow> keyed key (delete_where P T)"
  by (auto simp: keyed_def distinct_map_filter)

lemma keyed_insert: "keyed key T \<Longrightarrow> key (r (next_id T)) = next_id T \<Longrightarrow> keyed key (insert_row r T)"
  by (auto simp: keyed_def)

lemma keyed_empty: "keyed key empty_table"
  by (simp add: keyed_def)

lemmas keyed_rules = keyed_update keyed_delete keyed_insert keyed_empty

section \<open>Cursors\<close>

text \<open>\<^verbatim>\<open>sql.Rows\<close>: the rows still to come and the row \<^verbatim>\<open>Next\<close> has stopped at.\<close>

record 'r cursor =
  ahead :: "'r list"
  current :: "'r option"

definition query :: "'r list \<Rightarrow> 'r cursor" where
  "query rs = \<lparr>ahead = rs, current = None\<rparr>"

definition rows_Next :: "'r cursor \<Rightarrow> bool \<times> 'r cursor" where
  "rows_Next c =
     (case ahead c of
        [] \<Rightarrow> (False, c\<lparr>current := None\<rparr>)
      | r # rs \<Rightarrow> (True, \<lparr>ahead = rs, current = Some r\<rparr>))"

definition rows_Scan :: "('r \<Rightarrow> 'a result) \<Rightarrow> 'r cursor \<Rightarrow> 'a result" where
  "rows_Scan scan c =
     (case current c of
        None \<Rightarrow> Inl ''sql: Scan called without calling Next''
      | Some r \<Rightarrow> scan r)"

text \<open>The loop \<^verbatim>\<open>for rows.Next() { x, err := scan; if err != nil { continue }; xs = append(xs, x) }\<close>.\<close>

function collect :: "('r \<Rightarrow> 'a result) \<Rightarrow> 'r cursor \<Rightarrow> 'a list \<Rightarrow> 'a list" where
  "collect scan c acc =
     (case rows_Next c of
        (False, _) \<Rightarrow> acc
      | (True, c') \<Rightarrow>
          (case rows_Scan scan c' of
             Inl _ \<Rightarrow> collect scan c' acc
           | Inr x \<Rightarrow> collect scan c' (acc @ [x])))"
  by pat_completeness auto
termination
  by (relation "measure (\<lambda>(scan, c, acc). length (ahead c))")
     (auto simp: rows_Next_def split: list.splits)

declare collect.simps [simp del]

fun oks :: "'a result list \<Rightarrow> 'a list" where
  "oks [] = []"
| "oks (Inl e # rs) = oks rs"
| "oks (Inr x # rs) = x # oks rs"

lemma oks_Inr [simp]: "oks (map (\<lambda>r. Inr (f r)) rs) = map f rs"
  by (induction rs) auto

lemma collect_ahead: "collect scan \<lparr>ahead = rs, current = c\<rparr> acc = acc @ oks (map scan rs)"
proof (induction rs arbitrary: c acc)
  case Nil
  then show ?case by (subst collect.simps) (simp add: rows_Next_def)
next
  case (Cons r rs)
  then show ?case
    by (subst collect.simps) (cases "scan r"; simp add: rows_Next_def rows_Scan_def)
qed

lemma collect_query: "collect scan (query rs) [] = oks (map scan rs)"
  by (simp add: query_def collect_ahead)

lemma Scan_before_Next: "rows_Scan scan (query rs) = Inl ''sql: Scan called without calling Next''"
  by (simp add: rows_Scan_def query_def)

text \<open>\<^verbatim>\<open>QueryRowContext(...).Scan(...)\<close>: the first row, or \<^verbatim>\<open>sql.ErrNoRows\<close>.\<close>

definition ErrNoRows :: string where "ErrNoRows = ''sql: no rows in result set''"

fun query_row :: "'r list \<Rightarrow> 'r result" where
  "query_row [] = Inl ErrNoRows"
| "query_row (r # rs) = Inr r"

section \<open>Paging\<close>

text \<open>\<^verbatim>\<open>LIMIT\<close> and \<^verbatim>\<open>OFFSET\<close> with negative values are errors of the statement.\<close>

definition limit_offset :: "int \<Rightarrow> int \<Rightarrow> 'r list \<Rightarrow> 'r list result" where
  "limit_offset limit off rs =
     (if off < 0 then Inl ''pq: OFFSET must not be negative''
      else if limit < 0 then Inl ''pq: LIMIT must not be negative''
      else Inr (take (nat limit) (drop (nat off) rs)))"

text \<open>\<^verbatim>\<open>ORDER BY\<close> leaves the order of rows with equal keys open, and each statement may choose another one. A query takes the order the
  server gives its rows as an argument: any function that sorts by the key.\<close>

type_synonym 'r row_order = "'r list \<Rightarrow> 'r list"

definition orders_by :: "('r \<Rightarrow> 'k::linorder) \<Rightarrow> 'r row_order \<Rightarrow> bool" where
  "orders_by key srt \<longleftrightarrow> (\<forall>rs. mset (srt rs) = mset rs \<and> sorted (map key (srt rs)))"

lemma orders_by_sort_key: "orders_by key (sort_key key)"
  by (simp add: orders_by_def)

lemma orders_by_simps:
  assumes "orders_by key srt"
  shows "set (srt rs) = set rs" "length (srt rs) = length rs"
  using assms by (auto simp: orders_by_def dest: mset_eq_setD mset_eq_length)

text \<open>The keys come out the same in every order, and the rows too when no two of them have the same key.\<close>

lemma orders_by_keys: "orders_by key srt \<Longrightarrow> map key (srt rs) = sort (map key rs)"
  by (rule properties_for_sort [symmetric]) (auto simp: orders_by_def)

lemma orders_by_distinct:
  assumes "orders_by key srt" "distinct (map key rs)"
  shows "srt rs = sort_key key rs"
proof (rule properties_for_sort_key [symmetric])
  show "mset (srt rs) = mset rs" "sorted (map key (srt rs))" using assms(1) by (simp_all add: orders_by_def)
  have d: "distinct (map key (srt rs))"
    using assms by (metis orders_by_keys distinct_sort)
  show "filter (\<lambda>y. key k = key y) (srt rs) = filter (\<lambda>x. key k = key x) rs" if "k \<in> set (srt rs)" for k
  proof -
    have one: "distinct (map key xs) \<Longrightarrow> k \<in> set xs \<Longrightarrow> filter (\<lambda>y. key k = key y) xs = [k]" for xs
      by (induction xs) (auto simp: filter_empty_conv rev_image_eqI)
    show ?thesis using one [OF d that] one [OF assms(2)] that orders_by_simps(1) [OF assms(1)] by auto
  qed
qed

text \<open>\<^verbatim>\<open>int(math.Ceil(float64(total) / float64(size)))\<close>. For totals below 2 ^ 53 the rounding of the
  division does not reach the next integer, so the result is the quotient rounded up. With page size 0
  the quotient is an infinity or no number, and the conversion gives the least integer (amd64).\<close>

definition total_pages :: "int \<Rightarrow> int \<Rightarrow> int" where
  "total_pages items psize = (if psize = 0 then min_int else - ((- items) div psize))"

lemma total_pages_le: "0 < psize \<Longrightarrow> total_pages items psize \<le> n \<longleftrightarrow> items \<le> n * psize"
proof -
  assume s: "0 < psize"
  have "total_pages items psize \<le> n \<longleftrightarrow> - n \<le> (- items) div psize"
    using s by (auto simp: total_pages_def)
  also have "\<dots> \<longleftrightarrow> - n * psize \<le> - items"
  proof
    assume "- n \<le> (- items) div psize"
    then have "- n * psize \<le> (- items) div psize * psize" using s by (intro mult_right_mono) auto
    also have "\<dots> \<le> - items" using s div_mult_mod_eq [of "- items" psize] pos_mod_sign [OF s, of "- items"] by linarith
    finally show "- n * psize \<le> - items" .
  next
    assume "- n * psize \<le> - items"
    from zdiv_mono1 [OF this s] have "(- n * psize) div psize \<le> (- items) div psize" .
    moreover have "(- n * psize) div psize = - n" using s by (intro nonzero_mult_div_cancel_right) simp
    ultimately show "- n \<le> (- items) div psize" by simp
  qed
  finally show ?thesis by auto
qed

lemma total_pages_nonneg: "0 < psize \<Longrightarrow> 0 \<le> items \<Longrightarrow> 0 \<le> total_pages items psize"
  using total_pages_le [of psize items "-1"] by (smt (verit) mult_minus1)

text \<open>The offset of an existing page does not overflow.\<close>

lemma page_offset:
  assumes "0 < psize" "1 \<le> p" "p \<le> total_pages items psize" "items \<le> max_int"
  shows "wrap64 ((p - 1) * psize) = (p - 1) * psize \<and> 0 \<le> (p - 1) * psize"
proof -
  have "(p - 1) * psize < items" using total_pages_le [OF assms(1), of items "p - 1"] assms(3) by linarith
  moreover have "0 \<le> (p - 1) * psize" using assms(1,2) by simp
  ultimately show ?thesis using assms(4) wrap64_id [of "(p - 1) * psize"] by (simp add: min_int_def)
qed

lemma take_drop_concat:
  "concat (map (\<lambda>k. take n (drop (k * n) xs)) [0..<m]) = take (m * n) xs"
  by (induction m) (simp_all add: take_add [symmetric] add.commute)

lemma upto_from_1: "[1..int m] = map (\<lambda>k. int k + 1) [0..<m]"
  by (induction m) (simp_all add: upto_rec2)

text \<open>The pages of a list, in their order, make up the list.\<close>

lemma pages_concat:
  assumes "0 < psize" "int (length xs) \<le> max_int"
    and "\<And>p. 1 \<le> p \<Longrightarrow> p \<le> total_pages (int (length xs)) psize \<Longrightarrow>
      F p = map g (take (nat psize) (drop (nat (wrap64 ((p - 1) * psize))) xs))"
  shows "concat (map F [1..total_pages (int (length xs)) psize]) = map g xs"
proof -
  let ?n = "total_pages (int (length xs)) psize"
  define m where "m = nat ?n"
  have n: "?n = int m" using total_pages_nonneg [OF assms(1), of "int (length xs)"] by (simp add: m_def)
  have "F (int k + 1) = map g (take (nat psize) (drop (k * nat psize) xs))" if k: "k < m" for k
  proof -
    have "wrap64 (int k * psize) = int k * psize" using page_offset [OF assms(1), of "int k + 1" "int (length xs)"] assms(2) n k by simp
    moreover have "nat (int k * psize) = k * nat psize" using assms(1) by (simp add: nat_mult_distrib)
    ultimately show ?thesis using assms(3) [of "int k + 1"] n k by simp
  qed
  then have "map F [1..?n] = map (\<lambda>k. map g (take (nat psize) (drop (k * nat psize) xs))) [0..<m]"
    unfolding n upto_from_1 by simp
  then have "concat (map F [1..?n]) = map g (concat (map (\<lambda>k. take (nat psize) (drop (k * nat psize) xs)) [0..<m]))"
    by (simp add: map_concat comp_def)
  also have "\<dots> = map g (take (m * nat psize) xs)" by (simp only: take_drop_concat)
  also have "length xs \<le> m * nat psize"
  proof -
    have "int (length xs) \<le> int m * psize" using total_pages_le [OF assms(1)] n by (metis order_refl)
    also have "\<dots> = int (m * nat psize)" using assms(1) by simp
    finally show ?thesis by (simp only: of_nat_le_iff)
  qed
  then have "take (m * nat psize) xs = xs" by simp
  finally show ?thesis .
qed

section \<open>Grouped counts\<close>

text \<open>\<^verbatim>\<open>SELECT k, COUNT(*) ... GROUP BY k\<close>: one row per key, in an order SQL leaves open (here the
  order of last occurrence).\<close>

definition group_counts :: "('r \<Rightarrow> 'k) \<Rightarrow> 'r table \<Rightarrow> ('k \<times> int) list" where
  "group_counts key T =
     map (\<lambda>k. (k, rows_matching (\<lambda>r. key r = k) T)) (remdups (map key (trows T)))"

text \<open>The loop that reads the groups into a map, and the loop that adds 0 for the keys it lacks.\<close>

fun read_counts :: "('k \<times> int) list \<Rightarrow> ('k \<rightharpoonup> int) \<Rightarrow> ('k \<rightharpoonup> int)" where
  "read_counts [] m = m"
| "read_counts ((k, n) # kns) m = read_counts kns (m(k \<mapsto> n))"

fun add_missing :: "'k list \<Rightarrow> ('k \<rightharpoonup> int) \<Rightarrow> ('k \<rightharpoonup> int)" where
  "add_missing [] m = m"
| "add_missing (k # ks) m = add_missing ks (if m k = None then m(k \<mapsto> 0) else m)"

lemma read_counts_map:
  "read_counts (map (\<lambda>k. (k, f k)) ks) m = (\<lambda>k. if k \<in> set ks then Some (f k) else m k)"
  by (induction ks arbitrary: m) (auto simp: fun_eq_iff)

lemma add_missing_apply:
  "add_missing ks m k = (if m k = None \<and> k \<in> set ks then Some 0 else m k)"
  by (induction ks arbitrary: m) auto

lemma grouped_counts:
  "add_missing ks (read_counts (group_counts key T) Map.empty) k =
     (if k \<in> set ks \<or> (\<exists>r \<in> set (trows T). key r = k)
      then Some (rows_matching (\<lambda>r. key r = k) T) else None)"
proof (cases "\<exists>r \<in> set (trows T). key r = k")
  case True
  then have "k \<in> key ` set (trows T)" by blast
  with True show ?thesis by (simp add: add_missing_apply group_counts_def read_counts_map)
next
  case False
  then have "rows_matching (\<lambda>r. key r = k) T = 0" "k \<notin> key ` set (trows T)"
    by (auto simp: rows_matching_none)
  with False show ?thesis by (simp add: add_missing_apply group_counts_def read_counts_map)
qed

lemma sum_grouped:
  assumes "set (map key (trows T)) \<subseteq> set ks" "distinct ks"
  shows "(\<Sum>k \<leftarrow> ks. rows_matching (\<lambda>r. key r = k) T) = int (length (trows T))"
proof -
  have "(\<Sum>k \<leftarrow> ks. int (length (filter (\<lambda>r. key r = k) rs))) = int (length rs)"
    if "set (map key rs) \<subseteq> set ks" for rs
    using that
  proof (induction rs)
    case (Cons r rs)
    have "(\<Sum>k \<leftarrow> ks. int (length (filter (\<lambda>r. key r = k) (r # rs))))
        = (\<Sum>k \<leftarrow> ks. (if key r = k then 1 else 0) + int (length (filter (\<lambda>r. key r = k) rs)))"
      by (intro arg_cong [where f = sum_list] map_cong) auto
    also have "\<dots> = (\<Sum>k \<leftarrow> ks. if key r = k then 1 else 0) + int (length rs)"
      using Cons by (simp add: sum_list_addf)
    also have "(\<Sum>k \<leftarrow> ks. if key r = k then 1 else (0::int)) = 1"
      using Cons.prems assms(2) by (simp add: sum_list_distinct_conv_sum_set)
    finally show ?case by simp
  qed simp
  with assms(1) show ?thesis by (simp add: rows_matching_def select_where_def)
qed

section \<open>The connection pool\<close>

text \<open>A handle to the database. After \<^verbatim>\<open>Close\<close> every statement fails.\<close>

record handle =
  pool_closed :: bool

definition Close_handle :: "handle \<Rightarrow> handle" where
  "Close_handle h = h\<lparr>pool_closed := True\<rparr>"

definition stmt_fault :: "handle \<Rightarrow> fault \<Rightarrow> fault" where
  "stmt_fault h flt = (if pool_closed h then Some ''sql: database is closed'' else flt)"

end
