(* ===== verification/JobLock.thy ===== *)
theory JobLock
  imports GoSql JobState
begin

text \<open>
  The contract by which worker instances share the jobs of a store: \<^verbatim>\<open>LockJob\<close> is one statement that
  moves a job whose status allows it to \<^verbatim>\<open>processing\<close> and tells the caller whether it did. What the
  instances rely on is that, of all who try, one at most succeeds. Both stores provide it.
\<close>

type_synonym lock_request = "string option \<times> int \<times> string"

text \<open>A sequence of requests for one job, each with the failure of its statement, the time and the
  instance; the result tells for each request whether the lock was obtained.\<close>

fun run_locks ::
  "(string option \<Rightarrow> int \<Rightarrow> int \<Rightarrow> string \<Rightarrow> 'db \<Rightarrow> bool result \<times> 'db) \<Rightarrow> int \<Rightarrow> lock_request list
   \<Rightarrow> 'db \<Rightarrow> bool list" where
  "run_locks lock i [] db = []"
| "run_locks lock i ((flt, now, who) # reqs) db =
     (case lock flt now i who db of (r, db') \<Rightarrow> (r = Inr True) # run_locks lock i reqs db')"

definition winners :: "bool list \<Rightarrow> nat" where
  "winners bs = length (filter id bs)"

locale job_lock =
  fixes lock :: "string option \<Rightarrow> int \<Rightarrow> int \<Rightarrow> string \<Rightarrow> 'db \<Rightarrow> bool result \<times> 'db"
    and status_of :: "'db \<Rightarrow> int \<Rightarrow> JobStatus option"
    and lockable :: "JobStatus \<Rightarrow> bool"
    and inv :: "'db \<Rightarrow> bool"
  assumes lock_wins: "inv db \<Longrightarrow> fst (lock flt now i who db) = Inr True \<longleftrightarrow>
      flt = None \<and> (\<exists>s. status_of db i = Some s \<and> lockable s)"
    and lock_status: "inv db \<Longrightarrow> status_of (snd (lock flt now i who db)) j =
      (if fst (lock flt now i who db) = Inr True \<and> j = i then Some StatusProcessing else status_of db j)"
    and lock_inv: "inv db \<Longrightarrow> inv (snd (lock flt now i who db))"
    and processing_held: "\<not> lockable StatusProcessing"
begin

lemma no_winner:
  assumes "inv db" "\<And>s. status_of db i = Some s \<Longrightarrow> \<not> lockable s"
  shows "winners (run_locks lock i reqs db) = 0"
  using assms
proof (induction reqs arbitrary: db)
  case (Cons req reqs)
  obtain flt now who where req: "req = (flt, now, who)" by (cases req) auto
  let ?r = "lock flt now i who db"
  have lost: "fst ?r \<noteq> Inr True" using Cons.prems lock_wins by auto
  have "winners (run_locks lock i reqs (snd ?r)) = 0"
    using Cons.prems lost by (intro Cons.IH) (simp_all add: lock_inv lock_status)
  with lost show ?case by (simp add: req winners_def case_prod_beta)
qed (simp add: winners_def)

lemma winners_le_1: "inv db \<Longrightarrow> winners (run_locks lock i reqs db) \<le> 1"
proof (induction reqs arbitrary: db)
  case (Cons req reqs)
  obtain flt now who where req: "req = (flt, now, who)" by (cases req) auto
  let ?r = "lock flt now i who db"
  show ?case
  proof (cases "fst ?r = Inr True")
    case True
    have "winners (run_locks lock i reqs (snd ?r)) = 0"
      using Cons.prems True processing_held by (intro no_winner) (simp_all add: lock_inv lock_status)
    with True show ?thesis by (simp add: req winners_def case_prod_beta)
  next
    case False
    have "winners (run_locks lock i reqs (snd ?r)) \<le> 1" using Cons.prems by (intro Cons.IH lock_inv)
    with False show ?thesis by (simp add: req winners_def case_prod_beta)
  qed
qed (simp add: winners_def)

lemma one_winner:
  assumes "inv db" "status_of db i = Some s" "lockable s" "\<exists>req \<in> set reqs. fst req = None"
  shows "winners (run_locks lock i reqs db) = 1"
  using assms
proof (induction reqs arbitrary: db)
  case (Cons req reqs)
  obtain flt now who where req: "req = (flt, now, who)" by (cases req) auto
  let ?r = "lock flt now i who db"
  show ?case
  proof (cases "fst ?r = Inr True")
    case True
    have "winners (run_locks lock i reqs (snd ?r)) = 0"
      using Cons.prems True processing_held by (intro no_winner) (simp_all add: lock_inv lock_status)
    with True show ?thesis by (simp add: req winners_def case_prod_beta)
  next
    case False
    then have "flt \<noteq> None" using Cons.prems(1-3) lock_wins [of db flt now i who] by auto
    then have "winners (run_locks lock i reqs (snd ?r)) = 1"
      using Cons.prems False req by (intro Cons.IH) (auto simp: lock_inv lock_status)
    with False show ?thesis by (simp add: req winners_def case_prod_beta)
  qed
qed simp

lemma all_fail: "inv db \<Longrightarrow> \<forall>req \<in> set reqs. fst req \<noteq> None \<Longrightarrow> winners (run_locks lock i reqs db) = 0"
proof (induction reqs arbitrary: db)
  case (Cons req reqs)
  obtain flt now who where req: "req = (flt, now, who)" by (cases req) auto
  have "fst (lock flt now i who db) \<noteq> Inr True" using Cons.prems req lock_wins by auto
  moreover have "winners (run_locks lock i reqs (snd (lock flt now i who db))) = 0"
    using Cons.prems by (intro Cons.IH lock_inv) auto
  ultimately show ?case by (simp add: req winners_def case_prod_beta)
qed (simp add: winners_def)

lemma winners_exact:
  assumes "inv db"
  shows "winners (run_locks lock i reqs db) =
    (if (\<exists>s. status_of db i = Some s \<and> lockable s) \<and> (\<exists>req \<in> set reqs. fst req = None) then 1 else 0)"
  using assms one_winner [of db i _ reqs] no_winner [of db i reqs] all_fail [of db reqs i] by auto

end

end
