(* ===== verification/EnqueuedStore.thy ===== *)
theory EnqueuedStore
  imports GoSql GoConv JobTypes JobLock
begin

text \<open>
  The store of one-off jobs (\<^verbatim>\<open>internal/store/postgres/postgres_enqueued_job_store.go\<close>) on the table
  \<^verbatim>\<open>gofire_schema.enqueued_jobs\<close>. One definition per method; the SQL statements are the row
  predicates and row updates they contain. \<open>now\<close> is the value of \<^verbatim>\<open>NOW()\<close> for the statement, the
  arguments of type \<^typ>\<open>fault\<close> are the failures of the statements in their order. Rows with the
  same sort key come in table order. The values a failing \<^verbatim>\<open>INSERT\<close> takes from the sequence are not
  accounted for.
\<close>

section \<open>Rows\<close>

record enqueued_row =
  er_id :: int
  er_name :: string
  er_payload :: json
  er_status :: JobStatus
  er_attempts :: int
  er_max_attempts :: int
  er_scheduled_at :: timestamp
  er_executed_at :: "timestamp option"
  er_last_error :: "string option"
  er_locked_by :: "string option"
  er_locked_at :: "timestamp option"
  er_created_at :: timestamp

type_synonym enqueued_table = "enqueued_row table"

text \<open>The columns an \<^verbatim>\<open>INSERT\<close> leaves out take their defaults.\<close>

definition new_enqueued_row :: "timestamp \<Rightarrow> string \<Rightarrow> json \<Rightarrow> timestamp \<Rightarrow> int \<Rightarrow> int \<Rightarrow> enqueued_row" where
  "new_enqueued_row now name payload due max_attempts i =
     \<lparr>er_id = i, er_name = name, er_payload = payload, er_status = ''queued'', er_attempts = 0,
      er_max_attempts = max_attempts, er_scheduled_at = due, er_executed_at = None,
      er_last_error = None, er_locked_by = None, er_locked_at = None, er_created_at = now\<rparr>"

text \<open>\<^verbatim>\<open>executed_at\<close> is selected twice, once for \<^verbatim>\<open>FinishedAt\<close>.\<close>

definition mapSqlRowsToJob :: "enqueued_row \<Rightarrow> EnqueuedJob result" where
  "mapSqlRowsToJob r = Inr
     \<lparr>ej_ID = er_id r, ej_Name = er_name r, ej_Payload = er_payload r, ej_Status = er_status r,
      ej_Attempts = er_attempts r, ej_MaxAttempts = er_max_attempts r,
      ej_ScheduledAt = er_scheduled_at r, ej_ExecutedAt = er_executed_at r,
      ej_FinishedAt = er_executed_at r, ej_LastError = er_last_error r,
      ej_LockedBy = er_locked_by r, ej_LockedAt = er_locked_at r, ej_CreatedAt = er_created_at r\<rparr>"

section \<open>Operations\<close>

definition Insert ::
  "fault \<Rightarrow> timestamp \<Rightarrow> string \<Rightarrow> timestamp \<Rightarrow> any list \<Rightarrow> enqueued_table \<Rightarrow> (int \<times> fault) \<times> enqueued_table" where
  "Insert flt now jobName enqueueAt args T =
     (case Marshal_args args of
        Inl e \<Rightarrow> ((-1, Some e), T)
      | Inr payload \<Rightarrow>
          (case flt of
             Some e \<Rightarrow> ((0, Some e), T)
           | None \<Rightarrow> ((next_id T, None),
               insert_row (new_enqueued_row now jobName payload enqueueAt MaxRetryAttempt) T)))"

text \<open>The rows are scanned without \<^verbatim>\<open>Next\<close>. When the query fails the rows are a nil pointer, and
  scanning them panics.\<close>

definition FindByID :: "fault \<Rightarrow> int \<Rightarrow> enqueued_table \<Rightarrow> EnqueuedJob result outcome" where
  "FindByID flt i T =
     (case flt of
        Some _ \<Rightarrow> Panics ''runtime error: invalid memory address or nil pointer dereference''
      | None \<Rightarrow>
          (case rows_Scan mapSqlRowsToJob (query (select_where (\<lambda>r. er_id r = i) T)) of
             Inl e \<Rightarrow> Returns (Inl (''job with ID '' @ Itoa i @ '' not found: '' @ e))
           | Inr job \<Rightarrow> Returns (Inr job)))"

definition RemoveByID :: "fault \<Rightarrow> int \<Rightarrow> enqueued_table \<Rightarrow> fault \<times> enqueued_table" where
  "RemoveByID flt jobID T =
     (case exec_delete flt (\<lambda>r. er_id r = jobID) T of
        (Inl e, T') \<Rightarrow> (Some (''failed to delete job '' @ Itoa jobID @ '': '' @ e), T')
      | (Inr rowsAffected, T') \<Rightarrow>
          (if rowsAffected = 0 then (Some (''no job found with id '' @ Itoa jobID), T') else (None, T')))"

text \<open>The \<^verbatim>\<open>WHERE\<close> clause \<^verbatim>\<open>FetchDueJobs\<close> builds; the lock TTL is 60 minutes. The rows are ordered by
  \<^verbatim>\<open>scheduled_at\<close>, which is not unique.\<close>

definition due_where :: "timestamp \<Rightarrow> JobStatus list \<Rightarrow> timestamp option \<Rightarrow> enqueued_row \<Rightarrow> bool" where
  "due_where now statuses scheduledBefore r \<longleftrightarrow>
     (case scheduledBefore of None \<Rightarrow> True | Some t \<Rightarrow> er_scheduled_at r \<le> t)
     \<and> (statuses \<noteq> [] \<longrightarrow> er_status r \<in> set statuses)
     \<and> (er_status r \<noteq> ''processing''
        \<or> (case er_locked_at r of None \<Rightarrow> False | Some l \<Rightarrow> l < now - 60 * minute_ns))"

definition FetchDueJobs ::
  "fault \<Rightarrow> fault \<Rightarrow> enqueued_row row_order \<Rightarrow> timestamp \<Rightarrow> int \<Rightarrow> int \<Rightarrow> JobStatus list \<Rightarrow> timestamp option \<Rightarrow> enqueued_table
   \<Rightarrow> EnqueuedJob PaginationResult result" where
  "FetchDueJobs flt1 flt2 srt now page0 pageSize statuses scheduledBefore T =
     (let page = if page0 < 1 then 1 else page0;
          offset = wrap64 ((page - 1) * pageSize);
          P = due_where now statuses scheduledBefore
      in case flt1 of
           Some e \<Rightarrow> Inl e
         | None \<Rightarrow>
             (let totalItems = rows_matching P T in
              case (case flt2 of
                      Some e \<Rightarrow> Inl e
                    | None \<Rightarrow> limit_offset pageSize offset (srt (select_where P T))) of
                Inl e \<Rightarrow> Inl e
              | Inr rs \<Rightarrow>
                  (let totalPages = total_pages totalItems pageSize in
                   Inr \<lparr>Items = collect mapSqlRowsToJob (query rs) [], TotalItems = totalItems,
                        Page = page, PageSize = pageSize, TotalPages = totalPages,
                        HasNextPage = page < totalPages, HasPreviousPage = page > 1\<rparr>)))"

definition MarkRetryFailedJobs :: "fault \<Rightarrow> timestamp \<Rightarrow> enqueued_table \<Rightarrow> fault \<times> enqueued_table" where
  "MarkRetryFailedJobs flt now T =
     (case exec_update flt
             (\<lambda>r. er_status r = StatusFailed \<and> er_attempts r < er_max_attempts r)
             (\<lambda>r. r\<lparr>er_status := StatusRetrying, er_scheduled_at := now + minute_ns\<rparr>) T of
        (res, T') \<Rightarrow> (err_of res, T'))"

definition LockJob ::
  "fault \<Rightarrow> timestamp \<Rightarrow> int \<Rightarrow> string \<Rightarrow> enqueued_table \<Rightarrow> bool result \<times> enqueued_table" where
  "LockJob flt now jobID lockedBy T =
     (case exec_update flt
             (\<lambda>r. er_id r = jobID \<and> (er_status r = StatusQueued \<or> er_status r = StatusRetrying))
             (\<lambda>r. r\<lparr>er_locked_at := Some now, er_executed_at := Some now,
                    er_locked_by := Some lockedBy, er_status := StatusProcessing\<rparr>) T of
        (Inl e, T') \<Rightarrow> (Inl e, T')
      | (Inr affected, T') \<Rightarrow> (Inr (affected > 0), T'))"

definition MarkSuccess :: "fault \<Rightarrow> timestamp \<Rightarrow> int \<Rightarrow> enqueued_table \<Rightarrow> fault \<times> enqueued_table" where
  "MarkSuccess flt now jobID T =
     (case exec_update flt (\<lambda>r. er_id r = jobID)
             (\<lambda>r. r\<lparr>er_status := ''succeeded'', er_executed_at := Some now\<rparr>) T of
        (res, T') \<Rightarrow> (err_of res, T'))"

definition MarkFailure ::
  "fault \<Rightarrow> int \<Rightarrow> string \<Rightarrow> int \<Rightarrow> int \<Rightarrow> enqueued_table \<Rightarrow> fault \<times> enqueued_table" where
  "MarkFailure flt jobID errMsg attempts maxAttempts T =
     (let status = if attempts \<ge> MaxRetryAttempt then StatusDead else StatusFailed in
      case exec_update flt (\<lambda>r. er_id r = jobID)
             (\<lambda>r. r\<lparr>er_attempts := er_attempts r + 1, er_last_error := Some errMsg, er_status := status\<rparr>) T of
        (res, T') \<Rightarrow> (err_of res, T'))"

text \<open>The parameter \<^verbatim>\<open>timeout\<close> does not occur in the statement.\<close>

definition UnlockStaleJobs :: "fault \<Rightarrow> timestamp \<Rightarrow> int \<Rightarrow> enqueued_table \<Rightarrow> fault \<times> enqueued_table" where
  "UnlockStaleJobs flt now timeout T =
     (case exec_update flt
             (\<lambda>r. er_status r = StatusProcessing
                  \<and> (case er_locked_at r of None \<Rightarrow> False | Some l \<Rightarrow> l \<le> now))
             (\<lambda>r. r\<lparr>er_status := StatusQueued, er_locked_by := None, er_locked_at := None\<rparr>) T of
        (res, T') \<Rightarrow> (err_of res, T'))"

definition CountJobsByStatus :: "fault \<Rightarrow> JobStatus \<Rightarrow> enqueued_table \<Rightarrow> int \<times> fault" where
  "CountJobsByStatus flt status T =
     (case flt of Some e \<Rightarrow> (0, Some e) | None \<Rightarrow> (rows_matching (\<lambda>r. er_status r = status) T, None))"

definition CountAllJobsGroupedByStatus :: "fault \<Rightarrow> enqueued_table \<Rightarrow> (JobStatus \<rightharpoonup> int) result" where
  "CountAllJobsGroupedByStatus flt T =
     (case flt of
        Some e \<Rightarrow> Inl e
      | None \<Rightarrow> Inr (add_missing AllStatuses (read_counts (group_counts er_status T) Map.empty)))"

text \<open>\<^verbatim>\<open>BulkInsert\<close> builds one statement: a group of four placeholders per job and the list of the
  arguments they refer to by position (from 1). The row of a group is read through its placeholders.\<close>

datatype sql_arg = ArgText string | ArgJson json | ArgTime timestamp | ArgInt int

fun bulk_args :: "nat \<Rightarrow> Job list \<Rightarrow> (nat list list \<times> sql_arg list) result" where
  "bulk_args i [] = Inr ([], [])"
| "bulk_args i (job # batch) =
     (case Marshal_args (job_Args job) of
        Inl e \<Rightarrow> Inl (''failed to marshal job args at index '' @ Itoa (int i) @ '': '' @ e)
      | Inr payloadJSON \<Rightarrow>
          (let offset = i * 4 in
           bind_result (bulk_args (i + 1) batch) (\<lambda>(placeholders, args).
             Inr ([offset + 1, offset + 2, offset + 3, offset + 4] # placeholders,
                  [ArgText (job_Name job), ArgJson payloadJSON, ArgTime (instant (job_ScheduledAt job)),
                   ArgInt MaxRetryAttempt] @ args))))"

fun bulk_row :: "timestamp \<Rightarrow> sql_arg list \<Rightarrow> (int \<Rightarrow> enqueued_row) option" where
  "bulk_row now [ArgText name, ArgJson payload, ArgTime due, ArgInt m] = Some (new_enqueued_row now name payload due m)"
| "bulk_row now _ = None"

fun bulk_rows :: "timestamp \<Rightarrow> nat list list \<Rightarrow> sql_arg list \<Rightarrow> enqueued_table \<Rightarrow> enqueued_table option" where
  "bulk_rows now [] args T = Some T"
| "bulk_rows now (ph # phs) args T =
     (if (\<forall>k \<in> set ph. 1 \<le> k \<and> k \<le> length args)
      then (case bulk_row now (map (\<lambda>k. args ! (k - 1)) ph) of
              None \<Rightarrow> None
            | Some r \<Rightarrow> bulk_rows now phs args (insert_row r T))
      else None)"

definition BulkInsert :: "fault \<Rightarrow> timestamp \<Rightarrow> Job list \<Rightarrow> enqueued_table \<Rightarrow> fault \<times> enqueued_table" where
  "BulkInsert flt now batch T =
     (if batch = [] then (None, T)
      else case bulk_args 0 batch of
             Inl e \<Rightarrow> (Some e, T)
           | Inr (placeholders, args) \<Rightarrow>
               (case flt of
                  Some e \<Rightarrow> (Some (''bulk insert failed: '' @ e), T)
                | None \<Rightarrow>
                    (case bulk_rows now placeholders args T of
                       None \<Rightarrow> (Some ''bulk insert failed: pq: bind message does not fit the statement'', T)
                     | Some T' \<Rightarrow> (None, T'))))"

text \<open>\<^verbatim>\<open>Close\<close> closes the connection pool the stores share.\<close>

definition Enqueued_Close :: "fault \<Rightarrow> handle \<Rightarrow> fault \<times> handle" where
  "Enqueued_Close flt h = (flt, Close_handle h)"

section \<open>The invariant of the table\<close>

definition row_ok :: "enqueued_row \<Rightarrow> bool" where
  "row_ok r \<longleftrightarrow> er_status r \<in> set AllStatuses \<and> 0 \<le> er_attempts r \<and> er_max_attempts r = MaxRetryAttempt
     \<and> (er_status r = StatusProcessing \<longrightarrow> er_locked_at r \<noteq> None)"

definition enqueued_inv :: "enqueued_table \<Rightarrow> bool" where
  "enqueued_inv T \<longleftrightarrow> keyed er_id T \<and> (\<forall>r \<in> set (trows T). row_ok r)"

abbreviation row_of :: "enqueued_table \<Rightarrow> int \<Rightarrow> enqueued_row option" where
  "row_of \<equiv> row_by er_id"

definition status_of :: "enqueued_table \<Rightarrow> int \<Rightarrow> JobStatus option" where
  "status_of T i = map_option er_status (row_of T i)"

lemma inv_update:
  "enqueued_inv T \<Longrightarrow> (\<And>r. er_id (f r) = er_id r) \<Longrightarrow> (\<And>r. P r \<Longrightarrow> row_ok r \<Longrightarrow> row_ok (f r)) \<Longrightarrow>
   enqueued_inv (update_where P f T)"
  by (auto simp: enqueued_inv_def keyed_update)

lemma inv_delete: "enqueued_inv T \<Longrightarrow> enqueued_inv (delete_where P T)"
  by (auto simp: enqueued_inv_def keyed_delete)

lemma inv_insert:
  "enqueued_inv T \<Longrightarrow> enqueued_inv (insert_row (new_enqueued_row now name payload due MaxRetryAttempt) T)"
  by (auto simp: enqueued_inv_def new_enqueued_row_def row_ok_def AllStatuses_def status_defs MaxRetryAttempt_def
      intro!: keyed_insert)

lemma inv_empty: "enqueued_inv empty_table"
  by (simp add: enqueued_inv_def keyed_empty)

text \<open>The effect of each operation on the table, as an update of the rows.\<close>

lemma snd_exec_update: "snd (exec_update flt P f T) = (if flt = None then update_where P f T else T)"
  by (simp add: exec_update_def split: option.splits)

lemma snd_exec_delete: "snd (exec_delete flt P T) = (if flt = None then delete_where P T else T)"
  by (simp add: exec_delete_def split: option.splits)

lemma snd_MarkRetryFailedJobs: "snd (MarkRetryFailedJobs flt now T) =
    (if flt = None then update_where (\<lambda>r. er_status r = StatusFailed \<and> er_attempts r < er_max_attempts r)
       (\<lambda>r. r\<lparr>er_status := StatusRetrying, er_scheduled_at := now + minute_ns\<rparr>) T else T)"
  by (simp add: MarkRetryFailedJobs_def exec_update_def split: option.splits)

lemma LockJob_eq: "LockJob flt now i who T =
    (case flt of
       Some e \<Rightarrow> (Inl e, T)
     | None \<Rightarrow> (Inr (0 < rows_matching (\<lambda>r. er_id r = i \<and> (er_status r = StatusQueued \<or> er_status r = StatusRetrying)) T),
         update_where (\<lambda>r. er_id r = i \<and> (er_status r = StatusQueued \<or> er_status r = StatusRetrying))
           (\<lambda>r. r\<lparr>er_locked_at := Some now, er_executed_at := Some now,
                  er_locked_by := Some who, er_status := StatusProcessing\<rparr>) T))"
  by (simp add: LockJob_def exec_update_def split: option.splits)

lemma snd_MarkSuccess: "snd (MarkSuccess flt now i T) =
    (if flt = None then update_where (\<lambda>r. er_id r = i)
       (\<lambda>r. r\<lparr>er_status := ''succeeded'', er_executed_at := Some now\<rparr>) T else T)"
  by (simp add: MarkSuccess_def exec_update_def split: option.splits)

lemma snd_MarkFailure: "snd (MarkFailure flt i msg attempts m T) =
    (if flt = None then update_where (\<lambda>r. er_id r = i)
       (\<lambda>r. r\<lparr>er_attempts := er_attempts r + 1, er_last_error := Some msg,
              er_status := if attempts \<ge> MaxRetryAttempt then StatusDead else StatusFailed\<rparr>) T else T)"
  by (simp add: MarkFailure_def exec_update_def split: option.splits)

lemma snd_UnlockStaleJobs: "snd (UnlockStaleJobs flt now timeout T) =
    (if flt = None then update_where
       (\<lambda>r. er_status r = StatusProcessing \<and> (case er_locked_at r of None \<Rightarrow> False | Some l \<Rightarrow> l \<le> now))
       (\<lambda>r. r\<lparr>er_status := StatusQueued, er_locked_by := None, er_locked_at := None\<rparr>) T else T)"
  by (simp add: UnlockStaleJobs_def exec_update_def split: option.splits)

lemma snd_RemoveByID: "snd (RemoveByID flt i T) = (if flt = None then delete_where (\<lambda>r. er_id r = i) T else T)"
  by (simp add: RemoveByID_def exec_delete_def split: option.splits)

lemma snd_Insert: "snd (Insert flt now name due args T) =
    (case Marshal_args args of
       Inr payload \<Rightarrow> (if flt = None then insert_row (new_enqueued_row now name payload due MaxRetryAttempt) T else T)
     | Inl _ \<Rightarrow> T)"
  by (simp add: Insert_def split: option.splits sum.splits)

lemmas enqueued_effects = snd_MarkRetryFailedJobs snd_MarkSuccess snd_MarkFailure snd_UnlockStaleJobs
  snd_RemoveByID snd_Insert

section \<open>Locking\<close>

abbreviation enqueued_lockable :: "JobStatus \<Rightarrow> bool" where
  "enqueued_lockable s \<equiv> s = StatusQueued \<or> s = StatusRetrying"

lemma inv_LockJob: "enqueued_inv T \<Longrightarrow> enqueued_inv (snd (LockJob flt now i who T))"
  by (cases flt) (auto simp: LockJob_eq row_ok_def AllStatuses_def intro!: inv_update)

lemma LockJob_wins:
  "enqueued_inv T \<Longrightarrow> fst (LockJob flt now i who T) = Inr True \<longleftrightarrow>
     flt = None \<and> (\<exists>s. status_of T i = Some s \<and> enqueued_lockable s)"
  using matching_key [of er_id T i "\<lambda>r. enqueued_lockable (er_status r)"]
  by (auto simp: LockJob_eq status_of_def enqueued_inv_def split: option.splits)

lemma row_of_LockJob:
  assumes "enqueued_inv T"
  shows "row_of (snd (LockJob flt now i who T)) j =
    (if fst (LockJob flt now i who T) = Inr True \<and> j = i
     then map_option (\<lambda>r. r\<lparr>er_locked_at := Some now, er_executed_at := Some now,
            er_locked_by := Some who, er_status := StatusProcessing\<rparr>) (row_of T i)
     else row_of T j)"
proof (cases "row_of T j")
  case (Some r)
  then have "er_id r = j" by (auto dest: row_by_Some)
  with Some assms show ?thesis
    by (auto simp: LockJob_wins status_of_def) (auto simp: LockJob_eq row_by_update split: option.splits)
qed (auto simp: LockJob_eq row_by_update split: option.splits)

interpretation enq: job_lock LockJob status_of enqueued_lockable enqueued_inv
proof unfold_locales
  fix T flt now i who j
  assume T: "enqueued_inv T"
  show "status_of (snd (LockJob flt now i who T)) j =
    (if fst (LockJob flt now i who T) = Inr True \<and> j = i then Some StatusProcessing else status_of T j)"
    using LockJob_wins [OF T, of flt now i who] by (auto simp: status_of_def row_of_LockJob [OF T])
qed (simp_all add: LockJob_wins inv_LockJob)

section \<open>Reachable tables\<close>

text \<open>The tables the operations can produce, whoever calls them, in any order and with any failures.\<close>

inductive enqueued_reach :: "enqueued_table \<Rightarrow> bool" where
  empty: "enqueued_reach empty_table"
| insert: "enqueued_reach T \<Longrightarrow> enqueued_reach (snd (Insert flt now name due args T))"
| remove: "enqueued_reach T \<Longrightarrow> enqueued_reach (snd (RemoveByID flt i T))"
| retry: "enqueued_reach T \<Longrightarrow> enqueued_reach (snd (MarkRetryFailedJobs flt now T))"
| lock: "enqueued_reach T \<Longrightarrow> enqueued_reach (snd (LockJob flt now i who T))"
| success: "enqueued_reach T \<Longrightarrow> enqueued_reach (snd (MarkSuccess flt now i T))"
| failure: "enqueued_reach T \<Longrightarrow> enqueued_reach (snd (MarkFailure flt i msg n m T))"
| unlock: "enqueued_reach T \<Longrightarrow> enqueued_reach (snd (UnlockStaleJobs flt now timeout T))"
| bulk: "enqueued_reach T \<Longrightarrow> enqueued_reach (snd (BulkInsert flt now batch T))"

text \<open>A bulk insert is the sequence of single inserts of its jobs.\<close>

fun insert_each :: "timestamp \<Rightarrow> Job list \<Rightarrow> enqueued_table \<Rightarrow> enqueued_table" where
  "insert_each now [] T = T"
| "insert_each now (job # batch) T =
     insert_each now batch
       (snd (Insert None now (job_Name job) (instant (job_ScheduledAt job)) (job_Args job) T))"

lemma bulk_args_ok:
  assumes "\<forall>job \<in> set batch. is_ok (Marshal_args (job_Args job))"
  shows "\<exists>phs args. bulk_args k batch = Inr (phs, args) \<and>
    (\<forall>pre T. length pre = 4 * k \<longrightarrow> bulk_rows now phs (pre @ args) T = Some (insert_each now batch T))"
  using assms
proof (induction batch arbitrary: k)
  case (Cons job batch)
  then obtain payload where p: "Marshal_args (job_Args job) = Inr payload" by (auto simp: is_ok_iff)
  from Cons obtain phs args where ih: "bulk_args (k + 1) batch = Inr (phs, args)"
    "\<And>pre T. length pre = 4 * (k + 1) \<Longrightarrow> bulk_rows now phs (pre @ args) T = Some (insert_each now batch T)"
    by (metis list.set_intros(2))
  let ?own = "[ArgText (job_Name job), ArgJson payload, ArgTime (instant (job_ScheduledAt job)), ArgInt MaxRetryAttempt]"
  let ?ph = "[4 * k + 1, 4 * k + 2, 4 * k + 3, 4 * k + 4]"
  have rows: "bulk_rows now (?ph # phs) (pre @ ?own @ args) T
      = Some (insert_each now (job # batch) T)" if "length pre = 4 * k" for pre T
    using ih(2) [of "pre @ ?own" "insert_row (new_enqueued_row now (job_Name job) payload
        (instant (job_ScheduledAt job)) MaxRetryAttempt) T"] that p
    by (simp add: nth_append numeral_eq_Suc snd_Insert del: insert_each.simps)
       (simp add: snd_Insert)
  have "bulk_args k (job # batch) = Inr (?ph # phs, ?own @ args)" using p ih(1) by (simp add: mult.commute Let_def)
  with rows show ?case by blast
qed simp

lemma bulk_args_err:
  "\<exists>job \<in> set batch. \<not> is_ok (Marshal_args (job_Args job)) \<Longrightarrow> \<exists>e. bulk_args k batch = Inl e"
proof (induction batch arbitrary: k)
  case (Cons job batch)
  show ?case
  proof (cases "Marshal_args (job_Args job)")
    case (Inr payload)
    then have "\<exists>job \<in> set batch. \<not> is_ok (Marshal_args (job_Args job))" using Cons.prems by auto
    from Cons.IH [OF this, of "k + 1"] Inr show ?thesis by auto
  qed simp
qed simp

lemma snd_BulkInsert:
  "snd (BulkInsert flt now batch T) =
     (if flt = None \<and> (\<forall>job \<in> set batch. is_ok (Marshal_args (job_Args job))) then insert_each now batch T else T)"
proof (cases "\<forall>job \<in> set batch. is_ok (Marshal_args (job_Args job))")
  case True
  from bulk_args_ok [OF this, of 0 now] obtain phs args where "bulk_args 0 batch = Inr (phs, args)"
    "\<And>T. bulk_rows now phs args T = Some (insert_each now batch T)" by (metis append_Nil list.size(3) mult_0_right)
  with True show ?thesis by (simp add: BulkInsert_def split: option.splits)
next
  case False
  with bulk_args_err [of batch 0] show ?thesis by (auto simp: BulkInsert_def)
qed

lemma fst_BulkInsert:
  "fst (BulkInsert flt now batch T) = None \<longleftrightarrow>
     batch = [] \<or> flt = None \<and> (\<forall>job \<in> set batch. is_ok (Marshal_args (job_Args job)))"
proof (cases "\<forall>job \<in> set batch. is_ok (Marshal_args (job_Args job))")
  case True
  from bulk_args_ok [OF this, of 0 now] obtain phs args where "bulk_args 0 batch = Inr (phs, args)"
    "\<And>T. bulk_rows now phs args T = Some (insert_each now batch T)" by (metis append_Nil list.size(3) mult_0_right)
  with True show ?thesis by (simp add: BulkInsert_def split: option.splits)
next
  case False
  with bulk_args_err [of batch 0] show ?thesis by (auto simp: BulkInsert_def)
qed

section \<open>Properties\<close>

lemma inv_insert_each: "enqueued_inv T \<Longrightarrow> enqueued_inv (insert_each now batch T)"
  by (induction batch arbitrary: T) (auto simp: snd_Insert inv_insert split: sum.splits)

lemma enqueued_reach_inv: "enqueued_reach T \<Longrightarrow> enqueued_inv T"
proof (induction rule: enqueued_reach.induct)
  case (lock T flt now i who)
  then show ?case by (simp add: inv_LockJob)
next
  case (bulk T flt now batch)
  then show ?case by (simp add: snd_BulkInsert inv_insert_each)
next
  case (success T flt now i)
  then show ?case by (auto simp: snd_MarkSuccess row_ok_def AllStatuses_def status_defs intro!: inv_update)
qed (auto simp: enqueued_effects inv_empty inv_insert inv_delete row_ok_def AllStatuses_def
       intro!: inv_update split: sum.splits)

text \<open>(C24) Whatever the callers do, the table of enqueued jobs keeps its invariant: ids are unique
  and below the sequence, every status is one of the six, attempts are not negative, the attempt
  limit is the constant, and a job in \<^verbatim>\<open>processing\<close> has a lock time.\<close>

theorem enqueued_reach_invariant: "enqueued_reach T \<Longrightarrow> enqueued_inv T"
  by (rule enqueued_reach_inv)

theorem enqueued_reach_invariant_witness:
  "enqueued_inv (snd (LockJob None 5 1 ''a'' (snd (Insert None 0 ''mail'' 3 [AnyInt 7] empty_table))))"
  by (rule enqueued_reach_invariant) (intro enqueued_reach.intros)

text \<open>(C23) However many instances try to lock a job of a reachable table, with whatever failures of
  their statements, exactly one obtains it when the job is queued or retrying and some statement
  goes through, and none otherwise.\<close>

theorem LockJob_exclusive:
  assumes "enqueued_reach T"
  shows "winners (run_locks LockJob i reqs T) =
    (if (status_of T i = Some StatusQueued \<or> status_of T i = Some StatusRetrying)
        \<and> (\<exists>req \<in> set reqs. fst req = None) then 1 else 0)"
  using enq.winners_exact [OF enqueued_reach_inv [OF assms]] by auto

theorem LockJob_exclusive_witness:
  "winners (run_locks LockJob 1 [(Some ''timeout'', 1, ''a''), (None, 2, ''b''), (None, 2, ''c'')]
     (snd (Insert None 0 ''mail'' 3 [] empty_table))) = 1"
  by (subst LockJob_exclusive, intro enqueued_reach.intros)
     (simp add: status_of_def Insert_def Marshal_args_def row_by_def new_enqueued_row_def empty_table_def
        StatusQueued_def)

text \<open>(C27) A bulk insert has the effect of inserting its jobs one after the other, and none of them
  is inserted when one of them cannot be encoded or the statement fails.\<close>

theorem BulkInsert_is_Inserts:
  "snd (BulkInsert flt now batch T) = (if fst (BulkInsert flt now batch T) = None then insert_each now batch T else T)
   \<and> (fst (BulkInsert flt now batch T) = None \<longleftrightarrow>
        batch = [] \<or> flt = None \<and> (\<forall>job \<in> set batch. is_ok (Marshal_args (job_Args job))))"
  using snd_BulkInsert [of flt now batch T] fst_BulkInsert [of flt now batch T] by auto

theorem BulkInsert_is_Inserts_witness:
  "snd (BulkInsert None 9 [\<lparr>job_ID = 0, job_Name = ''a'', job_Args = [AnyBool True], job_ScheduledAt = zero_time\<rparr>,
      \<lparr>job_ID = 0, job_Name = ''b'', job_Args = [], job_ScheduledAt = zero_time\<rparr>] empty_table)
   = insert_each 9 [\<lparr>job_ID = 0, job_Name = ''a'', job_Args = [AnyBool True], job_ScheduledAt = zero_time\<rparr>,
      \<lparr>job_ID = 0, job_Name = ''b'', job_Args = [], job_ScheduledAt = zero_time\<rparr>] empty_table"
  using BulkInsert_is_Inserts [of None 9 "[\<lparr>job_ID = 0, job_Name = ''a'', job_Args = [AnyBool True], job_ScheduledAt = zero_time\<rparr>,
      \<lparr>job_ID = 0, job_Name = ''b'', job_Args = [], job_ScheduledAt = zero_time\<rparr>]" empty_table]
  by (simp add: Marshal_args_def del: insert_each.simps)

text \<open>A job is never found by its id: the rows are scanned before the first \<^verbatim>\<open>Next\<close>, so the call
  returns an error, or panics when the query fails, also for a job that is in the table.\<close>

lemma FindByID_never_finds: "\<nexists>job. FindByID flt i T = Returns (Inr job)"
  by (simp add: FindByID_def Scan_before_Next split: option.splits)

text \<open>At the start of an instance every job that is being processed, by whatever instance and
  since whatever time, is queued again: the timeout of five minutes plays no role.\<close>

lemma UnlockStaleJobs_takes_all:
  assumes "enqueued_reach T" "\<forall>r \<in> set (trows T). \<forall>l. er_locked_at r = Some l \<longrightarrow> l \<le> now"
  shows "status_of (snd (UnlockStaleJobs None now timeout T)) i =
    (if status_of T i = Some StatusProcessing then Some StatusQueued else status_of T i)"
proof (cases "row_of T i")
  case (Some r)
  then have "r \<in> set (trows T)" by (auto dest: row_by_Some)
  with assms enqueued_reach_inv [OF assms(1)] have "er_status r = StatusProcessing \<longrightarrow>
      (case er_locked_at r of None \<Rightarrow> False | Some l \<Rightarrow> l \<le> now)"
    by (auto simp: enqueued_inv_def row_ok_def split: option.splits)
  with Some show ?thesis by (auto simp: status_of_def snd_UnlockStaleJobs row_by_update)
qed (simp add: status_of_def snd_UnlockStaleJobs row_by_update)

definition job_of :: "enqueued_row \<Rightarrow> EnqueuedJob" where
  "job_of r = \<lparr>ej_ID = er_id r, ej_Name = er_name r, ej_Payload = er_payload r, ej_Status = er_status r,
     ej_Attempts = er_attempts r, ej_MaxAttempts = er_max_attempts r,
     ej_ScheduledAt = er_scheduled_at r, ej_ExecutedAt = er_executed_at r,
     ej_FinishedAt = er_executed_at r, ej_LastError = er_last_error r,
     ej_LockedBy = er_locked_by r, ej_LockedAt = er_locked_at r, ej_CreatedAt = er_created_at r\<rparr>"

fun page_items :: "'a PaginationResult result \<Rightarrow> 'a list" where
  "page_items (Inr p) = Items p"
| "page_items (Inl e) = []"

lemma mapSqlRowsToJob_job_of: "mapSqlRowsToJob = (\<lambda>r. Inr (job_of r))"
  by (simp add: mapSqlRowsToJob_def job_of_def fun_eq_iff)

lemma FetchDueJobs_items:
  assumes "0 < pageSize" "1 \<le> page" "0 \<le> wrap64 ((page - 1) * pageSize)"
  shows "page_items (FetchDueJobs None None srt now page pageSize statuses before T) =
    map job_of (take (nat pageSize) (drop (nat (wrap64 ((page - 1) * pageSize)))
      (srt (select_where (due_where now statuses before) T))))"
  using assms by (simp add: FetchDueJobs_def Let_def limit_offset_def collect_query mapSqlRowsToJob_job_of)

text \<open>All pages, each with the order the server chose for it.\<close>

definition due_pages ::
  "(int \<Rightarrow> enqueued_row row_order) \<Rightarrow> timestamp \<Rightarrow> int \<Rightarrow> JobStatus list \<Rightarrow> timestamp option \<Rightarrow> enqueued_table \<Rightarrow> EnqueuedJob list" where
  "due_pages srt now pageSize statuses before T =
     concat (map (\<lambda>page. page_items (FetchDueJobs None None (srt page) now page pageSize statuses before T))
       [1..total_pages (rows_matching (due_where now statuses before) T) pageSize])"

lemma map_due_pages:
  assumes "0 < pageSize" "int (length (trows T)) \<le> max_int" "length xs = length (select_where (due_where now statuses before) T)"
    and "\<And>page. map g (srt page (select_where (due_where now statuses before) T)) = map h xs"
  shows "map (f \<circ> job_of) = map g \<Longrightarrow> map f (due_pages srt now pageSize statuses before T) = map h xs"
proof -
  let ?P = "due_where now statuses before"
  assume f: "map (f \<circ> job_of) = map g"
  have len: "rows_matching ?P T = int (length xs)" using assms(3) by (simp add: rows_matching_def)
  have le: "length xs \<le> length (trows T)" using assms(3) by (simp add: select_where_def)
  have items: "map f (page_items (FetchDueJobs None None (srt page) now page pageSize statuses before T)) =
      map h (take (nat pageSize) (drop (nat (wrap64 ((page - 1) * pageSize))) xs))"
    if p: "1 \<le> page" "page \<le> total_pages (int (length xs)) pageSize" for page
  proof -
    have off: "0 \<le> wrap64 ((page - 1) * pageSize)" using page_offset [OF assms(1) p] le assms(2) by simp
    show ?thesis
      using f assms(4) [of page]
      by (simp add: FetchDueJobs_items [OF assms(1) p(1) off] take_map [symmetric] drop_map [symmetric])
  qed
  show ?thesis unfolding due_pages_def len map_concat map_map
    using assms(1,2) le items by (intro pages_concat) auto
qed

text \<open>(C26) The pages of due jobs, from the first to the last, list the scheduled times of exactly the rows that
  match the status filter and the due time, in their order. They hold every one of these rows exactly once provided no
  two of them have the same scheduled time, or the server orders rows of the same time alike for
  every page; \<^verbatim>\<open>ORDER BY scheduled_at\<close> alone does not make it do so.\<close>

theorem FetchDueJobs_pages:
  assumes "0 < pageSize" "int (length (trows T)) \<le> max_int" "\<And>page. orders_by er_scheduled_at (srt page)"
  shows "map ej_ScheduledAt (due_pages srt now pageSize statuses before T) =
      sort (map er_scheduled_at (select_where (due_where now statuses before) T))
    \<and> (distinct (map er_scheduled_at (select_where (due_where now statuses before) T)) \<or> (\<forall>page. srt page = srt 1)
       \<longrightarrow> mset (due_pages srt now pageSize statuses before T) = mset (map job_of (select_where (due_where now statuses before) T)))"
proof (intro conjI impI)
  let ?rs = "select_where (due_where now statuses before) T"
  have "map ej_ScheduledAt (due_pages srt now pageSize statuses before T) = map er_scheduled_at (sort_key er_scheduled_at ?rs)"
    using assms orders_by_keys [OF assms(3)] orders_by_keys [OF orders_by_sort_key [of er_scheduled_at], of ?rs]
    by (intro map_due_pages [where g = er_scheduled_at]) (auto simp: job_of_def)
  then show "map ej_ScheduledAt (due_pages srt now pageSize statuses before T) = sort (map er_scheduled_at ?rs)"
    using orders_by_keys [OF orders_by_sort_key [of er_scheduled_at], of ?rs] by simp
  assume alike: "distinct (map er_scheduled_at ?rs) \<or> (\<forall>page. srt page = srt 1)"
  have same: "srt page ?rs = srt 1 ?rs" for page
    using alike orders_by_distinct [OF assms(3), of ?rs] by metis
  have "map (\<lambda>j. j) (due_pages srt now pageSize statuses before T) = map job_of (srt 1 ?rs)"
  proof (rule map_due_pages [where g = job_of, OF assms(1,2)])
    show "length (srt 1 ?rs) = length ?rs" by (rule orders_by_simps(2) [OF assms(3)])
    show "map job_of (srt page ?rs) = map job_of (srt 1 ?rs)" for page by (simp only: same [of page])
  qed (simp add: comp_def)
  then show "mset (due_pages srt now pageSize statuses before T) = mset (map job_of ?rs)"
    using assms(3) by (simp add: orders_by_def)
qed

definition demo_due :: enqueued_table where
  "demo_due = insert_row (new_enqueued_row 0 ''b'' JNull 4 3) (insert_row (new_enqueued_row 0 ''a'' JNull 9 3) empty_table)"

theorem FetchDueJobs_pages_witness:
  "map ej_ScheduledAt (due_pages (\<lambda>_. sort_key er_scheduled_at) 50 1 [''queued''] (Some 10) demo_due) = [4, 9]
   \<and> mset (due_pages (\<lambda>_. sort_key er_scheduled_at) 50 1 [''queued''] (Some 10) demo_due) =
     {#job_of (new_enqueued_row 0 ''a'' JNull 9 3 1), job_of (new_enqueued_row 0 ''b'' JNull 4 3 2)#}"
  using FetchDueJobs_pages [OF _ _ orders_by_sort_key, of 1 demo_due 50 "[''queued'']" "Some 10"]
  by (simp add: demo_due_def max_int_def select_where_def due_where_def new_enqueued_row_def)

text \<open>Two rows of the same time, and a server that lists them one way for the first page and the other way for
  the second: one row is on both pages and the other on none.\<close>

lemma FetchDueJobs_ties:
  "orders_by er_scheduled_at (\<lambda>rs. sort_key er_scheduled_at (rev rs)) \<and>
   due_pages (\<lambda>page. if page = 1 then sort_key er_scheduled_at else (\<lambda>rs. sort_key er_scheduled_at (rev rs))) 50 1 [] None
     \<lparr>trows = [new_enqueued_row 0 ''a'' JNull 4 3 1, new_enqueued_row 0 ''b'' JNull 4 3 2], next_id = 3\<rparr> =
   [job_of (new_enqueued_row 0 ''a'' JNull 4 3 1), job_of (new_enqueued_row 0 ''a'' JNull 4 3 1)]"
  by (simp add: orders_by_def due_pages_def rows_matching_def total_pages_def FetchDueJobs_items wrap64_def upto_rec1
      select_where_def due_where_def new_enqueued_row_def)

text \<open>Enqueueing and removing: a job that can be encoded is given a new id under which the
  table holds it, queued, with its name, payload and due time, the other rows unchanged; removing
  it by that id gives back the rows there were before.\<close>

lemma Insert_then_RemoveByID:
  assumes "enqueued_reach T" "Marshal_args args = Inr payload"
  shows "case Insert None now name due args T of ((i, err), T') \<Rightarrow>
    err = None \<and> row_of T i = None
    \<and> row_of T' i = Some (new_enqueued_row now name payload due MaxRetryAttempt i)
    \<and> (\<forall>j. j \<noteq> i \<longrightarrow> row_of T' j = row_of T j)
    \<and> fst (RemoveByID None i T') = None \<and> trows (snd (RemoveByID None i T')) = trows T"
proof -
  let ?r = "new_enqueued_row now name payload due MaxRetryAttempt"
  have k: "keyed er_id T" using enqueued_reach_inv [OF assms(1)] by (simp add: enqueued_inv_def)
  have new: "er_id (?r i) = i" for i by (simp add: new_enqueued_row_def)
  have "row_of T (next_id T) = None" "filter (\<lambda>r. er_id r \<noteq> next_id T) (trows T) = trows T"
    using k by (auto simp: keyed_def row_by_None filter_id_conv)
  moreover have "rows_matching (\<lambda>r. er_id r = next_id T) (insert_row ?r T) \<noteq> 0"
    by (simp add: rows_matching_none new)
  ultimately show ?thesis
    using assms(2) row_by_insert [where key = er_id, OF k, of ?r] new
    by (simp add: Insert_def RemoveByID_def exec_delete_def)
qed

text \<open>The counts of the dashboard: for a reachable table there is a count for each of the six
  statuses and for nothing else, each the number of its rows, and they add up to all jobs.\<close>

lemma CountAllJobs_complete:
  assumes "enqueued_reach T"
  shows "\<exists>m. CountAllJobsGroupedByStatus None T = Inr m
    \<and> (\<forall>s. m s = (if s \<in> set AllStatuses then Some (fst (CountJobsByStatus None s T)) else None))
    \<and> (\<Sum>s \<leftarrow> AllStatuses. the (m s)) = int (length (trows T))"
proof -
  let ?m = "add_missing AllStatuses (read_counts (group_counts er_status T) Map.empty)"
  have sub: "set (map er_status (trows T)) \<subseteq> set AllStatuses"
    using enqueued_reach_inv [OF assms] by (auto simp: enqueued_inv_def row_ok_def)
  have m: "?m s = (if s \<in> set AllStatuses then Some (rows_matching (\<lambda>r. er_status r = s) T) else None)" for s
    using sub by (auto simp: grouped_counts)
  then have "(\<Sum>s \<leftarrow> AllStatuses. the (?m s)) = (\<Sum>s \<leftarrow> AllStatuses. rows_matching (\<lambda>r. er_status r = s) T)"
    by (intro arg_cong [where f = sum_list] map_cong) auto
  also have "\<dots> = int (length (trows T))" using sub by (intro sum_grouped) (simp_all add: AllStatuses_def)
  finally show ?thesis using m by (simp add: CountAllJobsGroupedByStatus_def CountJobsByStatus_def)
qed

end
