(* ===== verification/EnqueueManager.thy ===== *)
theory EnqueueManager
  imports EnqueuedStore JobHandlers
begin

text \<open>
  The manager of one-off jobs (\<^verbatim>\<open>client/enqueue_job_manager.go\<close>). Several worker instances share the
  table of enqueued jobs; each runs the dispatch loop of \<^verbatim>\<open>Start\<close> and \<^verbatim>\<open>processDueJobs\<close>, a goroutine
  \<^verbatim>\<open>handleJob\<close> per job it has locked, and the result processor. The pieces of sequential code between
  two shared accesses are functions; the step relation interleaves them in every possible order,
  with every failure of a statement and every behaviour of the handlers.
\<close>

section \<open>Sequential code\<close>

definition errorToJobStatus :: "string option \<Rightarrow> JobStatus" where
  "errorToJobStatus err = (if err \<noteq> None then StatusFailed else StatusSucceeded)"

definition job_result :: "EnqueuedJob \<Rightarrow> string option \<Rightarrow> JobStatus \<Rightarrow> JobResult" where
  "job_result job err status =
     \<lparr>res_JobID = ej_ID job, res_Err = err, res_Attempts = ej_Attempts job + 1,
      res_MaxAttempts = ej_MaxAttempts job, res_Status = status,
      res_RanAt = zero_time, res_NextRun = zero_time\<rparr>"

text \<open>The result a goroutine sends, or nothing when the handler panics.\<close>

definition handleJob :: "JobHandler \<Rightarrow> EnqueuedJob \<Rightarrow> JobResult option" where
  "handleJob jh job =
     (if \<not> Exists jh (ej_Name job)
      then Some (job_result job (Some ''handler not found'') StatusFailed)
      else case Unmarshal_args (ej_Payload job) of
             Inl _ \<Rightarrow> Some (job_result job (Some ''invalid payload'') StatusFailed)
           | Inr args \<Rightarrow>
               (case Execute jh (ej_Name job) args of
                  Panics _ \<Rightarrow> None
                | Returns err \<Rightarrow> Some (job_result job err (errorToJobStatus err))))"

text \<open>Whether \<^verbatim>\<open>handleJob\<close> calls the handler.\<close>

definition calls_handler :: "JobHandler \<Rightarrow> EnqueuedJob \<Rightarrow> bool" where
  "calls_handler jh job \<longleftrightarrow> Exists jh (ej_Name job) \<and> is_ok (Unmarshal_args (ej_Payload job))"

text \<open>One round of the result processor. Calling \<^verbatim>\<open>Error()\<close> on a nil error panics.\<close>

definition process_result :: "fault \<Rightarrow> timestamp \<Rightarrow> JobResult \<Rightarrow> enqueued_table \<Rightarrow> enqueued_table outcome" where
  "process_result flt now res T =
     (if res_Status res = StatusSucceeded
      then (if IsValidTransition StatusProcessing StatusSucceeded
            then Returns (snd (MarkSuccess flt now (res_JobID res) T)) else Returns T)
      else if res_Status res = StatusFailed
      then (if IsValidTransition StatusProcessing StatusFailed
            then (case res_Err res of
                    None \<Rightarrow> Panics ''runtime error: invalid memory address or nil pointer dereference''
                  | Some msg \<Rightarrow> Returns (snd (MarkFailure flt (res_JobID res) msg (res_Attempts res)
                                    (res_MaxAttempts res) T)))
            else Returns T)
      else Returns T)"

definition ExecuteJobManually ::
  "fault \<Rightarrow> JobHandler \<Rightarrow> int \<Rightarrow> enqueued_table \<Rightarrow> (fault \<times> JobResult option) outcome" where
  "ExecuteJobManually flt jh jobID T =
     (case FindByID flt jobID T of
        Panics p \<Rightarrow> Panics p
      | Returns (Inl e) \<Rightarrow> Returns (Some (''job not found: '' @ e), None)
      | Returns (Inr job) \<Rightarrow>
          (if \<not> Exists jh (ej_Name job) then Returns (Some ''handler not found: %!w(<nil>)'', None)
           else case Unmarshal_args (ej_Payload job) of
                  Inl e \<Rightarrow> Returns (Some (''invalid payload: '' @ e), None)
                | Inr args \<Rightarrow>
                    (case Execute jh (ej_Name job) args of
                       Panics p \<Rightarrow> Panics p
                     | Returns err \<Rightarrow> Returns (None, Some (job_result job err (errorToJobStatus err))))))"

definition Enqueue ::
  "fault \<Rightarrow> timestamp \<Rightarrow> string \<Rightarrow> timestamp \<Rightarrow> any list \<Rightarrow> enqueued_table \<Rightarrow> (int \<times> fault) \<times> enqueued_table" where
  "Enqueue flt now name scheduledAt args T =
     (case Insert flt now name scheduledAt args T of
        ((jobID, Some e), T') \<Rightarrow> ((0, Some e), T')
      | ((jobID, None), T') \<Rightarrow> ((jobID, None), T'))"

text \<open>The page \<^verbatim>\<open>processDueJobs\<close> works through.\<close>

definition due_page ::
  "fault \<Rightarrow> fault \<Rightarrow> enqueued_row row_order \<Rightarrow> timestamp \<Rightarrow> timestamp \<Rightarrow> int \<Rightarrow> enqueued_table
   \<Rightarrow> EnqueuedJob PaginationResult result" where
  "due_page flt1 flt2 srt dbnow now batchSize T =
     FetchDueJobs flt1 flt2 srt dbnow 1 batchSize [StatusQueued, StatusRetrying] (Some now) T"

section \<open>Instances and their steps\<close>

datatype worker = Handling EnqueuedJob | Sending JobResult

record instance_state =
  inst_name :: string
  todo :: "EnqueuedJob list"  \<comment> \<open>the items the loop of \<^verbatim>\<open>processDueJobs\<close> still has to visit\<close>
  locked :: "EnqueuedJob option"  \<comment> \<open>the item it has locked and waits to start\<close>
  workers :: "worker list"  \<comment> \<open>the goroutines \<^verbatim>\<open>handleJob\<close>\<close>
  results :: "JobResult list"  \<comment> \<open>the channel \<^verbatim>\<open>jobResults\<close>\<close>
  sem_cap :: nat
  sem_free :: nat
  ctx_done :: bool
  processor :: bool  \<comment> \<open>the result processor is running\<close>

record system =
  jobs :: enqueued_table
  insts :: "instance_state list"
  runs :: "int \<Rightarrow> nat"  \<comment> \<open>how often the handler was called, per job\<close>
  unlocks :: "int \<Rightarrow> nat"  \<comment> \<open>how often the start of an instance took the job back from \<^verbatim>\<open>processing\<close>\<close>

definition new_instance :: "string \<Rightarrow> nat \<Rightarrow> instance_state" where
  "new_instance who workerCount =
     \<lparr>inst_name = who, todo = [], locked = None, workers = [], results = [], sem_cap = workerCount,
      sem_free = workerCount, ctx_done = False, processor = True\<rparr>"

definition ctx_fault :: "instance_state \<Rightarrow> fault \<Rightarrow> fault" where
  "ctx_fault s flt = (if ctx_done s then Some ''context canceled'' else flt)"

definition count_run :: "JobHandler \<Rightarrow> EnqueuedJob \<Rightarrow> (int \<Rightarrow> nat) \<Rightarrow> (int \<Rightarrow> nat)" where
  "count_run jh job n = (if calls_handler jh job then n(ej_ID job := n (ej_ID job) + 1) else n)"

text \<open>The steps of one instance on the table, the counters and its own state.\<close>

inductive inst_step ::
  "enqueued_table \<Rightarrow> (int \<Rightarrow> nat) \<Rightarrow> instance_state \<Rightarrow> enqueued_table \<Rightarrow> (int \<Rightarrow> nat) \<Rightarrow> instance_state \<Rightarrow> bool" where
  fetch: "todo s = [] \<Longrightarrow> locked s = None \<Longrightarrow> orders_by er_scheduled_at srt \<Longrightarrow>
    due_page (ctx_fault s flt1) (ctx_fault s flt2) srt dbnow now batchSize T = Inr page \<Longrightarrow>
    inst_step T n s T n (s\<lparr>todo := Items page\<rparr>)"
| lock_won: "todo s = job # rest \<Longrightarrow> locked s = None \<Longrightarrow>
    LockJob (ctx_fault s flt) now (ej_ID job) (inst_name s) T = (Inr True, T') \<Longrightarrow>
    inst_step T n s T' n (s\<lparr>todo := rest, locked := Some job\<rparr>)"
| lock_lost: "todo s = job # rest \<Longrightarrow> locked s = None \<Longrightarrow>
    LockJob (ctx_fault s flt) now (ej_ID job) (inst_name s) T = (r, T') \<Longrightarrow> r \<noteq> Inr True \<Longrightarrow>
    inst_step T n s T' n (s\<lparr>todo := rest\<rparr>)"
| acquire: "locked s = Some job \<Longrightarrow> sem_free s = Suc k \<Longrightarrow>
    inst_step T n s T n (s\<lparr>locked := None, sem_free := k, workers := workers s @ [Handling job]\<rparr>)"
| acquire_failed: "locked s = Some job \<Longrightarrow> ctx_done s \<Longrightarrow>
    inst_step T n s T n (s\<lparr>locked := None, todo := []\<rparr>)"
| handle: "workers s = us @ Handling job # vs \<Longrightarrow> handleJob jh job = Some res \<Longrightarrow>
    inst_step T n s T (count_run jh job n) (s\<lparr>workers := us @ Sending res # vs\<rparr>)"
| panic: "workers s = us @ Handling job # vs \<Longrightarrow> handleJob jh job = None \<Longrightarrow>
    inst_step T n s T (count_run jh job n) (s\<lparr>workers := us @ vs, sem_free := sem_free s + 1\<rparr>)"
| send: "workers s = us @ Sending res # vs \<Longrightarrow> length (results s) < 1000 \<Longrightarrow>
    inst_step T n s T n (s\<lparr>workers := us @ vs, sem_free := sem_free s + 1, results := results s @ [res]\<rparr>)"
| mark: "results s = res # rest \<Longrightarrow> processor s \<Longrightarrow>
    process_result (ctx_fault s flt) now res T = Returns T' \<Longrightarrow>
    inst_step T n s T' n (s\<lparr>results := rest\<rparr>)"
| cancel: "inst_step T n s T n (s\<lparr>ctx_done := True\<rparr>)"
| processor_ends: "ctx_done s \<Longrightarrow> inst_step T n s T n (s\<lparr>processor := False\<rparr>)"

text \<open>The steps of the system: an instance, the retry loop, clients and the dashboard, the start of
  an instance, at any time, which first unlocks the jobs in \<^verbatim>\<open>processing\<close>, and the end of one, with
  all its goroutines, by a crash or because the process exits.\<close>

definition count_unlocked :: "enqueued_table \<Rightarrow> enqueued_table \<Rightarrow> (int \<Rightarrow> nat) \<Rightarrow> (int \<Rightarrow> nat)" where
  "count_unlocked T T' n =
     (\<lambda>i. if status_of T i = Some StatusProcessing \<and> status_of T' i \<noteq> Some StatusProcessing then n i + 1 else n i)"

definition restart :: "fault \<Rightarrow> timestamp \<Rightarrow> string \<Rightarrow> nat \<Rightarrow> system \<Rightarrow> system" where
  "restart flt now who workerCount w =
     (case UnlockStaleJobs flt now (5 * minute_ns) (jobs w) of
        (Some e, T') \<Rightarrow> w\<lparr>jobs := T'\<rparr>
      | (None, T') \<Rightarrow> w\<lparr>jobs := T', insts := insts w @ [new_instance who workerCount],
                          unlocks := count_unlocked (jobs w) T' (unlocks w)\<rparr>)"

inductive step :: "system \<Rightarrow> system \<Rightarrow> bool" where
  inst: "insts w = xs @ s # ys \<Longrightarrow> inst_step (jobs w) (runs w) s T' n' s' \<Longrightarrow>
    step w (w\<lparr>jobs := T', insts := xs @ s' # ys, runs := n'\<rparr>)"
| retry: "step w (w\<lparr>jobs := snd (MarkRetryFailedJobs flt now (jobs w))\<rparr>)"
| enqueue: "step w (w\<lparr>jobs := snd (Enqueue flt now name due args (jobs w))\<rparr>)"
| bulk: "step w (w\<lparr>jobs := snd (BulkInsert flt now batch (jobs w))\<rparr>)"
| remove: "step w (w\<lparr>jobs := snd (RemoveByID flt i (jobs w))\<rparr>)"
| start: "step w (restart flt now who workerCount w)"
| crash: "insts w = xs @ s # ys \<Longrightarrow> step w (w\<lparr>insts := xs @ ys\<rparr>)"

definition initial :: system where
  "initial = \<lparr>jobs = empty_table, insts = [], runs = (\<lambda>_. 0), unlocks = (\<lambda>_. 0)\<rparr>"

inductive reach :: "system \<Rightarrow> bool" where
  init: "reach initial"
| more: "reach w \<Longrightarrow> step w w' \<Longrightarrow> reach w'"

end
