(* ===== verification/EnqueueInvariant.thy ===== *)
theory EnqueueInvariant
  imports EnqueueManager
begin

text \<open>
  The invariant of the system of worker instances, and what follows from it: a job is in the hands of
  one worker at most, its handler is called three times at most and once more for each time the start of an
  instance has taken it back, and the counts of attempts and the statuses of the table agree. The start of an
  instance unlocks every job in \<^verbatim>\<open>processing\<close>, so all this holds of the runs in which an instance is started
  only while no running instance has a job in its hands; jobs that a crashed instance, a panic or a lost
  statement has left in \<^verbatim>\<open>processing\<close> may be there.
\<close>

section \<open>What an instance holds\<close>

fun worker_id :: "worker \<Rightarrow> int" where
  "worker_id (Handling job) = ej_ID job"
| "worker_id (Sending res) = res_JobID res"

text \<open>The ids of the jobs an instance has locked and not yet given back.\<close>

definition held :: "instance_state \<Rightarrow> int list" where
  "held s = (case locked s of None \<Rightarrow> [] | Some job \<Rightarrow> [ej_ID job])
     @ map worker_id (workers s) @ map res_JobID (results s)"

definition held_all :: "instance_state list \<Rightarrow> int list" where
  "held_all ss = concat (map held ss)"

text \<open>Jobs locked and not yet handled, all jobs an instance remembers, and results on their way.\<close>

definition pending :: "instance_state \<Rightarrow> EnqueuedJob set" where
  "pending s = set_option (locked s) \<union> {job. Handling job \<in> set (workers s)}"

definition seen :: "instance_state \<Rightarrow> EnqueuedJob set" where
  "seen s = set (todo s) \<union> pending s"

definition outgoing :: "instance_state \<Rightarrow> JobResult set" where
  "outgoing s = {res. Sending res \<in> set (workers s)} \<union> set (results s)"

section \<open>The invariant\<close>

definition attempts_ok :: "enqueued_row \<Rightarrow> bool" where
  "attempts_ok r \<longleftrightarrow> er_attempts r \<le> 3
     \<and> (er_status r \<noteq> StatusFailed \<and> er_status r \<noteq> StatusDead \<longrightarrow> er_attempts r < 3)
     \<and> (er_status r = StatusDead \<longrightarrow> er_attempts r = 3)"

definition table_ok :: "enqueued_table \<Rightarrow> bool" where
  "table_ok T \<longleftrightarrow> enqueued_inv T \<and> (\<forall>r \<in> set (trows T). attempts_ok r)"

definition held_ok :: "enqueued_table \<Rightarrow> int list \<Rightarrow> bool" where
  "held_ok T is \<longleftrightarrow> distinct is \<and>
     (\<forall>i \<in> set is. i < next_id T \<and> (\<forall>r. row_of T i = Some r \<longrightarrow> er_status r = StatusProcessing))"

text \<open>How often a handler can have been called: once per recorded attempt, and once more while the
  job is being processed or when it has succeeded.\<close>

definition row_bound :: "enqueued_row \<Rightarrow> int" where
  "row_bound r =
     er_attempts r + (if er_status r = StatusProcessing \<or> er_status r = StatusSucceeded then 1 else 0)"

definition run_bound :: "enqueued_table \<Rightarrow> int \<Rightarrow> int" where
  "run_bound T i =
     (case row_of T i of
        Some r \<Rightarrow> row_bound r
      | None \<Rightarrow> (if i < next_id T then 3 else 0))"

definition runs_ok :: "enqueued_table \<Rightarrow> (int \<Rightarrow> nat) \<Rightarrow> bool" where
  "runs_ok T n \<longleftrightarrow> (\<forall>i. int (n i) \<le> run_bound T i)"

definition pending_ok :: "enqueued_table \<Rightarrow> (int \<Rightarrow> nat) \<Rightarrow> EnqueuedJob \<Rightarrow> bool" where
  "pending_ok T n job \<longleftrightarrow> n (ej_ID job) \<le> 2 \<and> (\<forall>r. row_of T (ej_ID job) = Some r \<longrightarrow> int (n (ej_ID job)) \<le> er_attempts r)"

definition seen_ok :: "enqueued_table \<Rightarrow> EnqueuedJob \<Rightarrow> bool" where
  "seen_ok T job \<longleftrightarrow> ej_ID job < next_id T \<and>
     (\<forall>r. row_of T (ej_ID job) = Some r \<longrightarrow> ej_Attempts job \<le> er_attempts r)"

definition outgoing_ok :: "enqueued_table \<Rightarrow> JobResult \<Rightarrow> bool" where
  "outgoing_ok T res \<longleftrightarrow> res_JobID res < next_id T \<and>
     (res_Status res = StatusSucceeded \<or> res_Status res = StatusFailed \<and> res_Err res \<noteq> None) \<and>
     (\<forall>r. row_of T (res_JobID res) = Some r \<longrightarrow> res_Attempts res \<le> er_attempts r + 1)"

definition sem_ok :: "instance_state \<Rightarrow> bool" where
  "sem_ok s \<longleftrightarrow> sem_free s + length (workers s) = sem_cap s \<and> length (results s) \<le> 1000"

definition inst_ok :: "enqueued_table \<Rightarrow> (int \<Rightarrow> nat) \<Rightarrow> instance_state \<Rightarrow> bool" where
  "inst_ok T n s \<longleftrightarrow> sem_ok s \<and> (\<forall>job \<in> pending s. pending_ok T n job) \<and> (\<forall>job \<in> seen s. seen_ok T job)
     \<and> (\<forall>res \<in> outgoing s. outgoing_ok T res)"

text \<open>The calls of the handler that are not made up for by an unlock.\<close>

definition charged :: "system \<Rightarrow> int \<Rightarrow> nat" where
  "charged w i = runs w i - unlocks w i"

definition sys_inv :: "system \<Rightarrow> bool" where
  "sys_inv w \<longleftrightarrow> table_ok (jobs w) \<and> held_ok (jobs w) (held_all (insts w)) \<and> runs_ok (jobs w) (charged w)
     \<and> (\<forall>s \<in> set (insts w). inst_ok (jobs w) (charged w) s)"

text \<open>No running instance has a job in its hands that is in \<^verbatim>\<open>processing\<close>. The calm runs are those in which
  instances are started only then.\<close>

definition resting :: "system \<Rightarrow> bool" where
  "resting w \<longleftrightarrow> (\<forall>i \<in> set (held_all (insts w)). status_of (jobs w) i \<noteq> Some StatusProcessing)"

inductive calm_reach :: "system \<Rightarrow> bool" where
  calm_init: "calm_reach initial"
| calm_more: "calm_reach w \<Longrightarrow> step w w' \<Longrightarrow> (length (insts w) < length (insts w') \<longrightarrow> resting w) \<Longrightarrow> calm_reach w'"

lemma calm_reach_reach: "calm_reach w \<Longrightarrow> reach w"
  by (induction rule: calm_reach.induct) (auto intro: reach.intros)

section \<open>Changes of the table\<close>

text \<open>A change of the table is harmless for the jobs of a list of held ids when it keeps their rows (or
  deletes them), never lowers a count of attempts and never lowers the bound on calls.\<close>

definition harmless :: "int list \<Rightarrow> enqueued_table \<Rightarrow> enqueued_table \<Rightarrow> bool" where
  "harmless is T T' \<longleftrightarrow> next_id T \<le> next_id T'
     \<and> (\<forall>i r'. i < next_id T \<longrightarrow> row_of T' i = Some r' \<longrightarrow> (\<exists>r. row_of T i = Some r \<and> er_attempts r \<le> er_attempts r'
           \<and> (i \<in> set is \<longrightarrow> er_status r = StatusProcessing \<longrightarrow> er_status r' = StatusProcessing)))
     \<and> (\<forall>i. run_bound T i \<le> run_bound T' i)"

lemma harmless_refl: "harmless is T T"
  by (simp add: harmless_def)

lemma harmless_held: "harmless is T T' \<Longrightarrow> held_ok T is \<Longrightarrow> held_ok T' is"
  unfolding harmless_def held_ok_def by (metis order_less_le_trans)

lemma harmless_runs: "harmless is T T' \<Longrightarrow> runs_ok T n \<Longrightarrow> runs_ok T' n"
  unfolding harmless_def runs_ok_def by (meson order_trans)

lemma row_below: "table_ok T \<Longrightarrow> row_of T i = Some r \<Longrightarrow> i < next_id T"
  by (auto simp: table_ok_def enqueued_inv_def keyed_def dest!: row_by_Some)

lemma harmless_row:
  assumes "harmless is T T'" "row_of T i = Some r" "table_ok T" "row_of T' i = Some r'"
  shows "er_attempts r \<le> er_attempts r'"
proof -
  have "i < next_id T" by (rule row_below [OF assms(3,2)])
  with assms(1,4) have "\<exists>r. row_of T i = Some r \<and> er_attempts r \<le> er_attempts r'"
    unfolding harmless_def by blast
  with assms(2) show ?thesis by simp
qed

lemma harmless_inst:
  assumes "harmless is T T'" "inst_ok T n s"
  shows "inst_ok T' n s"
proof -
  have nid: "next_id T \<le> next_id T'" using assms(1) by (simp add: harmless_def)
  have row: "\<exists>r. row_of T i = Some r \<and> er_attempts r \<le> er_attempts r'"
    if "i < next_id T" "row_of T' i = Some r'" for i r'
    using assms(1) that unfolding harmless_def by blast
  have "seen_ok T' job" if "seen_ok T job" for job
    using that row [of "ej_ID job"] nid by (fastforce simp: seen_ok_def)
  moreover have "outgoing_ok T' res" if "outgoing_ok T res" for res
    using that row [of "res_JobID res"] nid by (fastforce simp: outgoing_ok_def)
  moreover have "pending_ok T' n job" if "pending_ok T n job" "seen_ok T job" for job
    using that row [of "ej_ID job"] by (fastforce simp: pending_ok_def seen_ok_def)
  ultimately show ?thesis using assms(2) by (auto simp: inst_ok_def seen_def)
qed

lemma harmless_update:
  assumes "\<And>r. er_id (f r) = er_id r"
    and "\<And>r. r \<in> set (trows T) \<Longrightarrow> P r \<Longrightarrow> er_attempts r \<le> er_attempts (f r) \<and> row_bound r \<le> row_bound (f r)
      \<and> (er_id r \<in> set is \<longrightarrow> er_status r = StatusProcessing \<longrightarrow> er_status (f r) = StatusProcessing)"
  shows "harmless is T (update_where P f T)"
proof -
  have new: "\<exists>r. row_of T i = Some r \<and> er_attempts r \<le> er_attempts r' \<and> row_bound r \<le> row_bound r'
      \<and> (i \<in> set is \<longrightarrow> er_status r = StatusProcessing \<longrightarrow> er_status r' = StatusProcessing)"
    if row: "row_of (update_where P f T) i = Some r'" for i r'
  proof -
    from row obtain r where r: "row_of T i = Some r" "r' = (if P r then f r else r)"
      by (auto simp: row_by_update [where key = er_id and f = f, OF assms(1)])
    then have "r \<in> set (trows T)" "er_id r = i" by (auto dest: row_by_Some)
    with r assms(2) [of r] show ?thesis by auto
  qed
  then have "run_bound T i \<le> run_bound (update_where P f T) i" for i
    by (fastforce simp: run_bound_def row_by_update [where key = er_id and f = f, OF assms(1)] split: option.splits)
  with new show ?thesis unfolding harmless_def by fastforce
qed

lemma table_ok_update:
  assumes "table_ok T" "\<And>r. er_id (f r) = er_id r"
    and "\<And>r. r \<in> set (trows T) \<Longrightarrow> P r \<Longrightarrow> row_ok r \<Longrightarrow> attempts_ok r \<Longrightarrow> row_ok (f r) \<and> attempts_ok (f r)"
  shows "table_ok (update_where P f T)"
  using assms by (auto simp: table_ok_def enqueued_inv_def keyed_update)

lemma retry_harmless: "table_ok T \<Longrightarrow> harmless is T (snd (MarkRetryFailedJobs flt now T)) \<and> table_ok (snd (MarkRetryFailedJobs flt now T))"
  by (auto simp: snd_MarkRetryFailedJobs harmless_refl row_bound_def row_ok_def attempts_ok_def AllStatuses_def
        MaxRetryAttempt_def intro!: harmless_update table_ok_update)

lemma remove_harmless:
  assumes "table_ok T"
  shows "harmless is T (snd (RemoveByID flt i T)) \<and> table_ok (snd (RemoveByID flt i T))"
proof -
  have k: "keyed er_id T" using assms by (simp add: table_ok_def enqueued_inv_def)
  have "row_bound r \<le> 3 \<and> er_id r < next_id T" if "r \<in> set (trows T)" for r
    using assms that by (auto simp: table_ok_def attempts_ok_def row_bound_def enqueued_inv_def keyed_def)
  then have "run_bound T j \<le> run_bound (delete_where P T) j" for P j
    by (auto simp: run_bound_def row_by_delete [OF k] split: option.splits dest!: row_by_Some)
  then have "harmless is T (delete_where P T)" for P
    by (auto simp: harmless_def row_by_delete [OF k] split: option.splits if_splits)
  moreover have "table_ok (delete_where P T)" for P
    using assms by (auto simp: table_ok_def inv_delete)
  ultimately show ?thesis using assms by (simp add: snd_RemoveByID harmless_refl)
qed

lemma insert_harmless:
  assumes "table_ok T"
  shows "harmless is T (snd (Insert flt now name due args T)) \<and> table_ok (snd (Insert flt now name due args T))"
proof -
  have k: "keyed er_id T" using assms by (simp add: table_ok_def enqueued_inv_def)
  let ?r = "\<lambda>payload. new_enqueued_row now name payload due MaxRetryAttempt"
  have new: "er_id (?r p i) = i" "er_attempts (?r p i) = 0" "row_bound (?r p i) = 0" "attempts_ok (?r p i)" for p i
    by (simp_all add: new_enqueued_row_def row_bound_def attempts_ok_def status_defs)
  have row: "row_of (insert_row (?r p) T) j = (if j = next_id T then Some (?r p (next_id T)) else row_of T j)" for p j
    using new by (intro row_by_insert [OF k]) simp
  have none: "row_of T (next_id T) = None" using k by (auto simp: row_by_None keyed_def)
  have "harmless is T (insert_row (?r p) T)" for p
    using new row none by (auto simp: harmless_def run_bound_def split: option.splits)
  moreover have "table_ok (insert_row (?r p) T)" for p
    using assms new(4) by (auto simp: table_ok_def inv_insert)
  ultimately show ?thesis using assms by (simp add: snd_Insert harmless_refl split: sum.splits)
qed

lemma harmless_trans: "harmless is T T' \<Longrightarrow> harmless is T' T'' \<Longrightarrow> harmless is T T''"
  unfolding harmless_def by (smt (verit, best))

lemma bulk_harmless: "table_ok T \<Longrightarrow> harmless is T (snd (BulkInsert flt now batch T)) \<and> table_ok (snd (BulkInsert flt now batch T))"
proof -
  have "table_ok T \<Longrightarrow> harmless is T (insert_each now batch T) \<and> table_ok (insert_each now batch T)" for T
  proof (induction batch arbitrary: T)
    case (Cons job batch)
    let ?T = "snd (Insert None now (job_Name job) (instant (job_ScheduledAt job)) (job_Args job) T)"
    have T: "harmless is T ?T" "table_ok ?T" using insert_harmless [OF Cons.prems] by auto
    from Cons.IH [OF T(2)] harmless_trans [OF T(1)] show ?case by simp
  qed (simp add: harmless_refl)
  then show "table_ok T \<Longrightarrow> harmless is T (snd (BulkInsert flt now batch T)) \<and> table_ok (snd (BulkInsert flt now batch T))"
    by (simp add: snd_BulkInsert harmless_refl)
qed

lemma LockJob_harmless:
  "table_ok T \<Longrightarrow> harmless is T (snd (LockJob flt now i who T)) \<and> table_ok (snd (LockJob flt now i who T))"
  by (cases flt)
     (auto simp: LockJob_eq harmless_refl row_bound_def row_ok_def attempts_ok_def AllStatuses_def
       intro!: harmless_update table_ok_update)

lemma LockJob_won:
  assumes "table_ok T" "held_ok T is" "LockJob flt now i who T = (Inr True, T')"
  shows "i \<notin> set is \<and> i < next_id T' \<and> (\<exists>r. row_of T i = Some r \<and> enqueued_lockable (er_status r))
    \<and> (\<exists>r'. row_of T' i = Some r' \<and> er_status r' = StatusProcessing)"
proof -
  have T: "enqueued_inv T" using assms(1) by (simp add: table_ok_def)
  obtain r where r: "row_of T i = Some r" "enqueued_lockable (er_status r)"
    using LockJob_wins [OF T, of flt now i who] assms(3) by (auto simp: status_of_def)
  then have "er_id r < next_id T" "er_id r = i"
    using T by (auto simp: enqueued_inv_def keyed_def dest: row_by_Some)
  moreover have "next_id T \<le> next_id T'"
    using LockJob_harmless [OF assms(1), of "is" flt now i who] assms(3) by (simp add: harmless_def)
  ultimately show ?thesis
    using r assms(2,3) row_of_LockJob [OF T, of flt now i who i] by (auto simp: held_ok_def)
qed

lemma MarkSuccess_harmless:
  assumes "table_ok T" "\<And>r. row_of T i = Some r \<Longrightarrow> er_status r = StatusProcessing" "i \<notin> set is"
  shows "harmless is T (snd (MarkSuccess flt now i T)) \<and> table_ok (snd (MarkSuccess flt now i T))"
proof -
  have "er_status r = StatusProcessing" if "r \<in> set (trows T)" "er_id r = i" for r
    using that assms(2) row_by_mem [of er_id T r] assms(1) by (auto simp: table_ok_def enqueued_inv_def)
  with assms(1,3) show ?thesis
    by (auto simp: snd_MarkSuccess harmless_refl row_bound_def row_ok_def attempts_ok_def AllStatuses_def
        StatusSucceeded_def [symmetric] intro!: harmless_update table_ok_update)
qed

lemma MarkFailure_harmless:
  assumes "table_ok T" "\<And>r. row_of T i = Some r \<Longrightarrow> er_status r = StatusProcessing \<and> n \<le> er_attempts r + 1" "i \<notin> set is"
  shows "harmless is T (snd (MarkFailure flt i msg n m T)) \<and> table_ok (snd (MarkFailure flt i msg n m T))"
proof -
  have row: "er_status r = StatusProcessing" "n \<le> er_attempts r + 1" if "r \<in> set (trows T)" "er_id r = i" for r
    using that assms(2) [of r] row_by_mem [of er_id T r] assms(1) by (auto simp: table_ok_def enqueued_inv_def)
  with assms(1,3) show ?thesis
    by (auto simp: snd_MarkFailure harmless_refl row_bound_def MaxRetryAttempt_def
        intro!: harmless_update table_ok_update)
       (auto simp: row_ok_def attempts_ok_def AllStatuses_def dest!: row)
qed

lemma process_result_harmless:
  assumes "table_ok T" "held_ok T (res_JobID res # is)" "outgoing_ok T res" "process_result flt now res T = Returns T'"
  shows "harmless is T T' \<and> table_ok T'"
proof -
  have st: "er_status r = StatusProcessing" if "row_of T (res_JobID res) = Some r" for r
    using assms(2) that by (simp add: held_ok_def)
  have n: "res_JobID res \<notin> set is" using assms(2) by (simp add: held_ok_def)
  show ?thesis
    using assms(1,3,4) MarkSuccess_harmless [OF assms(1) st n, of flt now]
      MarkFailure_harmless [of T "res_JobID res" "res_Attempts res" "is" flt _ "res_MaxAttempts res"] st n
    by (auto simp: process_result_def outgoing_ok_def harmless_refl split: if_splits option.splits)
qed

lemma handleJob_outgoing:
  assumes "handleJob jh job = Some res" "seen_ok T job"
  shows "outgoing_ok T res \<and> res_JobID res = ej_ID job"
  using assms
  by (auto simp: handleJob_def job_result_def errorToJobStatus_def outgoing_ok_def seen_ok_def
      split: if_splits sum.splits outcome.splits)

section \<open>Steps keep the invariant\<close>

definition local_inv :: "enqueued_table \<Rightarrow> (int \<Rightarrow> nat) \<Rightarrow> instance_state \<Rightarrow> int list \<Rightarrow> bool" where
  "local_inv T n s others \<longleftrightarrow> table_ok T \<and> held_ok T (held s @ others) \<and> runs_ok T n \<and> inst_ok T n s"

lemma held_ok_append: "held_ok T (xs @ ys) \<longleftrightarrow> held_ok T xs \<and> held_ok T ys \<and> set xs \<inter> set ys = {}"
  by (auto simp: held_ok_def)

lemma harmless_append: "harmless (xs @ ys) T T' \<longleftrightarrow> harmless xs T T' \<and> harmless ys T T'"
  by (fastforce simp: harmless_def)

lemma pending_held: "job \<in> pending s \<Longrightarrow> ej_ID job \<in> set (held s)"
  by (auto simp: pending_def held_def image_iff intro: bexI [of _ "Handling job"])

lemma local_harmless:
  "local_inv T n s others \<Longrightarrow> harmless (held s @ others) T T' \<Longrightarrow> table_ok T' \<Longrightarrow> local_inv T' n s others"
  unfolding local_inv_def using harmless_held harmless_runs harmless_inst by blast

lemma held_simps:
  "held (s\<lparr>todo := js\<rparr>) = held s" "held (s\<lparr>ctx_done := b\<rparr>) = held s" "held (s\<lparr>processor := b\<rparr>) = held s"
  by (simp_all add: held_def)

lemmas inst_defs = inst_ok_def seen_def pending_def outgoing_def sem_ok_def

lemma due_page_seen:
  assumes "due_page flt1 flt2 srt dbnow now batchSize T = Inr page" "table_ok T" "job \<in> set (Items page)"
    and srt: "orders_by er_scheduled_at srt"
  shows "seen_ok T job"
proof -
  from assms(1,3) obtain r where r: "r \<in> set (trows T)" "job = job_of r"
    by (auto simp: orders_by_simps(1) [OF srt] due_page_def FetchDueJobs_def Let_def limit_offset_def collect_query mapSqlRowsToJob_job_of
        select_where_def split: option.splits sum.splits if_splits dest!: in_set_takeD in_set_dropD)
  moreover have "row_of T (er_id r) = Some r" "er_id r < next_id T"
    using r(1) assms(2) row_by_mem [of er_id T r] by (auto simp: table_ok_def enqueued_inv_def keyed_def)
  ultimately show ?thesis by (simp add: seen_ok_def job_of_def)
qed

lemma run_counted:
  assumes "local_inv T n s others" "job \<in> pending s"
  shows "runs_ok T (count_run jh job n)"
proof (cases "calls_handler jh job")
  case True
  have p: "pending_ok T n job" "ej_ID job \<in> set (held s)" "ej_ID job < next_id T"
    using assms pending_held [OF assms(2)] by (auto simp: local_inv_def inst_ok_def held_ok_def)
  have "er_status r = StatusProcessing" if "row_of T (ej_ID job) = Some r" for r
    using assms(1) p(2) that by (auto simp: local_inv_def held_ok_def)
  with p have "int (n (ej_ID job)) + 1 \<le> run_bound T (ej_ID job)"
    by (auto simp: run_bound_def row_bound_def pending_ok_def split: option.splits)
  with True assms(1) show ?thesis by (simp add: count_run_def runs_ok_def local_inv_def)
qed (use assms(1) in \<open>simp add: count_run_def local_inv_def\<close>)

lemma count_run_other: "i \<noteq> ej_ID job \<Longrightarrow> count_run jh job n i = n i"
  by (simp add: count_run_def)

lemma pending_ok_cong: "n' (ej_ID job) = n (ej_ID job) \<Longrightarrow> pending_ok T n' job \<longleftrightarrow> pending_ok T n job"
  by (simp add: pending_ok_def)

text \<open>A worker that is done with its job: the other jobs the instance holds have other ids.\<close>

lemma others_differ:
  assumes "distinct (held s)" "workers s = us @ Handling job # vs"
    and "job' \<in> set_option (locked s) \<or> Handling job' \<in> set (us @ vs)"
  shows "ej_ID job' \<noteq> ej_ID job"
proof -
  have "Handling job' \<in> set (us @ vs) \<Longrightarrow> ej_ID job' \<in> worker_id ` set (us @ vs)"
    by (rule image_eqI [of _ _ "Handling job'"]) auto
  with assms show ?thesis by (auto simp: held_def split: option.splits)
qed

lemma fetch_local:
  assumes "local_inv T n s others" "due_page flt1 flt2 srt dbnow now batchSize T = Inr page" "orders_by er_scheduled_at srt"
  shows "local_inv T n (s\<lparr>todo := Items page\<rparr>) others"
  using assms due_page_seen [OF assms(2) _ _ assms(3)] by (auto simp: local_inv_def inst_defs held_simps)

lemma lock_won_local:
  assumes inv: "local_inv T n s others" and s: "todo s = job # rest" "locked s = None"
    and lock: "LockJob flt now (ej_ID job) who T = (Inr True, T')"
  shows "local_inv T' n (s\<lparr>todo := rest, locked := Some job\<rparr>) others \<and> harmless others T T'"
proof -
  let ?i = "ej_ID job"
  have T: "table_ok T" "held_ok T (held s @ others)" "runs_ok T n" using inv by (simp_all add: local_inv_def)
  have T': "harmless (held s @ others) T T'" "table_ok T'"
    using LockJob_harmless [OF T(1), of "held s @ others" flt now ?i who] lock by simp_all
  have s': "local_inv T' n s others" using local_harmless [OF inv T'] .
  have won: "?i \<notin> set (held s @ others)" "?i < next_id T'"
    "\<exists>r'. row_of T' ?i = Some r' \<and> er_status r' = StatusProcessing"
    using LockJob_won [OF T(1,2) lock] by blast+
  obtain r where r: "row_of T ?i = Some r" "enqueued_lockable (er_status r)"
    using LockJob_won [OF T(1,2) lock] by blast
  then have "attempts_ok r" using T(1) by (auto simp: table_ok_def dest: row_by_Some)
  then have "int (n ?i) \<le> er_attempts r" "er_attempts r < 3"
    using r T(3) by (auto simp: runs_ok_def run_bound_def row_bound_def attempts_ok_def dest!: spec [of _ ?i])
  moreover have "er_attempts r \<le> er_attempts r'" if "row_of T' ?i = Some r'" for r'
    by (rule harmless_row [OF T'(1) r(1) T(1) that])
  ultimately have "pending_ok T' n job" by (fastforce simp: pending_ok_def)
  moreover have "held (s\<lparr>todo := rest, locked := Some job\<rparr>) = ?i # held s" using s by (simp add: held_def)
  ultimately show ?thesis using s s' T' won
    by (auto simp: local_inv_def inst_defs harmless_append held_ok_def)
qed

lemma lock_lost_local:
  assumes inv: "local_inv T n s others" and s: "todo s = job # rest"
    and lock: "LockJob flt now i who T = (r, T')"
  shows "local_inv T' n (s\<lparr>todo := rest\<rparr>) others \<and> harmless others T T'"
proof -
  have "table_ok T" using inv by (simp add: local_inv_def)
  then have "harmless (held s @ others) T T'" "table_ok T'"
    using LockJob_harmless [of T "held s @ others" flt now i who] lock by simp_all
  with local_harmless [OF inv] s show ?thesis
    by (auto simp: local_inv_def inst_defs held_simps harmless_append)
qed

lemma acquire_local:
  assumes "local_inv T n s others" "locked s = Some job" "sem_free s = Suc k"
  shows "local_inv T n (s\<lparr>locked := None, sem_free := k, workers := workers s @ [Handling job]\<rparr>) others"
proof -
  have "set (held (s\<lparr>locked := None, sem_free := k, workers := workers s @ [Handling job]\<rparr>)) = set (held s)"
    "distinct (held s) \<longleftrightarrow> distinct (held (s\<lparr>locked := None, sem_free := k, workers := workers s @ [Handling job]\<rparr>))"
    using assms(2) by (auto simp: held_def)
  with assms show ?thesis by (auto simp: local_inv_def inst_defs held_ok_def)
qed

lemma acquire_failed_local:
  assumes "local_inv T n s others" "locked s = Some job"
  shows "local_inv T n (s\<lparr>locked := None, todo := []\<rparr>) others"
  using assms by (auto simp: local_inv_def inst_defs held_ok_def held_def)

text \<open>The handler has been called: only the jobs that have not been handled carry a bound on calls.\<close>

lemma handled_local:
  assumes inv: "local_inv T n s others" and w: "workers s = us @ Handling job # vs"
    and ws: "\<And>j. Handling j \<in> set ws \<Longrightarrow> Handling j \<in> set (us @ vs)"
    and out: "\<And>res. Sending res \<in> set ws \<Longrightarrow> Sending res \<in> set (us @ vs) \<or> outgoing_ok T res"
    and held: "held_ok T (held (s\<lparr>workers := ws, sem_free := k\<rparr>) @ others)"
    and sem: "k + length ws = sem_cap s"
  shows "local_inv T (count_run jh job n) (s\<lparr>workers := ws, sem_free := k\<rparr>) others"
proof -
  let ?n = "count_run jh job n"
  have d: "distinct (held s)" using inv by (simp add: local_inv_def held_ok_def)
  have "job \<in> pending s" using w by (simp add: pending_def)
  then have runs: "runs_ok T ?n" by (rule run_counted [OF inv])
  have pend: "pending_ok T ?n j" if j: "j \<in> set_option (locked s) \<or> Handling j \<in> set ws" for j
  proof -
    have j': "j \<in> set_option (locked s) \<or> Handling j \<in> set (us @ vs)" using j ws by blast
    then have "pending_ok T n j" using inv w by (auto simp: local_inv_def inst_defs)
    moreover have "?n (ej_ID j) = n (ej_ID j)" by (rule count_run_other [OF others_differ [OF d w j']])
    ultimately show ?thesis by (simp add: pending_ok_def)
  qed
  have "seen_ok T j" if "Handling j \<in> set ws" for j
    using ws [OF that] inv w by (auto simp: local_inv_def inst_defs)
  moreover have "outgoing_ok T res" if "Sending res \<in> set ws" for res
    using out [OF that] inv w by (auto simp: local_inv_def inst_defs)
  ultimately show ?thesis using inv held sem runs pend
    by (auto simp: local_inv_def inst_defs)
qed

lemma mark_local:
  assumes inv: "local_inv T n s others" and s: "results s = res # rest"
    and mark: "process_result flt now res T = Returns T'"
  shows "local_inv T' n (s\<lparr>results := rest\<rparr>) others \<and> harmless others T T'"
proof -
  let ?s = "s\<lparr>results := rest\<rparr>"
  have h: "held_ok T (res_JobID res # held ?s @ others)"
    using inv s by (auto simp: local_inv_def held_ok_def held_def)
  have "table_ok T" "outgoing_ok T res" using inv s by (auto simp: local_inv_def inst_defs)
  then have T': "harmless (held ?s @ others) T T'" "table_ok T'"
    using process_result_harmless [OF _ h _ mark] by simp_all
  have "local_inv T n ?s others" using inv s h by (auto simp: local_inv_def inst_defs held_ok_def)
  from local_harmless [OF this T'] T' show ?thesis by (simp add: harmless_append)
qed

text \<open>Only calls of handlers of jobs in the hands of the instance are counted, and the counts do not
  decide what happens.\<close>

lemma inst_step_counts:
  assumes "inst_step T n s T' n' s'"
  shows "(\<forall>i. i \<notin> set (held s) \<longrightarrow> n' i = n i)
    \<and> (\<exists>m'. inst_step T (\<lambda>i. n i - u i) s T' m' s' \<and> (\<forall>i. n' i - u i \<le> m' i))"
  using assms
proof cases
  case (handle us job vs jh res)
  have "ej_ID job \<in> set (held s)" using handle by (auto simp: held_def)
  moreover have "inst_step T (\<lambda>i. n i - u i) s T' (count_run jh job (\<lambda>i. n i - u i)) s'"
    using inst_step.handle [OF handle(4,5)] handle(1,3) by simp
  moreover have "n' i - u i \<le> count_run jh job (\<lambda>i. n i - u i) i" for i using handle(2) by (auto simp: count_run_def)
  ultimately show ?thesis using handle(2) by (metis count_run_other)
next
  case (panic us job vs jh)
  have "ej_ID job \<in> set (held s)" using panic by (auto simp: held_def)
  moreover have "inst_step T (\<lambda>i. n i - u i) s T' (count_run jh job (\<lambda>i. n i - u i)) s'"
    using inst_step.panic [OF panic(4,5)] panic(1,3) by simp
  moreover have "n' i - u i \<le> count_run jh job (\<lambda>i. n i - u i) i" for i using panic(2) by (auto simp: count_run_def)
  ultimately show ?thesis using panic(2) by (metis count_run_other)
next
  case (send us res vs)
  then have "inst_step T (\<lambda>i. n i - u i) s T' (\<lambda>i. n i - u i) s'" by (simp only: inst_step.send)
  then show ?thesis using send(2) by blast
qed (auto intro!: exI [of _ "\<lambda>i. n i - u i"] intro: inst_step.intros)

lemma inst_step_local:
  assumes "inst_step T n s T' n' s'" "local_inv T n s others"
  shows "local_inv T' n' s' others \<and> harmless others T T'"
  using assms(1)
proof cases
  case (fetch srt flt1 flt2 dbnow now batchSize page)
  then show ?thesis using fetch_local [OF assms(2)] by (simp add: harmless_refl)
next
  case (lock_won job rest flt now)
  then show ?thesis using lock_won_local [OF assms(2)] by simp
next
  case (lock_lost job rest flt now r)
  then show ?thesis using lock_lost_local [OF assms(2)] by simp
next
  case (acquire job k)
  then show ?thesis using acquire_local [OF assms(2)] by (simp add: harmless_refl)
next
  case (acquire_failed job)
  then show ?thesis using acquire_failed_local [OF assms(2)] by (simp add: harmless_refl)
next
  case (handle us job vs jh res)
  have "seen_ok T job" using assms(2) handle by (auto simp: local_inv_def inst_defs)
  then have res: "outgoing_ok T res" "res_JobID res = ej_ID job" using handleJob_outgoing [OF handle(5)] by auto
  have "local_inv T n' (s\<lparr>workers := us @ Sending res # vs, sem_free := sem_free s\<rparr>) others"
    unfolding handle(2) by (rule handled_local [OF assms(2) handle(4)])
      (use assms(2) handle res in \<open>auto simp: local_inv_def inst_defs held_def\<close>)
  moreover have "s\<lparr>workers := us @ Sending res # vs, sem_free := sem_free s\<rparr> = s'" using handle by simp
  ultimately show ?thesis using handle by (simp add: harmless_refl)
next
  case (panic us job vs jh)
  have "local_inv T n' (s\<lparr>workers := us @ vs, sem_free := sem_free s + 1\<rparr>) others"
    unfolding panic(2) by (rule handled_local [OF assms(2) panic(4)])
      (use assms(2) panic in \<open>auto simp: local_inv_def inst_defs held_def held_ok_def\<close>)
  then show ?thesis using panic by (simp add: harmless_refl)
next
  case (send us res vs)
  then show ?thesis using assms(2)
    by (auto simp: local_inv_def inst_defs held_def held_ok_def harmless_refl)
next
  case (mark res rest flt now)
  then show ?thesis using mark_local [OF assms(2)] by simp
qed (use assms(2) in \<open>auto simp: local_inv_def inst_defs held_simps harmless_refl\<close>)

lemma held_all_simps [simp]:
  "held_all [] = []" "held_all (s # ss) = held s @ held_all ss" "held_all (ss @ ts) = held_all ss @ held_all ts"
  by (simp_all add: held_all_def)

lemma held_ok_swap: "held_ok T (xs @ ys @ zs) \<longleftrightarrow> held_ok T (ys @ xs @ zs)"
  by (auto simp: held_ok_def)

lemma held_mem: "s \<in> set ss \<Longrightarrow> set (held s) \<subseteq> set (held_all ss)"
  by (auto simp: held_all_def)

lemma inst_ok_cong: "(\<And>i. i \<in> set (held s) \<Longrightarrow> n' i = n i) \<Longrightarrow> inst_ok T n s \<Longrightarrow> inst_ok T n' s"
  using pending_held [of _ s] by (simp add: inst_ok_def pending_ok_def)

lemma local_fewer_runs: "local_inv T n s others \<Longrightarrow> \<forall>i. m i \<le> n i \<Longrightarrow> local_inv T m s others"
  unfolding local_inv_def runs_ok_def inst_ok_def pending_ok_def by (meson of_nat_mono order_trans)

lemma local_of_sys: "sys_inv w \<Longrightarrow> insts w = xs @ s # ys \<Longrightarrow> local_inv (jobs w) (charged w) s (held_all xs @ held_all ys)"
  by (simp add: sys_inv_def local_inv_def held_ok_swap [of _ "held_all xs"])

lemma sys_inv_inst:
  assumes inv: "sys_inv w" and w: "insts w = xs @ s # ys" and step: "inst_step (jobs w) (runs w) s T' n' s'"
  shows "sys_inv (w\<lparr>jobs := T', insts := xs @ s' # ys, runs := n'\<rparr>)"
proof -
  let ?o = "held_all xs @ held_all ys" and ?w = "w\<lparr>jobs := T', insts := xs @ s' # ys, runs := n'\<rparr>"
  have l: "local_inv (jobs w) (charged w) s ?o" by (rule local_of_sys [OF inv w])
  obtain m' where m': "inst_step (jobs w) (charged w) s T' m' s'" "\<forall>i. charged ?w i \<le> m' i"
    and same: "\<And>i. i \<notin> set (held s) \<Longrightarrow> charged ?w i = charged w i"
    using inst_step_counts [OF step, of "unlocks w"] by (auto simp: charged_def [abs_def])
  have l': "local_inv T' (charged ?w) s' ?o" "harmless ?o (jobs w) T'"
    using inst_step_local [OF m'(1) l] local_fewer_runs m'(2) by auto
  have "inst_ok T' (charged ?w) u" if u: "u \<in> set (xs @ ys)" for u
  proof -
    have "set (held u) \<subseteq> set ?o" using u held_mem [of u xs] held_mem [of u ys] by auto
    then have "set (held u) \<inter> set (held s) = {}" using l by (auto simp: local_inv_def held_ok_append)
    moreover have "inst_ok T' (charged w) u" using harmless_inst [OF l'(2)] inv w u by (auto simp: sys_inv_def)
    ultimately show ?thesis using same by (auto intro: inst_ok_cong [rotated])
  qed
  with l' show ?thesis
    by (auto simp: sys_inv_def local_inv_def held_ok_swap [of _ "held_all xs"])
qed

lemma charged_jobs [simp]: "charged (w\<lparr>jobs := T\<rparr>) = charged w" "charged (w\<lparr>insts := ss\<rparr>) = charged w"
  by (simp_all add: charged_def [abs_def])

lemma sys_inv_table:
  assumes "sys_inv w" "harmless (held_all (insts w)) (jobs w) T' \<and> table_ok T'"
  shows "sys_inv (w\<lparr>jobs := T'\<rparr>)"
  using assms harmless_held harmless_runs harmless_inst unfolding sys_inv_def by auto

text \<open>The start of an instance while the others rest. A job it takes back from \<^verbatim>\<open>processing\<close> is in
  nobody's hands, and the unlock makes up for the call that may have been made.\<close>

lemma row_of_UnlockStaleJobs:
  "row_of (snd (UnlockStaleJobs None now timeout T)) i = map_option (\<lambda>r.
     if er_status r = StatusProcessing \<and> (case er_locked_at r of None \<Rightarrow> False | Some l \<Rightarrow> l \<le> now)
     then r\<lparr>er_status := StatusQueued, er_locked_by := None, er_locked_at := None\<rparr> else r) (row_of T i)"
  by (simp add: snd_UnlockStaleJobs row_by_update)

lemma next_id_unlock: "next_id (snd (UnlockStaleJobs None now timeout T)) = next_id T"
  by (simp add: snd_UnlockStaleJobs)

lemma table_ok_unlock: "table_ok T \<Longrightarrow> table_ok (snd (UnlockStaleJobs None now timeout T))"
  by (auto simp: snd_UnlockStaleJobs row_ok_def attempts_ok_def AllStatuses_def intro!: table_ok_update)

lemma restart_unlocks:
  "restart None now who k w =
     (let T' = snd (UnlockStaleJobs None now (5 * minute_ns) (jobs w))
      in w\<lparr>jobs := T', insts := insts w @ [new_instance who k], unlocks := count_unlocked (jobs w) T' (unlocks w)\<rparr>)"
  "restart (Some e) now who k w = w"
  by (simp_all add: restart_def UnlockStaleJobs_def exec_update_def Let_def)

lemma sys_inv_restart:
  assumes inv: "sys_inv w" and rest: "resting w"
  shows "sys_inv (restart None now who k w)"
proof -
  let ?w = "restart None now who k w" and ?T = "jobs w"
  let ?T' = "snd (UnlockStaleJobs None now (5 * minute_ns) ?T)"
  have w: "jobs ?w = ?T'" "insts ?w = insts w @ [new_instance who k]" "runs ?w = runs w"
    "unlocks ?w = count_unlocked ?T ?T' (unlocks w)" by (simp_all add: restart_unlocks Let_def)
  have none: "row_of ?T i = None" if "i \<in> set (held_all (insts w))" for i
    using that inv rest by (cases "row_of ?T i") (auto simp: sys_inv_def held_ok_def resting_def status_of_def)
  have fewer: "charged ?w i \<le> charged w i" for i
    unfolding charged_def w count_unlocked_def by (intro diff_le_mono2) simp
  have "int (charged ?w i) \<le> run_bound ?T' i" for i
  proof (cases "row_of ?T i")
    case None
    then have "run_bound ?T' i = run_bound ?T i" by (simp add: run_bound_def row_of_UnlockStaleJobs next_id_unlock)
    moreover have "int (charged w i) \<le> run_bound ?T i" using inv by (simp add: sys_inv_def runs_ok_def)
    ultimately show ?thesis using fewer [of i] by linarith
  next
    case (Some r)
    have "int (charged w i) \<le> run_bound ?T i" using inv by (simp add: sys_inv_def runs_ok_def)
    then have "int (charged w i) \<le> row_bound r" using Some by (simp add: run_bound_def)
    moreover have "0 \<le> er_attempts r"
      using inv row_by_Some [OF Some] by (auto simp: sys_inv_def table_ok_def enqueued_inv_def row_ok_def)
    ultimately show ?thesis using Some
      by (auto simp: run_bound_def row_of_UnlockStaleJobs row_bound_def charged_def w count_unlocked_def status_of_def
          split: option.splits if_splits)
  qed
  moreover have "inst_ok ?T' (charged ?w) s" if s: "s \<in> set (insts w)" for s
  proof -
    have ok: "inst_ok ?T (charged w) s" using inv s by (simp add: sys_inv_def)
    have "pending_ok ?T' (charged ?w) job" if "job \<in> pending s" for job
      using ok that none [of "ej_ID job"] pending_held [OF that] held_mem [OF s] fewer [of "ej_ID job"]
      by (auto simp: inst_ok_def pending_ok_def row_of_UnlockStaleJobs intro: order_trans)
    moreover have "seen_ok ?T' job" if "seen_ok ?T job" for job
      using that by (auto simp: seen_ok_def row_of_UnlockStaleJobs next_id_unlock)
    moreover have "outgoing_ok ?T' res" if "outgoing_ok ?T res" for res
      using that by (auto simp: outgoing_ok_def row_of_UnlockStaleJobs next_id_unlock)
    ultimately show ?thesis using ok by (auto simp: inst_ok_def)
  qed
  moreover have "held_ok ?T' (held_all (insts w))"
    using inv none by (auto simp: sys_inv_def held_ok_def row_of_UnlockStaleJobs next_id_unlock)
  moreover have "held (new_instance who k) = []" "inst_ok ?T' (charged ?w) (new_instance who k)"
    by (simp_all add: new_instance_def held_def inst_defs)
  ultimately show ?thesis
    using inv table_ok_unlock by (auto simp: sys_inv_def w runs_ok_def)
qed

lemma sys_inv_crash: "sys_inv w \<Longrightarrow> insts w = xs @ s # ys \<Longrightarrow> sys_inv (w\<lparr>insts := xs @ ys\<rparr>)"
  by (auto simp: sys_inv_def held_ok_append)

lemma snd_Enqueue: "snd (Enqueue flt now name due args T) = snd (Insert flt now name due args T)"
  by (auto simp: Enqueue_def split: prod.splits option.splits)

lemma sys_inv_tableD: "sys_inv w \<Longrightarrow> table_ok (jobs w)"
  by (simp add: sys_inv_def)

lemma step_inv:
  "step w w' \<Longrightarrow> sys_inv w \<Longrightarrow> (length (insts w) < length (insts w') \<longrightarrow> resting w) \<Longrightarrow> sys_inv w'"
proof (induction rule: step.induct)
  case (inst w xs s ys T' n' s')
  then show ?case by (simp add: sys_inv_inst)
next
  case (start w flt now who k)
  have "length (insts w) < length (insts (restart None now who k w))" by (simp add: restart_unlocks Let_def)
  with start show ?case by (cases flt) (simp_all only: sys_inv_restart restart_unlocks(2))
next
  case (crash w xs s ys)
  then show ?case by (simp add: sys_inv_crash)
qed (auto intro!: sys_inv_table simp: snd_Enqueue sys_inv_tableD retry_harmless insert_harmless bulk_harmless remove_harmless)

lemma sys_inv_initial: "sys_inv initial"
  by (simp add: sys_inv_def initial_def table_ok_def inv_empty held_ok_def runs_ok_def run_bound_def row_by_def charged_def)

lemma calm_inv: "calm_reach w \<Longrightarrow> sys_inv w"
  by (induction rule: calm_reach.induct) (auto simp: sys_inv_initial step_inv)

section \<open>In every run\<close>

text \<open>What holds whenever instances are started: the invariant of the table and the use of the semaphore.\<close>

lemma inst_step_sem: "inst_step T n s T' n' s' \<Longrightarrow> sem_ok s \<Longrightarrow> sem_ok s'"
  by (induction rule: inst_step.induct) (auto simp: sem_ok_def)

lemma step_sem: "step w w' \<Longrightarrow> \<forall>s \<in> set (insts w). sem_ok s \<Longrightarrow> \<forall>s \<in> set (insts w'). sem_ok s"
proof (induction rule: step.induct)
  case (inst w xs s ys T' n' s')
  then show ?case using inst_step_sem by auto
next
  case (start w flt now who k)
  then show ?case by (cases flt) (auto simp: restart_unlocks Let_def new_instance_def sem_ok_def)
qed auto

lemma inst_step_table: "inst_step T n s T' n' s' \<Longrightarrow> enqueued_reach T \<Longrightarrow> enqueued_reach T'"
proof (induction rule: inst_step.induct)
  case (mark s res rest flt now T T' n)
  then show ?case
    by (auto simp: process_result_def split: if_splits option.splits intro: enqueued_reach.intros)
qed (auto dest!: arg_cong [where f = snd] intro: enqueued_reach.lock)

lemma step_table: "step w w' \<Longrightarrow> enqueued_reach (jobs w) \<Longrightarrow> enqueued_reach (jobs w')"
proof (induction rule: step.induct)
  case (start w flt now who k)
  then show ?case by (cases flt) (auto simp: restart_unlocks Let_def intro: enqueued_reach.unlock)
qed (auto simp: snd_Enqueue inst_step_table intro: enqueued_reach.intros)

lemma reach_table: "reach w \<Longrightarrow> enqueued_inv (jobs w)"
proof -
  assume "reach w"
  then have "enqueued_reach (jobs w)"
    by (induction rule: reach.induct) (auto simp: initial_def enqueued_reach.empty step_table)
  then show ?thesis by (rule enqueued_reach_inv)
qed

section \<open>Properties\<close>

text \<open>(C1) No job is in the hands of two workers: over all instances, the jobs that have been locked
  and wait for a worker, are being handled, or have a result on its way, are pairwise different. The run may
  crash instances at any time and start others whenever no running instance has a job in processing in its hands.\<close>

theorem one_worker_per_job: "calm_reach w \<Longrightarrow> distinct (held_all (insts w))"
  using calm_inv by (simp add: sys_inv_def held_ok_def)

text \<open>(C2) The handler of a job is called at most \<^verbatim>\<open>MaxRetryAttempt\<close> times plus once for each time
  the start of an instance has taken the job back from processing, whatever the instances interleave, whatever the
  handlers do, whichever statements fail and whenever instances crash, provided instances are started
  only while no running instance has a job in processing in its hands.\<close>

theorem handler_calls_bounded:
  assumes "calm_reach w"
  shows "int (runs w i) \<le> MaxRetryAttempt + int (unlocks w i)"
proof -
  have w: "sys_inv w" by (rule calm_inv [OF assms])
  have "run_bound (jobs w) i \<le> 3"
  proof (cases "row_of (jobs w) i")
    case (Some r)
    then have "attempts_ok r" using w by (auto simp: sys_inv_def table_ok_def dest: row_by_Some)
    then show ?thesis using Some by (auto simp: run_bound_def row_bound_def attempts_ok_def)
  qed (simp add: run_bound_def)
  moreover have "int (charged w i) \<le> run_bound (jobs w) i" using w by (simp add: sys_inv_def runs_ok_def)
  ultimately show ?thesis by (simp add: MaxRetryAttempt_def charged_def)
qed

text \<open>(C32) The worker goroutines of an instance never outnumber its semaphore, and the channel of
  results never holds more than 1000.\<close>

theorem workers_bounded:
  assumes "reach w" "s \<in> set (insts w)"
  shows "length (workers s) \<le> sem_cap s \<and> length (results s) \<le> 1000"
proof -
  have "\<forall>s \<in> set (insts w). sem_ok s"
    using assms(1) by (induction rule: reach.induct) (simp add: initial_def, rule step_sem)
  then show ?thesis using assms(2) by (auto simp: sem_ok_def)
qed

text \<open>(C8) The counts of attempts and the statuses agree: at most three attempts are recorded, fewer
  than three for a job that can still be run or is being run, and exactly three for a dead job, in every
  run in which instances are started only while no running instance has a job in processing in its hands.\<close>

theorem attempts_agree:
  assumes "calm_reach w" "row_of (jobs w) i = Some r"
  shows "0 \<le> er_attempts r \<and> er_attempts r \<le> 3
    \<and> (er_status r \<in> {StatusQueued, StatusRetrying, StatusProcessing, StatusSucceeded} \<longrightarrow> er_attempts r < 3)
    \<and> (er_status r = StatusDead \<longrightarrow> er_attempts r = 3)"
proof -
  have "r \<in> set (trows (jobs w))" using assms(2) by (auto dest: row_by_Some)
  then have "attempts_ok r" "row_ok r"
    using calm_inv [OF assms(1)] by (auto simp: sys_inv_def table_ok_def enqueued_inv_def)
  then show ?thesis by (auto simp: attempts_ok_def row_ok_def)
qed

end
