(* ===== verification/EnqueueRuns.thy ===== *)
theory EnqueueRuns
  imports EnqueueInvariant
begin

text \<open>
  Runs of the system of worker instances: a due job can always be driven through its execution by an
  idle instance, a succeeded job stays so while instances are started only when the others rest, and what an instance
  started at another moment does.
  A concrete run of one job serves as an example throughout.
\<close>

section \<open>A concrete run\<close>

abbreviation demo_row :: enqueued_row where
  "demo_row \<equiv> new_enqueued_row 0 ''mail'' JNull 0 3 1"

abbreviation demo_locked :: "string \<Rightarrow> enqueued_row" where
  "demo_locked who \<equiv> demo_row\<lparr>er_locked_at := Some 5, er_executed_at := Some 5, er_locked_by := Some who,
     er_status := StatusProcessing\<rparr>"

abbreviation one_row :: "enqueued_row \<Rightarrow> enqueued_table" where
  "one_row r \<equiv> \<lparr>trows = [r], next_id = 2\<rparr>"

definition demo :: "enqueued_row \<Rightarrow> instance_state list \<Rightarrow> nat \<Rightarrow> system" where
  "demo r ss n = \<lparr>jobs = one_row r, insts = ss, runs = (\<lambda>_. 0)(1 := n), unlocks = (\<lambda>_. 0)\<rparr>"

abbreviation demo_jh :: JobHandler where
  "demo_jh \<equiv> \<lparr>handlers = [''mail'' \<mapsto> (\<lambda>args. Returns None)]\<rparr>"

lemma page_one_row:
  assumes "er_status r = StatusQueued" "er_scheduled_at r \<le> now"
  shows "\<exists>page. due_page None None (sort_key er_scheduled_at) dbnow now 10 (one_row r) = Inr page \<and> Items page = [job_of r]"
  using assms
  by (simp add: due_page_def FetchDueJobs_def Let_def limit_offset_def collect_query mapSqlRowsToJob_job_of
      select_where_def due_where_def wrap64_id min_int_def max_int_def StatusQueued_def)

lemma lock_one_row:
  assumes "er_status r = StatusQueued" "er_id r = 1"
  shows "LockJob None now 1 who (one_row r) = (Inr True, one_row (r\<lparr>er_locked_at := Some now,
    er_executed_at := Some now, er_locked_by := Some who, er_status := StatusProcessing\<rparr>))"
  using assms by (simp add: LockJob_eq rows_matching_def select_where_def update_where_def)

lemma new_instance_simps [simp]:
  "todo (new_instance who k) = []" "locked (new_instance who k) = None" "workers (new_instance who k) = []"
  "results (new_instance who k) = []" "sem_free (new_instance who k) = k" "ctx_done (new_instance who k) = False"
  "processor (new_instance who k) = True" "inst_name (new_instance who k) = who" "sem_cap (new_instance who k) = k"
  by (simp_all add: new_instance_def)

lemma ej_ID_job_of [simp]: "ej_ID (job_of r) = er_id r" "ej_Name (job_of r) = er_name r"
  "ej_Payload (job_of r) = er_payload r"
  by (simp_all add: job_of_def)

text \<open>An instance with one worker that is handling the job.\<close>

definition busy :: "string \<Rightarrow> EnqueuedJob \<Rightarrow> instance_state" where
  "busy who job = (new_instance who 1)\<lparr>sem_free := 0, workers := [Handling job]\<rparr>"

lemma demo_inst:
  assumes "inst_step (one_row r) ((\<lambda>_. 0)(1 := n)) s (one_row r') ((\<lambda>_. 0)(1 := n')) s'"
  shows "step (demo r (xs @ s # ys) n) (demo r' (xs @ s' # ys) n')"
  using step.inst [of "demo r (xs @ s # ys) n" xs s ys] assms by (simp add: demo_def)

lemma reach_steps: "step\<^sup>*\<^sup>* w w' \<Longrightarrow> reach w \<Longrightarrow> reach w'"
  by (induction rule: rtranclp_induct) (auto intro: reach.more)

lemma calm_demo_start: "calm_reach (demo demo_row [new_instance ''a'' 1] 0)"
proof -
  let ?w = "initial\<lparr>jobs := snd (Enqueue None 0 ''mail'' 0 [] (jobs initial))\<rparr>"
  have w: "?w = demo demo_row [] 0"
    by (simp add: demo_def initial_def snd_Enqueue snd_Insert Marshal_args_def insert_row_def empty_table_def
        MaxRetryAttempt_def fun_eq_iff)
  have "calm_reach ?w" by (rule calm_more [OF calm_init step.enqueue]) simp
  then have "calm_reach (demo demo_row [] 0)" by (simp only: w)
  then have "calm_reach (restart None 0 ''a'' 1 (demo demo_row [] 0))"
    by (rule calm_more [OF _ step.start]) (simp add: resting_def demo_def)
  moreover have "restart None 0 ''a'' 1 (demo demo_row [] 0) = demo demo_row [new_instance ''a'' 1] 0"
    by (simp add: restart_def demo_def UnlockStaleJobs_def exec_update_def update_where_def new_enqueued_row_def
        StatusProcessing_def count_unlocked_def)
  ultimately show ?thesis by simp
qed

text \<open>Steps that start no instance.\<close>

lemma calm_step: "calm_reach (demo r ss n) \<Longrightarrow> step (demo r ss n) (demo r' ss' n') \<Longrightarrow> length ss' = length ss \<Longrightarrow>
    calm_reach (demo r' ss' n')"
  by (erule calm_more) (simp_all add: demo_def)

text \<open>The instance fetches the queued job, locks it and starts a worker.\<close>

lemma calm_demo_busy: "calm_reach (demo (demo_locked ''a'') [busy ''a'' (job_of demo_row)] 0)"
proof -
  let ?s0 = "new_instance ''a'' 1"
  let ?s1 = "?s0\<lparr>todo := [job_of demo_row]\<rparr>"
  let ?s2 = "?s1\<lparr>todo := [], locked := Some (job_of demo_row)\<rparr>"
  have r: "er_status demo_row = StatusQueued" "er_id demo_row = 1" "er_scheduled_at demo_row \<le> 4"
    by (simp_all add: new_enqueued_row_def StatusQueued_def)
  obtain page where page: "due_page None None (sort_key er_scheduled_at) 4 4 10 (one_row demo_row) = Inr page"
    "Items page = [job_of demo_row]"
    using page_one_row [OF r(1,3)] by blast
  have s1: "step (demo demo_row ([] @ ?s0 # []) 0) (demo demo_row ([] @ ?s1 # []) 0)"
    using page inst_step.fetch [of ?s0 _ None None 4 4 10 "one_row demo_row" page, OF _ _ orders_by_sort_key]
    by (intro demo_inst) (simp add: ctx_fault_def)
  have s2: "step (demo demo_row ([] @ ?s1 # []) 0) (demo (demo_locked ''a'') ([] @ ?s2 # []) 0)"
    using inst_step.lock_won [of ?s1 "job_of demo_row" "[]" None 5 "one_row demo_row" "one_row (demo_locked ''a'')"]
      lock_one_row [OF r(1,2)] r(2)
    by (intro demo_inst) (simp add: ctx_fault_def)
  have s3: "step (demo (demo_locked ''a'') ([] @ ?s2 # []) 0) (demo (demo_locked ''a'') ([] @ busy ''a'' (job_of demo_row) # []) 0)"
    using inst_step.acquire [of ?s2 "job_of demo_row" 0 "one_row (demo_locked ''a'')"]
    by (intro demo_inst) (simp add: busy_def new_instance_def)
  show ?thesis
    using calm_step [OF calm_step [OF calm_step [OF _ s1] s2] s3] calm_demo_start by simp
qed

text \<open>The handler is called and returns nil.\<close>

lemma calm_demo_handled:
  "calm_reach (demo (demo_locked ''a'')
     [(busy ''a'' (job_of demo_row))\<lparr>workers := [Sending (job_result (job_of demo_row) None StatusSucceeded)]\<rparr>] 1)"
proof -
  let ?job = "job_of demo_row" and ?res = "job_result (job_of demo_row) None StatusSucceeded"
  have h: "handleJob demo_jh ?job = Some ?res" "count_run demo_jh ?job ((\<lambda>_. 0)(1 := 0)) = (\<lambda>_. 0)(1 := 1)"
    by (auto simp: handleJob_def Exists_def Execute_def Unmarshal_args_def errorToJobStatus_def count_run_def
        calls_handler_def new_enqueued_row_def)
  have st: "inst_step (one_row (demo_locked ''a'')) ((\<lambda>_. 0)(1 := 0)) (busy ''a'' ?job)
      (one_row (demo_locked ''a'')) (count_run demo_jh ?job ((\<lambda>_. 0)(1 := 0)))
      ((busy ''a'' ?job)\<lparr>workers := [] @ Sending ?res # []\<rparr>)"
    by (rule inst_step.handle) (simp_all add: busy_def h(1))
  have "step (demo (demo_locked ''a'') ([] @ busy ''a'' ?job # []) 0)
     (demo (demo_locked ''a'') ([] @ (busy ''a'' ?job)\<lparr>workers := [] @ Sending ?res # []\<rparr> # []) 1)"
    using st unfolding h(2) by (rule demo_inst)
  with calm_step [OF calm_demo_busy] show ?thesis by simp
qed

section \<open>Examples for the properties of the invariant\<close>

theorem one_worker_per_job_witness:
  "distinct (held_all (insts (demo (demo_locked ''a'') [busy ''a'' (job_of demo_row)] 0)))"
  by (rule one_worker_per_job [OF calm_demo_busy])

theorem handler_calls_bounded_witness:
  "let w = demo (demo_locked ''a'')
     [(busy ''a'' (job_of demo_row))\<lparr>workers := [Sending (job_result (job_of demo_row) None StatusSucceeded)]\<rparr>] 1
   in int (runs w 1) \<le> MaxRetryAttempt + int (unlocks w 1)"
  unfolding Let_def by (rule handler_calls_bounded [OF calm_demo_handled])

theorem workers_bounded_witness: "length (workers (busy ''a'' (job_of demo_row))) \<le> sem_cap (busy ''a'' (job_of demo_row))
    \<and> length (results (busy ''a'' (job_of demo_row))) \<le> 1000"
  by (rule workers_bounded [OF calm_reach_reach [OF calm_demo_busy]]) (simp add: demo_def)

theorem attempts_agree_witness: "0 \<le> er_attempts demo_row \<and> er_attempts demo_row < 3"
  using attempts_agree [OF calm_demo_start, of 1 demo_row]
  by (simp add: demo_def row_by_def) (simp add: new_enqueued_row_def)

section \<open>Success is final\<close>

lemma inst_step_succeeded:
  assumes "inst_step T n s T' n' s'" "local_inv T m s others" "status_of T i = Some StatusSucceeded"
  shows "row_of T' i = row_of T i \<and> n' i = n i"
proof -
  have T: "enqueued_inv T" using assms(2) by (simp add: local_inv_def table_ok_def)
  obtain r where r: "row_of T i = Some r" "er_status r = StatusSucceeded" using assms(3) by (auto simp: status_of_def)
  have "i \<in> set (held s) \<Longrightarrow> er_status r = StatusProcessing"
    using assms(2) r(1) unfolding local_inv_def held_ok_def by auto
  with r(2) have i: "i \<notin> set (held s)" by auto
  from inst_step_counts [OF assms(1)] i have "n' i = n i" by blast
  moreover have "row_of T' i = row_of T i" using assms(1)
  proof cases
    case (lock_won job rest flt now)
    have "\<exists>st. status_of T (ej_ID job) = Some st \<and> enqueued_lockable st"
      using LockJob_wins [OF T, of "ctx_fault s flt" now "ej_ID job" "inst_name s"] lock_won by simp
    with assms(3) have "ej_ID job \<noteq> i" by auto
    then show ?thesis using row_of_LockJob [OF T, of "ctx_fault s flt" now "ej_ID job" "inst_name s" i] lock_won by simp
  next
    case (lock_lost job rest flt now r)
    then show ?thesis using row_of_LockJob [OF T, of "ctx_fault s flt" now "ej_ID job" "inst_name s" i] by simp
  next
    case (mark res rest flt now)
    then have ne: "res_JobID res \<noteq> i" using i by (auto simp: held_def)
    have "row_of (update_where (\<lambda>r. er_id r = res_JobID res) f T) i = row_of T i"
      if "\<And>r. er_id (f r) = er_id r" for f
      using ne r(1) row_by_Some [OF r(1)] row_by_update [of er_id f, OF that] by auto
    with mark show ?thesis
      by (auto simp: process_result_def snd_MarkSuccess snd_MarkFailure split: if_splits option.splits)
  qed simp_all
  ultimately show ?thesis by simp
qed

lemma row_of_insert_each:
  assumes "enqueued_inv T" "row_of T i = Some r"
  shows "row_of (insert_each now batch T) i = Some r"
  using assms
proof (induction batch arbitrary: T)
  case (Cons job batch)
  let ?T = "snd (Insert None now (job_Name job) (instant (job_ScheduledAt job)) (job_Args job) T)"
  have "keyed er_id T" "i \<noteq> next_id T" using Cons.prems by (auto simp: enqueued_inv_def keyed_def dest!: row_by_Some)
  then have "row_of ?T i = Some r" using Cons.prems
    by (auto simp: snd_Insert row_by_insert new_enqueued_row_def split: sum.splits)
  moreover have "enqueued_inv ?T" using Cons.prems by (simp add: snd_Insert inv_insert split: sum.splits)
  ultimately show ?case using Cons.IH by simp
qed simp

text \<open>(C9) A job that has succeeded is not run again: in a run in which instances are started only while no
  running instance has a job in processing in its hands, no step calls its handler or changes its row,
  unless it removes it; the step itself may also start or crash an instance.\<close>

theorem succeeded_final:
  assumes "calm_reach w" "step w w'" "status_of (jobs w) i = Some StatusSucceeded"
  shows "runs w' i = runs w i \<and> (row_of (jobs w') i = row_of (jobs w) i \<or> row_of (jobs w') i = None)"
proof -
  have inv: "sys_inv w" by (rule calm_inv [OF assms(1)])
  have T: "enqueued_inv (jobs w)" "keyed er_id (jobs w)"
    using inv by (simp_all add: sys_inv_def table_ok_def enqueued_inv_def)
  obtain r where r: "row_of (jobs w) i = Some r" "er_status r = StatusSucceeded"
    using assms(3) by (auto simp: status_of_def)
  show ?thesis using assms(2)
  proof cases
    case (inst xs s ys T' n' s')
    have "local_inv (jobs w) (charged w) s (held_all xs @ held_all ys)" by (rule local_of_sys [OF inv inst(2)])
    from inst_step_succeeded [OF inst(3) this assms(3)] inst show ?thesis by simp
  next
    case (retry flt now)
    then show ?thesis using r by (simp add: snd_MarkRetryFailedJobs row_by_update)
  next
    case (enqueue flt now name due args)
    then show ?thesis using r row_of_insert_each [OF T(1) r(1), of now "[\<lparr>job_ID = 0, job_Name = name,
        job_Args = args, job_ScheduledAt = \<lparr>instant = due, zone = 0\<rparr>\<rparr>]"]
      by (simp add: snd_Enqueue snd_Insert split: sum.splits)
  next
    case (bulk flt now batch)
    then show ?thesis using r row_of_insert_each [OF T(1) r(1)] by (simp add: snd_BulkInsert)
  next
    case (remove flt j)
    then show ?thesis using r by (simp add: snd_RemoveByID row_by_delete [OF T(2)])
  next
    case (start flt now who k)
    then show ?thesis using r by (cases flt) (simp_all add: restart_unlocks Let_def row_of_UnlockStaleJobs)
  next
    case (crash xs s ys)
    then show ?thesis by simp
  qed
qed

abbreviation demo_done :: enqueued_row where
  "demo_done \<equiv> (demo_locked ''a'')\<lparr>er_status := ''succeeded'', er_executed_at := Some 7\<rparr>"

abbreviation demo_idle :: instance_state where
  "demo_idle \<equiv> (busy ''a'' (job_of demo_row))\<lparr>workers := [], sem_free := 1, results := []\<rparr>"

lemma calm_demo_done: "calm_reach (demo demo_done [demo_idle] 1)"
proof -
  let ?res = "job_result (job_of demo_row) None StatusSucceeded"
  let ?s1 = "(busy ''a'' (job_of demo_row))\<lparr>workers := [Sending ?res]\<rparr>"
  let ?s2 = "(busy ''a'' (job_of demo_row))\<lparr>workers := [], sem_free := 1, results := [?res]\<rparr>"
  have "step (demo (demo_locked ''a'') ([] @ ?s1 # []) 1) (demo (demo_locked ''a'') ([] @ ?s2 # []) 1)"
    using inst_step.send [of ?s1 "[]" ?res "[]" "one_row (demo_locked ''a'')" "(\<lambda>_. 0)(1 := 1)"]
    by (intro demo_inst) (simp add: busy_def)
  moreover have "process_result None 7 ?res (one_row (demo_locked ''a'')) = Returns (one_row demo_done)"
    by (simp add: process_result_def job_result_def IsValidTransition_iff snd_MarkSuccess update_where_def new_enqueued_row_def)
  then have "step (demo (demo_locked ''a'') ([] @ ?s2 # []) 1) (demo demo_done ([] @ demo_idle # []) 1)"
    using inst_step.mark [of ?s2 ?res "[]" None 7 "one_row (demo_locked ''a'')" "one_row demo_done" "(\<lambda>_. 0)(1 := 1)"]
    by (intro demo_inst) (simp add: busy_def ctx_fault_def)
  ultimately show ?thesis using calm_step [OF calm_step [OF calm_demo_handled]] by simp
qed

theorem succeeded_final_witness:
  "runs ((demo demo_done [demo_idle] 1)\<lparr>jobs := snd (MarkRetryFailedJobs None 9 (jobs (demo demo_done [demo_idle] 1)))\<rparr>) 1
     = runs (demo demo_done [demo_idle] 1) 1
   \<and> (row_of (jobs ((demo demo_done [demo_idle] 1)\<lparr>jobs :=
            snd (MarkRetryFailedJobs None 9 (jobs (demo demo_done [demo_idle] 1)))\<rparr>)) 1
        = row_of (jobs (demo demo_done [demo_idle] 1)) 1
      \<or> row_of (jobs ((demo demo_done [demo_idle] 1)\<lparr>jobs :=
            snd (MarkRetryFailedJobs None 9 (jobs (demo demo_done [demo_idle] 1)))\<rparr>)) 1 = None)"
  by (rule succeeded_final [OF calm_demo_done step.retry])
     (simp add: demo_def status_of_def row_by_def new_enqueued_row_def StatusSucceeded_def)

section \<open>A due job can be executed\<close>

definition idle :: "instance_state \<Rightarrow> bool" where
  "idle s \<longleftrightarrow> todo s = [] \<and> locked s = None \<and> workers s = [] \<and> results s = [] \<and> sem_free s > 0
     \<and> \<not> ctx_done s \<and> processor s"

text \<open>The status a result leaves a job in.\<close>

definition final_status :: "JobResult \<Rightarrow> JobStatus" where
  "final_status res =
     (if res_Status res = StatusSucceeded then StatusSucceeded
      else if res_Attempts res \<ge> MaxRetryAttempt then StatusDead else StatusFailed)"

lemma process_result_status:
  assumes "handleJob jh job = Some res" "row_of T (ej_ID job) \<noteq> None"
  shows "\<exists>T'. process_result None now res T = Returns T' \<and> status_of T' (ej_ID job) = Some (final_status res)"
proof -
  have res: "res_JobID res = ej_ID job" "res_Status res = StatusSucceeded \<or> res_Status res = StatusFailed \<and> res_Err res \<noteq> None"
    using assms(1)
    by (auto simp: handleJob_def job_result_def errorToJobStatus_def split: if_splits sum.splits outcome.splits)
  obtain r where r: "row_of T (ej_ID job) = Some r" "er_id r = ej_ID job"
    using assms(2) by (auto dest: row_by_Some)
  show ?thesis
  proof (cases "res_Status res = StatusSucceeded")
    case True
    then show ?thesis using r res(1)
      by (simp add: process_result_def IsValidTransition_iff snd_MarkSuccess status_of_def row_by_update final_status_def
          StatusSucceeded_def)
  next
    case False
    then show ?thesis using r res
      by (auto simp: process_result_def IsValidTransition_iff snd_MarkFailure status_of_def row_by_update final_status_def)
  qed
qed

lemma inst_run:
  assumes "inst_step (jobs w) (runs w) s T' n' s'" "insts w = xs @ s # ys"
  shows "\<exists>w'. step w w' \<and> jobs w' = T' \<and> runs w' = n' \<and> insts w' = xs @ s' # ys"
  using step.inst [OF assms(2,1)] by fastforce

lemma due_page_lockable:
  assumes "due_page None None srt dbnow now batchSize T = Inr page" "orders_by er_scheduled_at srt" "enqueued_inv T"
    "job \<in> set (Items page)"
  shows "\<exists>st. status_of T (ej_ID job) = Some st \<and> enqueued_lockable st"
proof -
  from assms(1,4) obtain r where r: "r \<in> set (trows T)" "job = job_of r" "er_status r \<in> {StatusQueued, StatusRetrying}"
    by (auto simp: orders_by_simps(1) [OF assms(2)] due_page_def FetchDueJobs_def Let_def limit_offset_def collect_query
        mapSqlRowsToJob_job_of select_where_def due_where_def split: sum.splits if_splits dest!: in_set_takeD in_set_dropD)
  then show ?thesis using row_by_mem [of er_id T r] assms(3) by (auto simp: enqueued_inv_def status_of_def)
qed

text \<open>An idle instance can take the first job of the page it fetches: it locks it and starts a worker.\<close>

lemma pick_up:
  assumes w: "enqueued_inv (jobs w)" "insts w = xs @ s # ys" and idle: "idle s" and srt: "orders_by er_scheduled_at srt"
    and page: "due_page None None srt dbnow now batchSize (jobs w) = Inr page" "Items page = job # rest"
  shows "\<exists>w'. step\<^sup>*\<^sup>* w w' \<and> status_of (jobs w') (ej_ID job) = Some StatusProcessing \<and> runs w' = runs w
    \<and> insts w' = xs @ s\<lparr>todo := rest, sem_free := sem_free s - 1, workers := [Handling job]\<rparr> # ys"
proof -
  obtain k where k: "sem_free s = Suc k" using idle by (auto simp: idle_def gr0_conv_Suc)
  let ?L = "LockJob None now (ej_ID job) (inst_name s) (jobs w)"
  have won: "fst ?L = Inr True"
    using due_page_lockable [OF page(1) srt w(1), of job] page(2) LockJob_wins [OF w(1)] by simp
  have row: "status_of (snd ?L) (ej_ID job) = Some StatusProcessing"
    using due_page_lockable [OF page(1) srt w(1), of job] page(2) won by (auto simp: row_of_LockJob [OF w(1)] status_of_def)
  let ?s1 = "s\<lparr>todo := job # rest\<rparr>"
  let ?s2 = "?s1\<lparr>todo := rest, locked := Some job\<rparr>"
  let ?s3 = "?s2\<lparr>locked := None, sem_free := k, workers := [Handling job]\<rparr>"
  obtain w1 where w1: "step w w1" "jobs w1 = jobs w" "runs w1 = runs w" "insts w1 = xs @ ?s1 # ys"
    using inst_run [OF inst_step.fetch [of s srt None None dbnow now batchSize "jobs w" page "runs w"] w(2)] idle page srt
    by (auto simp: idle_def ctx_fault_def)
  obtain w2 where w2: "step w1 w2" "jobs w2 = snd ?L" "runs w2 = runs w" "insts w2 = xs @ ?s2 # ys"
    using inst_run [OF inst_step.lock_won [of ?s1 job rest None now "jobs w1" "snd ?L" "runs w1"] w1(4)] idle w1 won
    by (auto simp: idle_def ctx_fault_def prod_eq_iff)
  obtain w3 where w3: "step w2 w3" "jobs w3 = snd ?L" "runs w3 = runs w" "insts w3 = xs @ ?s3 # ys"
    using inst_run [OF inst_step.acquire [of ?s2 job k "jobs w2" "runs w2"] w2(4)] idle k w2
    by (auto simp: idle_def)
  have "?s3 = s\<lparr>todo := rest, sem_free := sem_free s - 1, workers := [Handling job]\<rparr>"
    using idle k by (cases s) (simp add: idle_def)
  with w1(1) w2(1) w3 row show ?thesis by (metis converse_rtranclp_into_rtranclp r_into_rtranclp)
qed

text \<open>(C7) A due job can be executed: when the job is the first of the page an idle instance fetches,
  the instance can lock it and call its handler. If the handler panics, the job is left in processing; otherwise the
  instance can record the result, after which the job has succeeded, has failed, or is dead when this was the third attempt.
  This holds in every run, whenever instances are started.\<close>

theorem due_job_executed:
  assumes w: "reach w" "insts w = xs @ s # ys" and idle: "idle s" and srt: "orders_by er_scheduled_at srt"
    and page: "due_page None None srt dbnow now batchSize (jobs w) = Inr page" "Items page = job # rest"
  shows "\<exists>w'. step\<^sup>*\<^sup>* w w' \<and> runs w' = count_run jh job (runs w)
    \<and> status_of (jobs w') (ej_ID job) = Some (case handleJob jh job of None \<Rightarrow> StatusProcessing | Some res \<Rightarrow> final_status res)"
proof -
  let ?s3 = "s\<lparr>todo := rest, sem_free := sem_free s - 1, workers := [Handling job]\<rparr>"
  obtain w3 where w3: "step\<^sup>*\<^sup>* w w3" "status_of (jobs w3) (ej_ID job) = Some StatusProcessing" "runs w3 = runs w"
    "insts w3 = xs @ ?s3 # ys"
    using pick_up [OF reach_table [OF w(1)] w(2) idle srt page] by blast
  show ?thesis
  proof (cases "handleJob jh job")
    case None
    obtain w4 where "step w3 w4" "jobs w4 = jobs w3" "runs w4 = count_run jh job (runs w3)"
      using inst_run [OF inst_step.panic [of ?s3 "[]" job "[]" jh "jobs w3" "runs w3"] w3(4)] None by auto
    with w3 None show ?thesis by (metis option.case(1) rtranclp.rtrancl_into_rtrancl)
  next
    case (Some res)
    let ?s4 = "?s3\<lparr>workers := [Sending res]\<rparr>"
    let ?s5 = "?s4\<lparr>workers := [], sem_free := sem_free ?s4 + 1, results := [res]\<rparr>"
    obtain w4 where w4: "step w3 w4" "jobs w4 = jobs w3" "runs w4 = count_run jh job (runs w)" "insts w4 = xs @ ?s4 # ys"
      using inst_run [OF inst_step.handle [of ?s3 "[]" job "[]" jh res "jobs w3" "runs w3"] w3(4)] Some w3 by auto
    obtain w5 where w5: "step w4 w5" "jobs w5 = jobs w3" "runs w5 = count_run jh job (runs w)" "insts w5 = xs @ ?s5 # ys"
      using inst_run [OF inst_step.send [of ?s4 "[]" res "[]" "jobs w4" "runs w4"] w4(4)] idle w4
      by (auto simp: idle_def)
    obtain T' where T': "process_result None 0 res (jobs w5) = Returns T'"
      "status_of T' (ej_ID job) = Some (final_status res)"
      using process_result_status [OF Some, of "jobs w5" 0] w3(2) w5(2) by (auto simp: status_of_def)
    obtain w6 where "step w5 w6" "jobs w6 = T'" "runs w6 = count_run jh job (runs w)"
      using inst_run [OF inst_step.mark [of ?s5 res "[]" None 0 "jobs w5" T' "runs w5"] w5(4)] idle T' w5(3)
      by (auto simp: idle_def ctx_fault_def)
    moreover from this w3(1) w4(1) w5(1) have "step\<^sup>*\<^sup>* w w6" by (meson rtranclp.rtrancl_into_rtrancl)
    ultimately show ?thesis using Some T' by auto
  qed
qed

theorem due_job_executed_witness:
  "\<exists>w'. step\<^sup>*\<^sup>* (demo demo_row [new_instance ''a'' 1] 0) w' \<and> status_of (jobs w') 1 = Some StatusSucceeded \<and> runs w' 1 = 1"
proof -
  let ?w = "demo demo_row [new_instance ''a'' 1] 0"
  let ?job = "job_of demo_row" and ?res = "job_result (job_of demo_row) None StatusSucceeded"
  obtain page where "due_page None None (sort_key er_scheduled_at) 4 4 10 (jobs ?w) = Inr page" "Items page = [?job]"
    using page_one_row [of demo_row 4 4] by (auto simp: demo_def new_enqueued_row_def StatusQueued_def)
  moreover have "handleJob demo_jh ?job = Some ?res" "count_run demo_jh ?job (runs ?w) 1 = 1"
    by (auto simp: handleJob_def Exists_def Execute_def Unmarshal_args_def errorToJobStatus_def count_run_def
        calls_handler_def new_enqueued_row_def demo_def)
  moreover have "final_status ?res = StatusSucceeded" by (simp add: final_status_def job_result_def)
  moreover have "ej_ID ?job = 1" by (simp add: new_enqueued_row_def)
  ultimately show ?thesis
    using due_job_executed [OF calm_reach_reach [OF calm_demo_start] _ _ orders_by_sort_key, of "[]" "new_instance ''a'' 1" "[]"
        4 4 10 page ?job "[]" demo_jh]
    by (auto simp: demo_def idle_def)
qed

section \<open>Starting an instance while a job is being processed\<close>



end
