(* ===== verification/WebText.thy ===== *)
theory WebText
  imports GoConv
begin

text \<open>
  Text between the server and the browser: percent-encoding (\<^verbatim>\<open>url.QueryEscape\<close> in Go,
  \<^verbatim>\<open>decodeURIComponent\<close> in JavaScript) and UTF-8. A JavaScript string is represented by the UTF-8
  encoding of its text, a byte string like a Go string. Splitting at ASCII separators, joining,
  comparing and replacing ASCII characters do the same on both representations, because no byte of
  a multi-byte character is an ASCII byte; the strings the dashboard handles come from cookies,
  URLs and \<^verbatim>\<open>decodeURIComponent\<close>, none of which yields a lone surrogate.
\<close>

section \<open>Percent-encoded bytes\<close>

definition byte :: "char \<Rightarrow> nat" where "byte c = of_char c"

definition hexval :: "char \<Rightarrow> nat option" where
  "hexval c =
     (if 48 \<le> byte c \<and> byte c \<le> 57 then Some (byte c - 48)
      else if 65 \<le> byte c \<and> byte c \<le> 70 then Some (byte c - 55)
      else if 97 \<le> byte c \<and> byte c \<le> 102 then Some (byte c - 87)
      else None)"

definition hexchar :: "nat \<Rightarrow> char" where
  "hexchar n = (if n < 10 then char_of (48 + n) else char_of (55 + n))"

definition percent :: "char \<Rightarrow> string" where
  "percent c = [CHR ''%'', hexchar (byte c div 16), hexchar (byte c mod 16)]"

text \<open>An escape at the head of a text.\<close>

fun pct :: "string \<Rightarrow> (char \<times> string) option" where
  "pct (p # h # l # s) =
     (if p = CHR ''%'' then
        (case (hexval h, hexval l) of
           (Some a, Some b) \<Rightarrow> Some (char_of (16 * a + b), s)
         | _ \<Rightarrow> None)
      else None)"
| "pct _ = None"

definition alnum :: "char \<Rightarrow> bool" where
  "alnum c \<longleftrightarrow> 48 \<le> byte c \<and> byte c \<le> 57 \<or> 65 \<le> byte c \<and> byte c \<le> 90 \<or> 97 \<le> byte c \<and> byte c \<le> 122"

definition unreserved :: "char \<Rightarrow> bool" where
  "unreserved c \<longleftrightarrow> alnum c \<or> c \<in> {CHR ''-'', CHR ''_'', CHR ''.'', CHR ''~''}"

definition escape_char :: "char \<Rightarrow> string" where
  "escape_char c = (if c = CHR '' '' then ''+'' else if unreserved c then [c] else percent c)"

definition QueryEscape :: "string \<Rightarrow> string" where
  "QueryEscape s = concat (map escape_char s)"

lemma byte_bound: "byte c < 256"
  by (simp add: byte_def)

lemma char_of_byte [simp]: "char_of (byte c) = c"
  by (simp add: byte_def)

lemma byte_char_of: "n < 256 \<Longrightarrow> byte (char_of n) = n"
  by (simp add: byte_def)

lemma byte_inject: "byte c = byte d \<longleftrightarrow> c = d"
  by (metis char_of_byte)

lemma hexval_hexchar: "n < 16 \<Longrightarrow> hexval (hexchar n) = Some n"
  by (simp add: hexval_def hexchar_def byte_char_of)

lemma hexchar_plain: "n < 16 \<Longrightarrow> hexchar n \<noteq> CHR ''+'' \<and> hexchar n \<noteq> CHR '';'' \<and> alnum (hexchar n)"
proof -
  assume "n < 16"
  then have "byte (hexchar n) = (if n < 10 then 48 + n else 55 + n)" by (simp add: hexchar_def byte_char_of)
  moreover have "byte CHR ''+'' = 43" "byte CHR '';'' = 59" by (simp_all add: byte_def)
  ultimately show ?thesis using \<open>n < 16\<close> by (auto simp: alnum_def byte_inject [symmetric])
qed

lemma pct_percent [simp]: "pct (percent c @ s) = Some (c, s)"
proof -
  have "byte c div 16 < 16" using byte_bound [of c] by simp
  then show ?thesis by (simp add: percent_def hexval_hexchar)
qed

lemma pct_length: "pct s = Some (c, s') \<Longrightarrow> length s' < length s"
  by (induction s rule: pct.induct) (auto split: if_splits option.splits)

section \<open>UTF-8\<close>

definition cont :: "nat \<Rightarrow> bool" where
  "cont b \<longleftrightarrow> 128 \<le> b \<and> b < 192"

definition second_ok :: "nat \<Rightarrow> nat \<Rightarrow> bool" where
  "second_ok b c \<longleftrightarrow> cont c \<and> (b = 224 \<longrightarrow> 160 \<le> c) \<and> (b = 237 \<longrightarrow> c < 160) \<and> (b = 240 \<longrightarrow> 144 \<le> c) \<and> (b = 244 \<longrightarrow> c < 144)"

text \<open>The well-formed byte sequences of one character.\<close>

fun utf8_seq :: "nat list \<Rightarrow> bool" where
  "utf8_seq [b] = (b < 128)"
| "utf8_seq [b, c] = (194 \<le> b \<and> b < 224 \<and> cont c)"
| "utf8_seq [b, c, d] = (224 \<le> b \<and> b < 240 \<and> second_ok b c \<and> cont d)"
| "utf8_seq [b, c, d, e] = (240 \<le> b \<and> b < 245 \<and> second_ok b c \<and> cont d \<and> cont e)"
| "utf8_seq _ = False"

inductive wf_utf8 :: "string \<Rightarrow> bool" where
  nil: "wf_utf8 []"
| char: "utf8_seq (map byte q) \<Longrightarrow> wf_utf8 s \<Longrightarrow> wf_utf8 (q @ s)"

text \<open>How many bytes a sequence has that starts with a byte; 0 when none does.\<close>

definition lead_len :: "nat \<Rightarrow> nat" where
  "lead_len b = (if b < 128 then 1 else if b < 192 then 0 else if b < 224 then 2 else if b < 240 then 3
     else if b < 248 then 4 else 0)"

lemma utf8_seq_lead: "utf8_seq (b # bs) \<Longrightarrow> lead_len b = Suc (length bs)"
  by (induction "b # bs" rule: utf8_seq.induct) (auto simp: lead_len_def)

lemma utf8_seq_multi: "utf8_seq (b # c # bs) \<Longrightarrow> \<forall>x \<in> set (b # c # bs). 128 \<le> x"
  by (induction "b # c # bs" rule: utf8_seq.induct) (auto simp: cont_def second_ok_def)

section \<open>decodeURIComponent\<close>

text \<open>\<^verbatim>\<open>n\<close> escapes in a row.\<close>

fun pcts :: "nat \<Rightarrow> string \<Rightarrow> (string \<times> string) option" where
  "pcts 0 s = Some ([], s)"
| "pcts (Suc n) s =
     (case pct s of
        None \<Rightarrow> None
      | Some (c, s') \<Rightarrow> map_option (\<lambda>(cs, s''). (c # cs, s'')) (pcts n s'))"

lemma pcts_length: "pcts n s = Some (cs, s') \<Longrightarrow> length s' \<le> length s"
  by (induction n arbitrary: s cs) (fastforce split: option.splits dest: pct_length)+

lemma pcts_percents: "pcts (length cs) (concat (map percent cs) @ s) = Some (cs, s)"
  by (induction cs) auto

text \<open>The result is \<open>None\<close> when a \<^verbatim>\<open>URIError\<close> is thrown.\<close>

function decodeURIComponent :: "string \<Rightarrow> string option" where
  "decodeURIComponent [] = Some []"
| "decodeURIComponent (c # s) =
     (if c \<noteq> CHR ''%'' then map_option ((#) c) (decodeURIComponent s)
      else case pct (c # s) of
             None \<Rightarrow> None
           | Some (b, s1) \<Rightarrow>
               (case pcts (lead_len (byte b) - 1) s1 of
                  None \<Rightarrow> None
                | Some (bs, s2) \<Rightarrow>
                    if utf8_seq (map byte (b # bs)) then map_option ((@) (b # bs)) (decodeURIComponent s2)
                    else None))"
  by pat_completeness auto
termination
  by (relation "measure length") (auto dest!: pct_length pcts_length simp del: pct.simps)

lemma decode_plain: "c \<noteq> CHR ''%'' \<Longrightarrow> decodeURIComponent (c # s) = map_option ((#) c) (decodeURIComponent s)"
  by simp

lemma decode_percents:
  assumes "utf8_seq (map byte (b # bs))"
  shows "decodeURIComponent (concat (map percent (b # bs)) @ s) = map_option ((@) (b # bs)) (decodeURIComponent s)"
proof -
  have p: "concat (map percent (b # bs)) @ s = percent b @ concat (map percent bs) @ s" by simp
  have c: "\<exists>t. percent b @ r = CHR ''%'' # t" for r by (simp add: percent_def)
  then obtain t where t: "percent b @ concat (map percent bs) @ s = CHR ''%'' # t" by blast
  have "pct (CHR ''%'' # t) = Some (b, concat (map percent bs) @ s)" using t pct_percent by metis
  moreover have "lead_len (byte b) - 1 = length bs" using utf8_seq_lead [of "byte b" "map byte bs"] assms by simp
  ultimately show ?thesis using assms unfolding p t by (simp add: pcts_percents del: pct.simps)
qed

section \<open>The round trip\<close>

definition plus_to_space :: "string \<Rightarrow> string" where
  "plus_to_space s = map (\<lambda>c. if c = CHR ''+'' then CHR '' '' else c) s"

lemma plus_to_space_percent: "plus_to_space (concat (map percent cs)) = concat (map percent cs)"
proof (induction cs)
  case (Cons c cs)
  have "byte c div 16 < 16" using byte_bound [of c] by simp
  with Cons hexchar_plain show ?case by (simp add: plus_to_space_def percent_def)
qed (simp add: plus_to_space_def)

lemma QueryEscape_append: "QueryEscape (a @ b) = QueryEscape a @ QueryEscape b"
  by (simp add: QueryEscape_def)

lemma plus_to_space_append: "plus_to_space (a @ b) = plus_to_space a @ plus_to_space b"
  by (simp add: plus_to_space_def)

lemma unreserved_ascii: "unreserved c \<Longrightarrow> byte c < 128 \<and> c \<noteq> CHR ''%'' \<and> c \<noteq> CHR ''+'' \<and> c \<noteq> CHR '';''"
proof -
  have "byte CHR ''%'' = 37" "byte CHR ''+'' = 43" "byte CHR '';'' = 59" "byte CHR ''-'' = 45" "byte CHR ''_'' = 95"
    "byte CHR ''.'' = 46" "byte CHR ''~'' = 126" by (simp_all add: byte_def)
  then show "unreserved c \<Longrightarrow> byte c < 128 \<and> c \<noteq> CHR ''%'' \<and> c \<noteq> CHR ''+'' \<and> c \<noteq> CHR '';''"
    by (auto simp: unreserved_def alnum_def byte_inject [symmetric])
qed

lemma QueryEscape_multi:
  assumes "\<forall>c \<in> set cs. 128 \<le> byte c"
  shows "QueryEscape cs = concat (map percent cs)"
proof -
  have "escape_char c = percent c" if "c \<in> set cs" for c
    using assms that unreserved_ascii [of c] by (auto simp: escape_char_def byte_def)
  then show ?thesis by (simp add: QueryEscape_def cong: map_cong)
qed

lemma decode_QueryEscape_char:
  assumes "utf8_seq (map byte q)"
  shows "decodeURIComponent (plus_to_space (QueryEscape q) @ s) = map_option ((@) q) (decodeURIComponent s)"
proof -
  obtain b bs where q: "q = b # bs" using assms by (cases q) auto
  show ?thesis
  proof (cases bs)
    case Nil
    have one: "(@) [b] = (#) b" by (simp add: fun_eq_iff)
    have dec: "decodeURIComponent (percent b @ s) = map_option ((#) b) (decodeURIComponent s)"
      using decode_percents [of b "[]" s] assms q Nil by (simp add: one)
    show ?thesis using dec unreserved_ascii [of b] plus_to_space_percent [of "[b]"] q Nil
      by (simp add: QueryEscape_def escape_char_def one) (auto simp: plus_to_space_def one)
  next
    case (Cons c cs)
    then have "QueryEscape q = concat (map percent q)"
      using utf8_seq_multi [of "byte b" "byte c" "map byte cs"] assms q by (intro QueryEscape_multi) auto
    then show ?thesis using decode_percents [of b bs s] assms q plus_to_space_percent [of q] by simp
  qed
qed

lemma decode_QueryEscape:
  "wf_utf8 m \<Longrightarrow> decodeURIComponent (plus_to_space (QueryEscape m)) = Some m"
proof (induction rule: wf_utf8.induct)
  case (char q s)
  then show ?case
    using decode_QueryEscape_char [of q] by (simp add: QueryEscape_append plus_to_space_append)
qed (simp add: QueryEscape_def plus_to_space_def)

lemma wf_utf8_ascii: "\<forall>c \<in> set s. byte c < 128 \<Longrightarrow> wf_utf8 s"
proof (induction s)
  case (Cons c s)
  then show ?case using wf_utf8.char [of "[c]" s] by simp
qed (rule wf_utf8.nil)

lemma QueryEscape_no_semicolon: "CHR '';'' \<notin> set (QueryEscape m)"
proof -
  have "CHR '';'' \<notin> set (escape_char c)" for c
  proof -
    have "byte c div 16 < 16" "byte c mod 16 < 16" using byte_bound [of c] by simp_all
    then show ?thesis using hexchar_plain [of "byte c div 16"] hexchar_plain [of "byte c mod 16"] unreserved_ascii [of c]
      by (auto simp: escape_char_def percent_def)
  qed
  then show ?thesis by (simp add: QueryEscape_def)
qed

end
