(* ===== verification/GoCrypto.thy ===== *)
theory GoCrypto
  imports WebText "HOL-Library.Word"
begin

text \<open>
  The packages \<^verbatim>\<open>crypto/sha256\<close>, \<^verbatim>\<open>crypto/hmac\<close> and \<^verbatim>\<open>encoding/base64\<close> (\<^verbatim>\<open>StdEncoding\<close>) of Go's library, as far as
  the dashboard's login cookie uses them: SHA-256 (FIPS 180-4) on 32-bit words, HMAC (RFC 2104), and
  base64 with the leniency of \<^verbatim>\<open>DecodeString\<close>, which skips line breaks and ignores the unused bits of the
  last group.
\<close>

unbundle bit_operations_syntax

section \<open>SHA-256\<close>

type_synonym w32 = "32 word"

definition rotr :: "nat \<Rightarrow> w32 \<Rightarrow> w32" where
  "rotr n x = (drop_bit n x) OR (push_bit (32 - n) x)"

definition sha_K :: "w32 list" where
  "sha_K = [0x428a2f98, 0x71374491, 0xb5c0fbcf, 0xe9b5dba5, 0x3956c25b, 0x59f111f1, 0x923f82a4, 0xab1c5ed5,
    0xd807aa98, 0x12835b01, 0x243185be, 0x550c7dc3, 0x72be5d74, 0x80deb1fe, 0x9bdc06a7, 0xc19bf174,
    0xe49b69c1, 0xefbe4786, 0x0fc19dc6, 0x240ca1cc, 0x2de92c6f, 0x4a7484aa, 0x5cb0a9dc, 0x76f988da,
    0x983e5152, 0xa831c66d, 0xb00327c8, 0xbf597fc7, 0xc6e00bf3, 0xd5a79147, 0x06ca6351, 0x14292967,
    0x27b70a85, 0x2e1b2138, 0x4d2c6dfc, 0x53380d13, 0x650a7354, 0x766a0abb, 0x81c2c92e, 0x92722c85,
    0xa2bfe8a1, 0xa81a664b, 0xc24b8b70, 0xc76c51a3, 0xd192e819, 0xd6990624, 0xf40e3585, 0x106aa070,
    0x19a4c116, 0x1e376c08, 0x2748774c, 0x34b0bcb5, 0x391c0cb3, 0x4ed8aa4a, 0x5b9cca4f, 0x682e6ff3,
    0x748f82ee, 0x78a5636f, 0x84c87814, 0x8cc70208, 0x90befffa, 0xa4506ceb, 0xbef9a3f7, 0xc67178f2]"

definition sha_H :: "w32 list" where
  "sha_H = [0x6a09e667, 0xbb67ae85, 0x3c6ef372, 0xa54ff53a, 0x510e527f, 0x9b05688c, 0x1f83d9ab, 0x5be0cd19]"

definition be64 :: "nat \<Rightarrow> string" where
  "be64 n = map (\<lambda>i. char_of (n div 256 ^ (7 - i) mod 256)) [0..<8]"

definition sha_pad :: "string \<Rightarrow> string" where
  "sha_pad m = m @ [char_of (128::nat)] @ replicate (nat ((55 - int (length m)) mod 64)) (char_of (0::nat))
     @ be64 (8 * length m)"

fun be_words :: "string \<Rightarrow> w32 list" where
  "be_words (a # b # c # d # s) =
     of_nat (((byte a * 256 + byte b) * 256 + byte c) * 256 + byte d) # be_words s"
| "be_words _ = []"

definition be_bytes :: "w32 \<Rightarrow> string" where
  "be_bytes w = map (\<lambda>i. char_of (unat w div 256 ^ (3 - i) mod 256)) [0..<4]"

definition sha_next :: "w32 list \<Rightarrow> w32" where
  "sha_next ws =
     (let t = length ws; x = ws ! (t - 15); y = ws ! (t - 2);
          s0 = (rotr 7 x XOR rotr 18 x) XOR drop_bit 3 x;
          s1 = (rotr 17 y XOR rotr 19 y) XOR drop_bit 10 y
      in s1 + ws ! (t - 7) + s0 + ws ! (t - 16))"

fun sha_expand :: "nat \<Rightarrow> w32 list \<Rightarrow> w32 list" where
  "sha_expand 0 ws = ws"
| "sha_expand (Suc n) ws = sha_expand n (ws @ [sha_next ws])"

fun sha_round :: "w32 \<times> w32 \<Rightarrow> w32 list \<Rightarrow> w32 list" where
  "sha_round (k, w) [a, b, c, d, e, f, g, h] =
     (let t1 = h + ((rotr 6 e XOR rotr 11 e) XOR rotr 25 e) + ((e AND f) XOR (NOT e AND g)) + k + w;
          t2 = ((rotr 2 a XOR rotr 13 a) XOR rotr 22 a) + (((a AND b) XOR (a AND c)) XOR (b AND c))
      in [t1 + t2, a, b, c, d + t1, e, f, g])"
| "sha_round kw hs = hs"

definition sha_compress :: "w32 list \<Rightarrow> w32 list \<Rightarrow> w32 list" where
  "sha_compress hs ws = map2 (+) hs (fold sha_round (zip sha_K (sha_expand 48 ws)) hs)"

function sha_blocks :: "w32 list \<Rightarrow> w32 list \<Rightarrow> w32 list" where
  "sha_blocks hs ws = (if length ws < 16 then hs else sha_blocks (sha_compress hs (take 16 ws)) (drop 16 ws))"
  by pat_completeness auto
termination
  by (relation "measure (\<lambda>(hs, ws). length ws)") auto

declare sha_blocks.simps [simp del]

definition sha256 :: "string \<Rightarrow> string" where
  "sha256 m = concat (map be_bytes (sha_blocks sha_H (be_words (sha_pad m))))"

section \<open>HMAC\<close>

definition xor_byte :: "nat \<Rightarrow> char \<Rightarrow> char" where
  "xor_byte b c = char_of (b XOR byte c)"

definition hmac_sha256 :: "string \<Rightarrow> string \<Rightarrow> string" where
  "hmac_sha256 key m =
     (let k = (if length key > 64 then sha256 key else key);
          k64 = k @ replicate (64 - length k) (char_of (0::nat))
      in sha256 (map (xor_byte 0x5c) k64 @ sha256 (map (xor_byte 0x36) k64 @ m)))"

section \<open>Base64\<close>

text \<open>The alphabet: capital letters, small letters, digits, plus and slash.\<close>

definition b64_char :: "nat \<Rightarrow> char" where
  "b64_char n =
     char_of (if n < 26 then n + 65 else if n < 52 then n + 71 else if n < 62 then n - 4
              else if n = 62 then 43 else 47)"

definition b64_val :: "char \<Rightarrow> nat option" where
  "b64_val c =
     (let b = byte c in
      if 65 \<le> b \<and> b \<le> 90 then Some (b - 65)
      else if 97 \<le> b \<and> b \<le> 122 then Some (b - 71)
      else if 48 \<le> b \<and> b \<le> 57 then Some (b + 4)
      else if b = 43 then Some 62 else if b = 47 then Some 63 else None)"

fun b64_encode :: "string \<Rightarrow> string" where
  "b64_encode [] = []"
| "b64_encode [a] = [b64_char (byte a div 4), b64_char (byte a mod 4 * 16), CHR ''='', CHR ''='']"
| "b64_encode [a, b] =
     [b64_char (byte a div 4), b64_char (byte a mod 4 * 16 + byte b div 16), b64_char (byte b mod 16 * 4), CHR ''='']"
| "b64_encode (a # b # c # s) =
     b64_char (byte a div 4) # b64_char (byte a mod 4 * 16 + byte b div 16)
     # b64_char (byte b mod 16 * 4 + byte c div 64) # b64_char (byte c mod 64) # b64_encode s"

text \<open>\<^verbatim>\<open>DecodeString\<close> without the line breaks: groups of four, the last one possibly padded.\<close>

fun b64_groups :: "string \<Rightarrow> string option" where
  "b64_groups [] = Some []"
| "b64_groups (a # b # c # d # s) =
     (case (b64_val a, b64_val b, b64_val c, b64_val d) of
        (Some w, Some x, Some y, Some z) \<Rightarrow>
          map_option (\<lambda>r. char_of (w * 4 + x div 16) # char_of (x mod 16 * 16 + y div 4) # char_of (y mod 4 * 64 + z) # r)
            (b64_groups s)
      | (Some w, Some x, Some y, None) \<Rightarrow>
          (if d = CHR ''='' \<and> s = [] then Some [char_of (w * 4 + x div 16), char_of (x mod 16 * 16 + y div 4)] else None)
      | (Some w, Some x, None, _) \<Rightarrow>
          (if c = CHR ''='' \<and> d = CHR ''='' \<and> s = [] then Some [char_of (w * 4 + x div 16)] else None)
      | _ \<Rightarrow> None)"
| "b64_groups _ = None"

definition b64_decode :: "string \<Rightarrow> string option" where
  "b64_decode s = b64_groups (filter (\<lambda>c. byte c \<noteq> 10 \<and> byte c \<noteq> 13) s)"

lemma byte_b64_char: "n < 64 \<Longrightarrow> byte (b64_char n) =
    (if n < 26 then n + 65 else if n < 52 then n + 71 else if n < 62 then n - 4 else if n = 62 then 43 else 47)"
  unfolding b64_char_def by (intro byte_char_of) auto

lemma b64_val_char: "n < 64 \<Longrightarrow> b64_val (b64_char n) = Some n"
  by (auto simp: b64_val_def Let_def byte_b64_char)

definition b64_plain :: "char \<Rightarrow> bool" where
  "b64_plain c \<longleftrightarrow> alnum c \<or> byte c = 43 \<or> byte c = 47 \<or> byte c = 61"

lemma b64_char_plain: "n < 64 \<Longrightarrow> b64_plain (b64_char n)"
  by (auto simp: b64_plain_def alnum_def byte_b64_char)

lemma b64_val_pad [simp]: "b64_val (CHR ''='') = None"
  by (simp add: b64_val_def byte_def)

lemma byte_pad [simp]: "byte (CHR ''='') = 61"
  by (simp add: byte_def)

lemma byte_div: "byte c div 4 < 64" "byte c div 16 < 16" "byte c div 64 < 4"
  using byte_bound [of c] by (simp_all add: less_mult_imp_div_less)

lemma b64_bounds:
  "byte a div 4 < 64" "byte a mod 4 * 16 < 64" "byte a mod 4 * 16 + byte b div 16 < 64"
  "byte b mod 16 * 4 < 64" "byte b mod 16 * 4 + byte c div 64 < 64" "byte c mod 64 < 64"
proof -
  have "byte a mod 4 < 4" "byte b mod 16 < 16" by simp_all
  with byte_div [of a] byte_div [of b] byte_div [of c]
  show "byte a div 4 < 64" "byte a mod 4 * 16 < 64" "byte a mod 4 * 16 + byte b div 16 < 64"
    "byte b mod 16 * 4 < 64" "byte b mod 16 * 4 + byte c div 64 < 64" "byte c mod 64 < 64" by (linarith | simp)+
qed

text \<open>The characters of an encoding: letters, digits, plus, slash and the padding.\<close>

lemma b64_encode_plain: "\<forall>c \<in> set (b64_encode s). b64_plain c"
proof -
  have "b64_plain (CHR ''='')" by (simp add: b64_plain_def)
  then show ?thesis
    by (induction s rule: b64_encode.induct) (simp_all add: b64_char_plain b64_bounds)
qed

lemma byte_small:
  "byte c div 16 div 16 = 0" "byte c div 16 mod 16 = byte c div 16"
  "byte c div 64 div 4 = 0" "byte c div 64 mod 4 = byte c div 64"
  using byte_div [of c] by simp_all

lemma b64_groups_encode: "b64_groups (b64_encode s) = Some s"
  by (induction s rule: b64_encode.induct)
     (simp_all add: b64_val_char b64_bounds byte_small div_mult_mod_eq)

lemma b64_round_trip: "b64_decode (b64_encode s) = Some s"
proof -
  have "b64_plain c \<Longrightarrow> byte c \<noteq> 10 \<and> byte c \<noteq> 13" for c
    by (auto simp: b64_plain_def alnum_def)
  with b64_encode_plain have "\<forall>c \<in> set (b64_encode s). byte c \<noteq> 10 \<and> byte c \<noteq> 13" by blast
  then show ?thesis by (simp add: b64_decode_def filter_id_conv b64_groups_encode)
qed

end
