(* ===== verification/WebUrl.thy ===== *)
theory WebUrl
  imports WebText GoJson
begin

text \<open>
  URLs and their query parameters, on both sides: the browser's \<^verbatim>\<open>URL\<close> and \<^verbatim>\<open>URLSearchParams\<close> and
  JavaScript's \<^verbatim>\<open>parseInt\<close>, as the dashboard script uses them, and Go's \<^verbatim>\<open>r.URL.Query()\<close>. The location
  of a page is a serialised URL, so taking it apart is splitting it at the first \<^verbatim>\<open>#\<close> and the first
  \<^verbatim>\<open>?\<close>.
\<close>

section \<open>URLs\<close>

record url =
  url_front :: string  \<comment> \<open>scheme, host and path\<close>
  url_query :: "string option"
  url_fragment :: "string option"

text \<open>The text before the first occurrence of a character, and what follows it.\<close>

definition cut_at :: "char \<Rightarrow> string \<Rightarrow> string \<times> string option" where
  "cut_at c s = (case Cut s [c] of None \<Rightarrow> (s, None) | Some (a, b) \<Rightarrow> (a, Some b))"

definition new_URL :: "string \<Rightarrow> url" where
  "new_URL href =
     (let (a, frag) = cut_at CHR ''#'' href; (front, q) = cut_at CHR ''?'' a
      in \<lparr>url_front = front, url_query = q, url_fragment = frag\<rparr>)"

lemma cut_at_append: "c \<notin> set a \<Longrightarrow> cut_at c (a @ (case r of None \<Rightarrow> [] | Some b \<Rightarrow> [c] @ b)) = (a, r)"
  by (cases r) (simp_all add: cut_at_def Cut_single_absent Cut_single_append)

definition url_toString :: "url \<Rightarrow> string" where
  "url_toString u = url_front u
     @ (case url_query u of None \<Rightarrow> [] | Some q \<Rightarrow> ''?'' @ q)
     @ (case url_fragment u of None \<Rightarrow> [] | Some f \<Rightarrow> ''#'' @ f)"

definition url_ok :: "url \<Rightarrow> bool" where
  "url_ok u \<longleftrightarrow> CHR ''?'' \<notin> set (url_front u) \<and> CHR ''#'' \<notin> set (url_front u)
     \<and> (case url_query u of None \<Rightarrow> True | Some q \<Rightarrow> CHR ''#'' \<notin> set q)"

lemma new_URL_toString:
  assumes "url_ok u" shows "new_URL (url_toString u) = u"
proof -
  let ?a = "url_front u @ (case url_query u of None \<Rightarrow> [] | Some t \<Rightarrow> ''?'' @ t)"
  have "CHR ''#'' \<notin> set ?a" using assms by (auto simp: url_ok_def split: option.splits)
  then have "cut_at CHR ''#'' (url_toString u) = (?a, url_fragment u)"
    using cut_at_append [of "CHR ''#''" ?a "url_fragment u"] by (simp add: url_toString_def)
  moreover have "cut_at CHR ''?'' ?a = (url_front u, url_query u)"
    using assms by (intro cut_at_append) (simp add: url_ok_def)
  ultimately show ?thesis by (simp add: new_URL_def)
qed

section \<open>Search parameters in the browser\<close>

fun percent_decode :: "string \<Rightarrow> string" where
  "percent_decode [] = []"
| "percent_decode (p # h # l # s) =
     (if p = CHR ''%'' \<and> hexval h \<noteq> None \<and> hexval l \<noteq> None
      then char_of (16 * the (hexval h) + the (hexval l)) # percent_decode s
      else p # percent_decode (h # l # s))"
| "percent_decode (c # s) = c # percent_decode s"

text \<open>Decoding bytes as UTF-8: what is not well formed becomes U+FFFD, one for each maximal part of a
  sequence.\<close>

definition good_len :: "string \<Rightarrow> nat" where
  "good_len s = (case s of [] \<Rightarrow> 0 | b # _ \<Rightarrow>
     (if utf8_seq (map byte (take (lead_len (byte b)) s)) then lead_len (byte b) else 0))"

definition bad_len :: "string \<Rightarrow> nat" where
  "bad_len s =
     (case map byte s of
        b # c # d # _ \<Rightarrow> (if 224 \<le> b \<and> b < 245 \<and> second_ok b c then (if 240 \<le> b \<and> cont d then 3 else 2) else 1)
      | b # c # _ \<Rightarrow> (if 224 \<le> b \<and> b < 245 \<and> second_ok b c then 2 else 1)
      | _ \<Rightarrow> 1)"

definition replacement :: string where
  "replacement = [CHR 0xEF, CHR 0xBF, CHR 0xBD]"

lemma good_len_le: "good_len s \<le> length s"
proof (cases s)
  case (Cons b t)
  have "utf8_seq xs \<Longrightarrow> xs \<noteq> []" for xs by auto
  moreover have "utf8_seq (x # xs) \<Longrightarrow> lead_len x = Suc (length xs)" for x xs by (rule utf8_seq_lead)
  ultimately show ?thesis using Cons
    by (cases "lead_len (byte b)") (auto simp: good_len_def dest!: utf8_seq_lead)
qed (simp add: good_len_def)

lemma bad_len_pos: "0 < bad_len s"
  by (auto simp: bad_len_def split: list.splits)

function utf8_decode :: "string \<Rightarrow> string" where
  "utf8_decode s =
     (if s = [] then []
      else if good_len s > 0 then take (good_len s) s @ utf8_decode (drop (good_len s) s)
      else replacement @ utf8_decode (drop (bad_len s) s))"
  by pat_completeness auto
termination
  by (relation "measure length") (use bad_len_pos in auto)

declare utf8_decode.simps [simp del]

definition form_decode :: "string \<Rightarrow> string" where
  "form_decode s = utf8_decode (percent_decode (plus_to_space s))"

definition form_parse :: "string \<Rightarrow> (string \<times> string) list" where
  "form_parse q =
     map (\<lambda>piece. case Cut piece ''='' of
                    None \<Rightarrow> (form_decode piece, form_decode [])
                  | Some (n, v) \<Rightarrow> (form_decode n, form_decode v))
       (filter (\<lambda>piece. piece \<noteq> []) (Split q ''&''))"

definition form_char :: "char \<Rightarrow> string" where
  "form_char c =
     (if c = CHR '' '' then ''+''
      else if alnum c \<or> c \<in> {CHR ''*'', CHR ''-'', CHR ''.'', CHR ''_''} then [c] else percent c)"

definition form_encode :: "string \<Rightarrow> string" where
  "form_encode s = concat (map form_char s)"

definition form_serialize :: "(string \<times> string) list \<Rightarrow> string" where
  "form_serialize ps = Join (map (\<lambda>(n, v). form_encode n @ ''='' @ form_encode v) ps) ''&''"

definition searchParams :: "url \<Rightarrow> (string \<times> string) list" where
  "searchParams u = (case url_query u of None \<Rightarrow> [] | Some q \<Rightarrow> form_parse q)"

definition sp_get :: "string \<Rightarrow> (string \<times> string) list \<Rightarrow> string option" where
  "sp_get n ps = map_of ps n"

text \<open>\<^verbatim>\<open>set\<close> changes the first pair with the name and drops the others, or appends a pair.\<close>

fun sp_set :: "string \<Rightarrow> string \<Rightarrow> (string \<times> string) list \<Rightarrow> (string \<times> string) list" where
  "sp_set n v [] = [(n, v)]"
| "sp_set n v ((m, w) # ps) =
     (if m = n then (n, v) # filter (\<lambda>p. fst p \<noteq> n) ps else (m, w) # sp_set n v ps)"

text \<open>Changing the parameters changes the query of the URL.\<close>

definition with_params :: "url \<Rightarrow> (string \<times> string) list \<Rightarrow> url" where
  "with_params u ps = u\<lparr>url_query := (if form_serialize ps = [] then None else Some (form_serialize ps))\<rparr>"

section \<open>Numbers in the browser\<close>

datatype js_num = NaN | Fin int | Inf | NegInf

text \<open>The double nearest to an integer.\<close>

definition to_double :: "int \<Rightarrow> js_num" where
  "to_double n =
     (if n \<ge> 2 ^ 1024 - 2 ^ 970 then Inf else if n \<le> - (2 ^ 1024 - 2 ^ 970) then NegInf else Fin (round53 n))"

definition js_space_len :: "string \<Rightarrow> nat" where
  "js_space_len s =
     (if take 3 (map byte s) = [239, 187, 191] then 3
      else if take 2 (map byte s) = [194, 133] then 0
      else space_len s)"

function js_trim_left :: "string \<Rightarrow> string" where
  "js_trim_left s = (if js_space_len s = 0 then s else js_trim_left (drop (js_space_len s) s))"
  by pat_completeness auto
termination
proof (relation "measure length")
  fix s :: string
  assume "js_space_len s \<noteq> 0"
  moreover have "js_space_len [] = 0" by (simp add: js_space_len_def)
  ultimately show "(drop (js_space_len s) s, s) \<in> measure length" by (cases s) auto
qed simp

declare js_trim_left.simps [simp del]

definition digit_in :: "nat \<Rightarrow> char \<Rightarrow> bool" where
  "digit_in radix c \<longleftrightarrow> (case hexval c of None \<Rightarrow> False | Some d \<Rightarrow> d < radix)"

fun digits_radix :: "nat \<Rightarrow> int \<Rightarrow> string \<Rightarrow> int" where
  "digits_radix radix acc [] = acc"
| "digits_radix radix acc (c # s) = digits_radix radix (int radix * acc + int (the (hexval c))) s"

definition parseInt :: "string \<Rightarrow> js_num" where
  "parseInt input =
     (let s = js_trim_left input;
          neg = HasPrefix s ''-'';
          t = (if neg \<or> HasPrefix s ''+'' then tl s else s);
          hex = HasPrefix t ''0x'' \<or> HasPrefix t ''0X'';
          radix = (if hex then 16 else 10);
          ds = takeWhile (digit_in radix) (if hex then drop 2 t else t)
      in if ds = [] then NaN
         else to_double ((if neg then - 1 else 1) * digits_radix radix 0 ds))"

definition js_truthy_num :: "js_num \<Rightarrow> bool" where
  "js_truthy_num x \<longleftrightarrow> x \<noteq> NaN \<and> x \<noteq> Fin 0"

definition js_plus :: "js_num \<Rightarrow> int \<Rightarrow> js_num" where
  "js_plus x k = (case x of Fin n \<Rightarrow> to_double (n + k) | _ \<Rightarrow> x)"

definition js_less_1 :: "js_num \<Rightarrow> bool" where
  "js_less_1 x \<longleftrightarrow> (case x of Fin n \<Rightarrow> n < 1 | NegInf \<Rightarrow> True | _ \<Rightarrow> False)"

text \<open>\<^verbatim>\<open>Number::toString\<close> is the decimal text for integers up to 2 ^ 53; the texts of larger numbers are
  a parameter.\<close>

definition num_toString :: "(js_num \<Rightarrow> string) \<Rightarrow> js_num \<Rightarrow> string" where
  "num_toString big x = (case x of Fin n \<Rightarrow> (if \<bar>n\<bar> \<le> 2 ^ 53 then Itoa n else big x) | _ \<Rightarrow> big x)"

section \<open>Query parameters on the server\<close>

text \<open>\<^verbatim>\<open>url.QueryUnescape\<close>.\<close>

function QueryUnescape :: "string \<Rightarrow> string option" where
  "QueryUnescape [] = Some []"
| "QueryUnescape (c # s) =
     (if c = CHR ''%'' then
        (case pct (c # s) of
           None \<Rightarrow> None
         | Some (b, s') \<Rightarrow> map_option ((#) b) (QueryUnescape s'))
      else map_option ((#) (if c = CHR ''+'' then CHR '' '' else c)) (QueryUnescape s))"
  by pat_completeness auto
termination
  by (relation "measure length") (auto dest: pct_length simp del: pct.simps)

text \<open>\<^verbatim>\<open>url.ParseQuery\<close>, whose error \<^verbatim>\<open>URL.Query\<close> drops: pieces with a semicolon or a wrong escape are
  left out.\<close>

fun query_pair :: "string \<Rightarrow> (string \<times> string) option" where
  "query_pair piece =
     (if CHR '';'' \<in> set piece \<or> piece = [] then None
      else let (k, v) = (case Cut piece ''='' of None \<Rightarrow> (piece, []) | Some kv \<Rightarrow> kv) in
           case (QueryUnescape k, QueryUnescape v) of
             (Some k', Some v') \<Rightarrow> Some (k', v')
           | _ \<Rightarrow> None)"

definition ParseQuery :: "string \<Rightarrow> (string \<times> string) list" where
  "ParseQuery q = List.map_filter query_pair (Split q ''&'')"

definition Query_Get :: "(string \<times> string) list \<Rightarrow> string \<Rightarrow> string" where
  "Query_Get ps n = (case map_of ps n of None \<Rightarrow> [] | Some v \<Rightarrow> v)"

section \<open>Encoding and decoding parameters\<close>

lemma form_char_cases:
  obtains "c = CHR '' ''" "form_char c = ''+''"
  | "form_char c = [c]" "c \<noteq> CHR ''%''" "c \<noteq> CHR ''+''" "c \<noteq> CHR ''&''" "c \<noteq> CHR ''=''" "c \<noteq> CHR '';''" "c \<noteq> CHR ''#''"
  | "form_char c = percent c" "c \<noteq> CHR '' ''"
proof -
  have "byte CHR ''%'' = 37" "byte CHR ''+'' = 43" "byte CHR ''&'' = 38" "byte CHR ''='' = 61" "byte CHR '';'' = 59"
    "byte CHR ''#'' = 35" by (simp_all add: byte_def)
  then have a: "c \<notin> {CHR ''%'', CHR ''+'', CHR ''&'', CHR ''='', CHR '';'', CHR ''#''}" if "alnum c"
    using that by (auto simp: alnum_def byte_inject [symmetric])
  consider "c = CHR '' ''" | "c \<noteq> CHR '' ''" "alnum c \<or> c \<in> {CHR ''*'', CHR ''-'', CHR ''.'', CHR ''_''}"
    | "c \<noteq> CHR '' ''" "\<not> (alnum c \<or> c \<in> {CHR ''*'', CHR ''-'', CHR ''.'', CHR ''_''})" by blast
  then show ?thesis
  proof cases
    case 1
    then show ?thesis by (intro that(1)) (simp_all add: form_char_def)
  next
    case 2
    then show ?thesis using a by (intro that(2)) (auto simp: form_char_def)
  next
    case 3
    then show ?thesis by (intro that(3)) (simp_all add: form_char_def)
  qed
qed

lemma percent_plain: "d \<in> set (percent c) \<Longrightarrow> d = CHR ''%'' \<or> alnum d"
proof -
  have "byte c div 16 < 16" "byte c mod 16 < 16" using byte_bound [of c] by simp_all
  then show "d \<in> set (percent c) \<Longrightarrow> d = CHR ''%'' \<or> alnum d" using hexchar_plain by (auto simp: percent_def)
qed

lemma form_encode_plain: "CHR ''&'' \<notin> set (form_encode s) \<and> CHR ''='' \<notin> set (form_encode s)
    \<and> CHR '';'' \<notin> set (form_encode s) \<and> CHR ''#'' \<notin> set (form_encode s)"
proof -
  have not_alnum: "\<not> alnum CHR ''&''" "\<not> alnum CHR ''=''" "\<not> alnum CHR '';''" "\<not> alnum CHR ''#''"
    by (simp_all add: alnum_def byte_def)
  have "CHR ''&'' \<notin> set (form_char c) \<and> CHR ''='' \<notin> set (form_char c)
      \<and> CHR '';'' \<notin> set (form_char c) \<and> CHR ''#'' \<notin> set (form_char c)" for c
    by (cases rule: form_char_cases [of c]) (use not_alnum percent_plain [of _ c] in auto)
  then show ?thesis by (simp add: form_encode_def)
qed

lemma percent_decode_percent: "percent_decode (percent c @ s) = c # percent_decode s"
proof -
  have "byte c div 16 < 16" using byte_bound [of c] by simp
  then show ?thesis by (simp add: percent_def hexval_hexchar)
qed

lemma percent_decode_plain: "c \<noteq> CHR ''%'' \<Longrightarrow> percent_decode (c # s) = c # percent_decode s"
  by (cases "c # s" rule: percent_decode.cases) auto

lemma form_encode_Cons: "form_encode (c # s) = form_char c @ form_encode s"
  by (simp add: form_encode_def)

lemma plus_to_space_Cons: "plus_to_space (c # s) = (if c = CHR ''+'' then CHR '' '' else c) # plus_to_space s"
  by (simp add: plus_to_space_def)

lemma percent_decode_form: "percent_decode (plus_to_space (form_encode s)) = s"
proof (induction s)
  case (Cons c s)
  show ?case
  proof (cases rule: form_char_cases [of c])
    case 3
    then show ?thesis using Cons plus_to_space_percent [of "[c]"]
      by (simp add: form_encode_Cons plus_to_space_append percent_decode_percent)
  qed (use Cons in \<open>auto simp: form_encode_Cons plus_to_space_Cons percent_decode_plain\<close>)
qed (simp add: form_encode_def plus_to_space_def)

lemma QueryUnescape_form: "QueryUnescape (form_encode s) = Some s"
proof (induction s)
  case (Cons c s)
  show ?case
  proof (cases rule: form_char_cases [of c])
    case 3
    obtain t where t: "percent c @ form_encode s = CHR ''%'' # t" by (simp add: percent_def)
    moreover have "pct (CHR ''%'' # t) = Some (c, form_encode s)" using t pct_percent by metis
    ultimately show ?thesis using Cons 3 by (simp add: form_encode_Cons del: pct.simps)
  qed (use Cons in \<open>auto simp: form_encode_Cons\<close>)
qed (simp add: form_encode_def)

lemma good_len_char: "utf8_seq (map byte q) \<Longrightarrow> good_len (q @ s) = length q"
  using utf8_seq_lead [of "byte (hd q)" "map byte (tl q)"] by (cases q) (auto simp: good_len_def)

lemma utf8_decode_wf: "wf_utf8 s \<Longrightarrow> utf8_decode s = s"
proof (induction rule: wf_utf8.induct)
  case (char q s)
  then have "q \<noteq> []" by auto
  with char show ?case by (subst utf8_decode.simps) (simp add: good_len_char)
qed (simp add: utf8_decode.simps)

lemma wf_utf8_decode: "wf_utf8 (utf8_decode s)"
proof (induction s rule: utf8_decode.induct)
  case (1 s)
  show ?case
  proof (cases "s = []")
    case False
    show ?thesis
    proof (cases "good_len s > 0")
      case True
      then have "utf8_seq (map byte (take (good_len s) s))" by (auto simp: good_len_def split: list.splits if_splits)
      with 1 False True show ?thesis by (subst utf8_decode.simps) (simp add: wf_utf8.char)
    next
      case bad: False
      have "utf8_seq (map byte replacement)" by (simp add: replacement_def byte_def second_ok_def cont_def)
      with 1 False bad show ?thesis by (subst utf8_decode.simps) (simp add: wf_utf8.char)
    qed
  qed (simp add: utf8_decode.simps wf_utf8.nil)
qed

lemma form_decode_encode: "wf_utf8 s \<Longrightarrow> form_decode (form_encode s) = s"
  by (simp add: form_decode_def percent_decode_form utf8_decode_wf)

definition wf_params :: "(string \<times> string) list \<Rightarrow> bool" where
  "wf_params ps \<longleftrightarrow> (\<forall>(n, v) \<in> set ps. wf_utf8 n \<and> wf_utf8 v)"

lemma wf_form_parse: "wf_params (form_parse q)"
  by (auto simp: wf_params_def form_parse_def form_decode_def wf_utf8_decode split: option.splits)

lemma Split_serialize:
  assumes "ps \<noteq> []"
  shows "Split (form_serialize ps) ''&'' = map (\<lambda>(n, v). form_encode n @ ''='' @ form_encode v) ps"
  unfolding form_serialize_def
  using assms form_encode_plain by (intro Split_Join_single) auto

lemma serialize_Nil: "form_serialize [] = []"
  by (simp add: form_serialize_def)

lemma serialize_not_Nil: "ps \<noteq> [] \<Longrightarrow> form_serialize ps \<noteq> []"
  by (cases ps; cases "tl ps") (auto simp: form_serialize_def Join_Cons split: prod.splits)

text \<open>What the browser serialises, the browser and the server read back.\<close>

lemma Cut_pair: "Cut (form_encode n @ CHR ''='' # form_encode v) ''='' = Some (form_encode n, form_encode v)"
  using form_encode_plain [of n] by (simp add: Cut_single_append)

lemma form_parse_serialize:
  assumes "wf_params ps" shows "form_parse (form_serialize ps) = ps"
proof (cases "ps = []")
  case False
  have "filter (\<lambda>piece. piece \<noteq> []) (Split (form_serialize ps) ''&'') = Split (form_serialize ps) ''&''"
    by (auto simp: Split_serialize [OF False] filter_id_conv)
  with assms show ?thesis unfolding form_parse_def
    by (simp add: Split_serialize [OF False])
       (auto simp: Cut_pair wf_params_def form_decode_encode intro!: map_idI)
qed (simp add: form_parse_def serialize_Nil Split_single_none)

lemma ParseQuery_serialize: "ParseQuery (form_serialize ps) = ps"
proof (cases "ps = []")
  case False
  have "query_pair (form_encode n @ ''='' @ form_encode v) = Some (n, v)" for n v
    using form_encode_plain [of n] form_encode_plain [of v] by (auto simp: Cut_single_append QueryUnescape_form)
  then have "List.map_filter query_pair (map (\<lambda>(n, v). form_encode n @ ''='' @ form_encode v) ps) = ps"
    by (induction ps) (auto simp del: query_pair.simps)
  then show ?thesis by (simp add: ParseQuery_def Split_serialize [OF False])
qed (simp add: ParseQuery_def serialize_Nil Split_single_none)

end
