(* ===== verification/WebShared.thy ===== *)
theory WebShared
  imports WebUrl JobTypes
begin

text \<open>
  Helpers of the dashboard's handlers (\<^verbatim>\<open>web/shared.go\<close>): the page number of a request and the data a
  template is given. A template's data is a map from names to values; values of the different types
  the handlers put there are wrapped in one type.
\<close>

section \<open>The page number of a request\<close>

definition getPageNumber :: "string \<Rightarrow> int" where
  "getPageNumber rawQuery =
     (let page = Query_Get (ParseQuery rawQuery) ''page'' in
      case ParseInt page of
        None \<Rightarrow> 1
      | Some n \<Rightarrow> (if n < 1 then 1 else n))"

lemma getPageNumber_pos: "1 \<le> getPageNumber q"
  by (simp add: getPageNumber_def Let_def split: option.splits)

lemma getPageNumber_serialize:
  assumes "1 \<le> p" "p \<le> max_int" "map_of ps ''page'' = Some (Itoa p)"
  shows "getPageNumber (form_serialize ps) = p"
  using assms Atoi_Itoa [of p]
  by (simp add: getPageNumber_def ParseQuery_serialize Query_Get_def Atoi_def min_int_def)

section \<open>Template data\<close>

datatype 'a template_value =
    VInt int
  | VBool bool
  | VItems "'a list"
  | VStatus JobStatus
  | VStatuses "JobStatus list"
  | VCounts "JobStatus \<rightharpoonup> int"

type_synonym 'a DataMap = "string \<rightharpoonup> 'a template_value"

definition NewPaginatedDataMap :: "'a PaginationResult \<Rightarrow> 'a DataMap" where
  "NewPaginatedDataMap data =
     [''Page'' \<mapsto> VInt (Page data), ''TotalPages'' \<mapsto> VInt (TotalPages data), ''Items'' \<mapsto> VItems (Items data),
      ''HasPreviousPage'' \<mapsto> VBool (HasPreviousPage data), ''HasNextPage'' \<mapsto> VBool (HasNextPage data),
      ''TotalItems'' \<mapsto> VInt (TotalItems data)]"

definition DataMap_Add :: "'a DataMap \<Rightarrow> string \<Rightarrow> 'a template_value \<Rightarrow> 'a DataMap" where
  "DataMap_Add d key v = d(key \<mapsto> v)"

section \<open>The banner\<close>

text \<open>\<^verbatim>\<open>%-*s\<close> pads on the right to the given width and never shortens.\<close>

definition pad_right :: "nat \<Rightarrow> string \<Rightarrow> string" where
  "pad_right w s = s @ replicate (w - length s) CHR 0x20"

definition printBanner :: "string \<Rightarrow> string list" where
  "printBanner port =
     (let appAddr = ''http'' @ ''://'' @ ''localhost'' @ port; width = 60;
          rule = replicate 60 CHR 0x23
      in [rule,
          ''# '' @ pad_right (width - 4) [] @ '' #'',
          ''# '' @ pad_right (width - 4) ''GoFire Started'' @ '' #'',
          ''# '' @ pad_right (width - 25) ''GoFire Server is starting at '' @ appAddr @ '' #'',
          ''# '' @ pad_right (width - 4) [] @ '' #'',
          rule])"

text \<open>The line with the address is as wide as the frame only for a port of five characters with its colon.\<close>

lemma printBanner_widths: "map length (printBanner port) = [60, 60, 60, 55 + length port, 60, 60]"
  by (simp add: printBanner_def pad_right_def Let_def)

end
