(* ===== verification/DashboardScript.thy ===== *)
theory DashboardScript
  imports WebShared
begin

text \<open>
  The script of the dashboard's pages (\<^verbatim>\<open>web/static/assets/js/scripts.js\<close>). The page the script works
  on is a record: its buttons, the click listeners attached to them, the cookies the script can see,
  the title, and what the script has done that a user sees, the dialogs it has opened and the forms
  it has submitted. The dialogs themselves belong to the library SweetAlert: which answer a dialog
  gets is a parameter of a click. An exception ends the function it is thrown in; the listeners of
  an event are independent of each other.
\<close>

section \<open>Cookies of the page\<close>

type_synonym cookies = "(string \<times> string) list"

definition document_cookie :: "cookies \<Rightarrow> string" where
  "document_cookie cs = Join (map (\<lambda>(n, v). n @ ''='' @ v) cs) ''; ''"

definition lower :: "char \<Rightarrow> char" where
  "lower c = (if 65 \<le> byte c \<and> byte c \<le> 90 then char_of (byte c + 32) else c)"

text \<open>Assigning to \<^verbatim>\<open>document.cookie\<close>: a name and a value, then attributes. A \<^verbatim>\<open>Max-Age\<close> that is not
  positive removes the cookie.\<close>

definition expires_now :: "string \<Rightarrow> bool" where
  "expires_now attr =
     (case Cut (dropWhile (\<lambda>c. c = CHR '' '') attr) ''='' of
        None \<Rightarrow> False
      | Some (k, v) \<Rightarrow> map lower k = ''max-age'' \<and> (case ParseInt v of None \<Rightarrow> False | Some n \<Rightarrow> n \<le> 0))"

fun put_cookie :: "string \<Rightarrow> string \<Rightarrow> cookies \<Rightarrow> cookies" where
  "put_cookie n v [] = [(n, v)]"
| "put_cookie n v ((m, w) # cs) = (if m = n then (n, v) # cs else (m, w) # put_cookie n v cs)"

definition set_document_cookie :: "string \<Rightarrow> cookies \<Rightarrow> cookies" where
  "set_document_cookie s cs =
     (case Split s '';'' of
        [] \<Rightarrow> cs
      | first # attrs \<Rightarrow>
          (case Cut first ''='' of
             None \<Rightarrow> cs
           | Some (n, v) \<Rightarrow>
               (if list_ex expires_now attrs then filter (\<lambda>c. fst c \<noteq> n) cs else put_cookie n v cs)))"

text \<open>\<open>None\<close> is \<^verbatim>\<open>undefined\<close>.\<close>

definition getCookie :: "string \<Rightarrow> string \<Rightarrow> string option" where
  "getCookie name cookie =
     (let val = ''; '' @ cookie;
          parts = Split val (''; '' @ name @ ''='')
      in if length parts = 2
         then Some (plus_to_space (hd (Split (last parts) '';'')))
         else None)"

section \<open>Dialogs and buttons\<close>

record swal =
  sw_title :: string
  sw_text :: string
  sw_icon :: string
  sw_showCancelButton :: bool
  sw_confirmButtonColor :: string
  sw_cancelButtonColor :: "string option"
  sw_confirmButtonText :: string
  sw_reverseButtons :: bool

record confirm_options =
  co_title :: "string option"
  co_text :: string
  co_icon :: "string option"
  co_confirmButtonColor :: "string option"
  co_cancelButtonColor :: "string option"
  co_confirmButtonText :: "string option"

text \<open>\<^verbatim>\<open>a || b\<close> on strings: the empty string and \<^verbatim>\<open>undefined\<close> are false.\<close>

definition js_or :: "string option \<Rightarrow> string \<Rightarrow> string" where
  "js_or a b = (case a of None \<Rightarrow> b | Some s \<Rightarrow> if s = [] then b else s)"

record button =
  btn_id :: nat
  btn_classes :: "string list"
  btn_form :: "nat option"  \<comment> \<open>the closest enclosing form\<close>

record web_page =
  buttons :: "button list"
  listeners :: "(nat \<times> confirm_options) list"  \<comment> \<open>click listeners, by button, in the order they were added\<close>
  page_cookies :: cookies
  page_title :: string
  dialogs :: "swal list"
  submitted :: "nat list"

section \<open>The functions of the script\<close>

text \<open>The page title is the last part of the path. A part that is not a valid escape throws.\<close>

definition set_title :: "string \<Rightarrow> web_page \<Rightarrow> web_page" where
  "set_title pathname pg =
     (let parts = filter (\<lambda>p. p \<noteq> []) (Split pathname ''/'');
          lastPart = (if parts = [] then ''Home'' else last parts)
      in case decodeURIComponent lastPart of
           None \<Rightarrow> pg
         | Some t \<Rightarrow> pg\<lparr>page_title := t\<rparr>)"

text \<open>The location \<^verbatim>\<open>goToPage\<close> navigates to, if any. \<^verbatim>\<open>get\<close> returns null for a missing parameter, which
  \<^verbatim>\<open>parseInt\<close> reads as the text \<^verbatim>\<open>null\<close>.\<close>

definition script_page :: "url \<Rightarrow> js_num" where
  "script_page u =
     (let n = parseInt (case sp_get ''page'' (searchParams u) of None \<Rightarrow> ''null'' | Some s \<Rightarrow> s)
      in if js_truthy_num n then n else Fin 1)"

definition goToPage :: "(js_num \<Rightarrow> string) \<Rightarrow> string \<Rightarrow> string \<Rightarrow> string option" where
  "goToPage big action href =
     (let u = new_URL href;
          n = script_page u;
          page = (if action = ''next'' then js_plus n 1 else js_plus n (- 1))
      in if js_less_1 page \<or> page = NaN then None
         else Some (url_toString (with_params u (sp_set ''page'' (num_toString big page) (searchParams u)))))"

definition confirm_dialog :: "confirm_options \<Rightarrow> swal" where
  "confirm_dialog opts =
     \<lparr>sw_title = js_or (co_title opts) ''Are you sure?'', sw_text = co_text opts,
      sw_icon = js_or (co_icon opts) ''warning'', sw_showCancelButton = True,
      sw_confirmButtonColor = js_or (co_confirmButtonColor opts) ''#3085d6'',
      sw_cancelButtonColor = Some (js_or (co_cancelButtonColor opts) ''#aaa''),
      sw_confirmButtonText = ''Yes, proceed!'', sw_reverseButtons = True\<rparr>"

definition attachConfirmationToForms :: "string \<Rightarrow> confirm_options \<Rightarrow> web_page \<Rightarrow> web_page" where
  "attachConfirmationToForms className opts pg =
     pg\<lparr>listeners := listeners pg
       @ map (\<lambda>b. (btn_id b, opts)) (filter (\<lambda>b. tl className \<in> set (btn_classes b)) (buttons pg))\<rparr>"

text \<open>The listener of a click: it opens the dialog, and submits the form of the button when the answer
  is yes. Without a form the submission throws.\<close>

definition on_click :: "(swal \<Rightarrow> bool) \<Rightarrow> button \<Rightarrow> confirm_options \<Rightarrow> web_page \<Rightarrow> web_page" where
  "on_click answer btn opts pg =
     (let d = confirm_dialog opts;
          pg' = pg\<lparr>dialogs := dialogs pg @ [d]\<rparr>
      in if answer d
         then (case btn_form btn of None \<Rightarrow> pg' | Some f \<Rightarrow> pg'\<lparr>submitted := submitted pg' @ [f]\<rparr>)
         else pg')"

fun run_listeners :: "(swal \<Rightarrow> bool) \<Rightarrow> button \<Rightarrow> (nat \<times> confirm_options) list \<Rightarrow> web_page \<Rightarrow> web_page" where
  "run_listeners answer btn [] pg = pg"
| "run_listeners answer btn ((i, opts) # ls) pg =
     run_listeners answer btn ls (if i = btn_id btn then on_click answer btn opts pg else pg)"

definition click :: "(swal \<Rightarrow> bool) \<Rightarrow> button \<Rightarrow> web_page \<Rightarrow> web_page" where
  "click answer btn pg = run_listeners answer btn (listeners pg) pg"

definition delete_options :: confirm_options where
  "delete_options = \<lparr>co_title = Some ''Are you sure?'', co_text = ''This job will be removed.'',
     co_icon = Some ''warning'', co_confirmButtonColor = Some ''#d33'', co_cancelButtonColor = None,
     co_confirmButtonText = Some ''Yes, delete it!''\<rparr>"

definition change_status_options :: confirm_options where
  "change_status_options = \<lparr>co_title = Some ''Are you sure?'', co_text = '''',
     co_icon = Some ''warning'', co_confirmButtonColor = Some ''#d33'', co_cancelButtonColor = None,
     co_confirmButtonText = Some ''Yes, delete it!''\<rparr>"

definition run_options :: confirm_options where
  "run_options = \<lparr>co_title = Some ''Run this job?'', co_text = ''This job will be executed immediately.'',
     co_icon = Some ''question'', co_confirmButtonColor = Some ''#3085d6'', co_cancelButtonColor = None,
     co_confirmButtonText = Some ''Yes, run it!''\<rparr>"

definition attach_all :: "web_page \<Rightarrow> web_page" where
  "attach_all pg =
     attachConfirmationToForms ''.run-btn'' run_options
       (attachConfirmationToForms ''.change-status-btn'' change_status_options
         (attachConfirmationToForms ''.delete-btn'' delete_options pg))"

definition message_dialog :: "string \<Rightarrow> string \<Rightarrow> string \<Rightarrow> swal" where
  "message_dialog icon title text =
     \<lparr>sw_title = title, sw_text = text, sw_icon = icon, sw_showCancelButton = False,
      sw_confirmButtonColor = ''#3085d6'', sw_cancelButtonColor = None, sw_confirmButtonText = ''OK'',
      sw_reverseButtons = False\<rparr>"

text \<open>Showing the message of a cookie and assigning to \<^verbatim>\<open>document.cookie\<close>; the flag tells whether the
  function goes on.\<close>

definition show_message :: "string \<Rightarrow> string \<Rightarrow> string \<Rightarrow> web_page \<Rightarrow> bool \<times> web_page" where
  "show_message name icon title pg =
     (let m = getCookie name (document_cookie (page_cookies pg)) in
      if m = None \<or> m = Some [] then (True, pg)
      else case decodeURIComponent (the m) of
             None \<Rightarrow> (False, pg)
           | Some text \<Rightarrow>
               (True, pg\<lparr>dialogs := dialogs pg @ [message_dialog icon title text],
                         page_cookies := set_document_cookie ''flash=; Max-Age=0; path=/'' (page_cookies pg)\<rparr>))"

definition show_messages :: "web_page \<Rightarrow> web_page" where
  "show_messages pg =
     (case show_message ''flash'' ''success'' ''Success'' pg of
        (False, pg') \<Rightarrow> pg'
      | (True, pg') \<Rightarrow> snd (show_message ''warning'' ''warning'' ''Warning'' pg'))"

definition DOMContentLoaded :: "string \<Rightarrow> web_page \<Rightarrow> web_page" where
  "DOMContentLoaded pathname pg = show_messages (attach_all (set_title pathname pg))"

section \<open>Reading a cookie\<close>

text \<open>Names and values that a cookie can have.\<close>

definition cookie_ok :: "string \<times> string \<Rightarrow> bool" where
  "cookie_ok c \<longleftrightarrow> CHR '';'' \<notin> set (fst c) \<and> CHR ''='' \<notin> set (fst c) \<and> CHR '';'' \<notin> set (snd c)"

definition cookie_text :: "cookies \<Rightarrow> string" where
  "cookie_text cs = concat (map (\<lambda>(n, v). ''; '' @ n @ ''='' @ v) cs)"

lemma document_cookie_text: "cs \<noteq> [] \<Longrightarrow> ''; '' @ document_cookie cs = cookie_text cs"
proof (induction cs)
  case (Cons c cs)
  then show ?case
    by (cases "cs = []") (auto simp: document_cookie_def cookie_text_def Join_Cons split: prod.splits)
qed simp

lemma HasPrefix_name:
  assumes "CHR ''='' \<notin> set m" "CHR ''='' \<notin> set n"
  shows "HasPrefix (m @ CHR ''='' # r) (n @ ''='') \<longleftrightarrow> m = n"
  using assms
proof (induction n arbitrary: m)
  case Nil
  then show ?case by (cases m) (auto simp: HasPrefix_def)
next
  case (Cons c n)
  then show ?case by (cases m) (auto simp: HasPrefix_def)
qed

lemma Cut_skip: "CHR '';'' \<notin> set a \<Longrightarrow> Cut (a @ s) (CHR '';'' # sep) = map_option (\<lambda>(x, y). (a @ x, y)) (Cut s (CHR '';'' # sep))"
  by (induction a) (auto simp: HasPrefix_def option.map_comp comp_def split_def option.map_ident)

lemma Cut_cookie:
  assumes "cookie_ok (m, v)" "CHR ''='' \<notin> set n"
  shows "Cut (''; '' @ m @ ''='' @ v @ s) (''; '' @ n @ ''='') =
    (if m = n then Some ([], v @ s)
     else map_option (\<lambda>(x, y). (''; '' @ m @ ''='' @ v @ x, y)) (Cut s (''; '' @ n @ ''='')))"
proof -
  have "HasPrefix (''; '' @ m @ ''='' @ v @ s) (''; '' @ n @ ''='') \<longleftrightarrow> m = n"
    using HasPrefix_name [of m n "v @ s"] assms by (simp add: cookie_ok_def) (simp add: HasPrefix_def)
  moreover have "Cut (CHR '' '' # m @ ''='' @ v @ s) (''; '' @ n @ ''='') =
      map_option (\<lambda>(x, y). ((CHR '' '' # m @ ''='' @ v) @ x, y)) (Cut s (''; '' @ n @ ''=''))"
    using Cut_skip [of "CHR '' '' # m @ ''='' @ v" s "CHR '' '' # n @ ''=''"] assms by (simp add: cookie_ok_def)
  ultimately show ?thesis by (auto simp: option.map_comp comp_def split_def)
qed

lemma cookie_text_Cons: "cookie_text ((m, v) # cs) = ''; '' @ m @ ''='' @ v @ cookie_text cs"
  by (simp add: cookie_text_def)

lemma cookie_text_Nil: "cookie_text [] = []"
  by (simp add: cookie_text_def)

lemma Cut_cookie_absent:
  assumes "\<forall>c \<in> set cs. cookie_ok c" "CHR ''='' \<notin> set n" "n \<notin> fst ` set cs"
  shows "Cut (cookie_text cs) (''; '' @ n @ ''='') = None"
  using assms
proof (induction cs)
  case (Cons c cs)
  obtain m v where c: "c = (m, v)" by fastforce
  with Cons have "cookie_ok (m, v)" "m \<noteq> n" "Cut (cookie_text cs) (''; '' @ n @ ''='') = None" by auto
  then show ?case using Cut_cookie [of m v n "cookie_text cs"] assms(2) unfolding c cookie_text_Cons by simp
qed (simp add: cookie_text_Nil)

lemma Cut_cookie_present:
  assumes "\<forall>c \<in> set pre. cookie_ok c" "cookie_ok (n, v)" "n \<notin> fst ` set pre"
  shows "Cut (cookie_text (pre @ (n, v) # post)) (''; '' @ n @ ''='') = Some (cookie_text pre, v @ cookie_text post)"
  using assms
proof (induction pre)
  case Nil
  have "CHR ''='' \<notin> set n" using assms(2) by (simp add: cookie_ok_def)
  from Cut_cookie [OF assms(2) this, of "cookie_text post"] show ?case
    unfolding append_Nil cookie_text_Cons cookie_text_Nil by (simp only: if_True refl)
next
  case (Cons c pre)
  obtain m w where c: "c = (m, w)" by fastforce
  have eq: "CHR ''='' \<notin> set n" using assms(2) by (simp add: cookie_ok_def)
  from Cons c have ok: "cookie_ok (m, w)" "m \<noteq> n" by auto
  have ih: "Cut (cookie_text (pre @ (n, v) # post)) (''; '' @ n @ ''='') = Some (cookie_text pre, v @ cookie_text post)"
    using Cons by simp
  show ?case
    using Cut_cookie [OF ok(1) eq, of "cookie_text (pre @ (n, v) # post)"] ok(2) ih
    unfolding c append_Cons cookie_text_Cons by (simp del: Cut.simps)
qed

lemma Split_one: "sep \<noteq> [] \<Longrightarrow> Cut s sep = None \<Longrightarrow> Split s sep = [s]"
  by (subst Split.simps) simp

lemma Split_two: "sep \<noteq> [] \<Longrightarrow> Cut s sep = Some (a, b) \<Longrightarrow> Cut b sep = None \<Longrightarrow> Split s sep = [a, b]"
  by (subst Split.simps) (simp add: Split_one)

lemma first_value:
  assumes "CHR '';'' \<notin> set v" shows "hd (Split (v @ cookie_text cs) '';'') = v"
proof (cases cs)
  case Nil
  then show ?thesis using assms by (simp add: cookie_text_Nil Split_single_none)
next
  case (Cons c cs')
  then have "\<exists>r. cookie_text cs = CHR '';'' # r" by (cases c) (simp add: cookie_text_Cons)
  then show ?thesis using assms by (auto simp: Split_single_append)
qed

lemma getCookie_present:
  assumes "\<forall>c \<in> set (pre @ (n, v) # post). cookie_ok c" "distinct (map fst (pre @ (n, v) # post))"
  shows "getCookie n (document_cookie (pre @ (n, v) # post)) = Some (plus_to_space v)"
proof -
  let ?sep = "''; '' @ n @ ''=''"
  have v: "CHR '';'' \<notin> set v" "CHR ''='' \<notin> set n" using assms(1) by (auto simp: cookie_ok_def)
  have "Cut (cookie_text post) ?sep = None" using assms v(2) by (intro Cut_cookie_absent) auto
  then have "Cut (v @ cookie_text post) ?sep = None"
    using Cut_skip [OF v(1), of "cookie_text post" "CHR '' '' # n @ ''=''"] by simp
  moreover have "Cut (cookie_text (pre @ (n, v) # post)) ?sep = Some (cookie_text pre, v @ cookie_text post)"
    using assms by (intro Cut_cookie_present) auto
  ultimately have "Split (cookie_text (pre @ (n, v) # post)) ?sep = [cookie_text pre, v @ cookie_text post]"
    by (intro Split_two) simp_all
  moreover have "''; '' @ document_cookie (pre @ (n, v) # post) = cookie_text (pre @ (n, v) # post)"
    by (rule document_cookie_text) simp
  ultimately show ?thesis using first_value [OF v(1), of post] unfolding getCookie_def Let_def by simp
qed

lemma getCookie_absent:
  assumes "\<forall>c \<in> set cs. cookie_ok c" "CHR ''='' \<notin> set n" "n \<notin> fst ` set cs"
  shows "getCookie n (document_cookie cs) = None"
proof -
  let ?sep = "''; '' @ n @ ''=''"
  have "Cut (''; '' @ document_cookie cs) ?sep = None"
  proof (cases "cs = []")
    case True
    then show ?thesis by (simp add: document_cookie_def HasPrefix_def)
  next
    case False
    then show ?thesis using Cut_cookie_absent [OF assms] document_cookie_text [OF False] by metis
  qed
  then have "Split (''; '' @ document_cookie cs) ?sep = [''; '' @ document_cookie cs]" by (intro Split_one) simp_all
  then show ?thesis unfolding getCookie_def Let_def by simp
qed

text \<open>Reading a cookie: when names are unique and no name or value holds a separator, \<^verbatim>\<open>getCookie\<close>
  returns the value of the cookie with plus signs as spaces, and \<^verbatim>\<open>undefined\<close> when there is none.\<close>

lemma getCookie_lookup:
  assumes "\<forall>c \<in> set cs. cookie_ok c" "distinct (map fst cs)" "CHR ''='' \<notin> set n"
  shows "getCookie n (document_cookie cs) = map_option plus_to_space (map_of cs n)"
proof (cases "n \<in> fst ` set cs")
  case True
  then obtain pre v post where cs: "cs = pre @ (n, v) # post" by (auto dest!: split_list)
  with assms(2) have "map_of cs n = Some v" by (intro map_of_is_SomeI) auto
  with getCookie_present assms cs show ?thesis by simp
next
  case False
  then show ?thesis using getCookie_absent [OF assms(1,3)] map_of_eq_None_iff [of cs n] by simp
qed

section \<open>Messages\<close>

lemma clear_flash: "set_document_cookie ''flash=; Max-Age=0; path=/'' cs = filter (\<lambda>c. fst c \<noteq> ''flash'') cs"
proof -
  have "Split ''flash=; Max-Age=0; path=/'' '';'' = [''flash='', '' Max-Age=0'', '' path=/'']" by code_simp
  moreover have "list_ex expires_now ['' Max-Age=0'', '' path=/'']" by code_simp
  moreover have "Cut ''flash='' ''='' = Some (''flash'', [])" by code_simp
  ultimately show ?thesis by (simp add: set_document_cookie_def)
qed

definition cookies_ok :: "cookies \<Rightarrow> bool" where
  "cookies_ok cs \<longleftrightarrow> (\<forall>c \<in> set cs. cookie_ok c) \<and> distinct (map fst cs)"

lemma show_message_absent:
  assumes "cookies_ok (page_cookies pg)" "CHR ''='' \<notin> set n" "map_of (page_cookies pg) n = None"
  shows "show_message n icon title pg = (True, pg)"
  using getCookie_absent [of "page_cookies pg" n] assms
  by (simp add: cookies_ok_def show_message_def Let_def map_of_eq_None_iff)

lemma show_message_present:
  assumes "cookies_ok (page_cookies pg)" "map_of (page_cookies pg) n = Some (QueryEscape m)" "wf_utf8 m" "m \<noteq> []"
  shows "show_message n icon title pg =
    (True, pg\<lparr>dialogs := dialogs pg @ [message_dialog icon title m],
              page_cookies := filter (\<lambda>c. fst c \<noteq> ''flash'') (page_cookies pg)\<rparr>)"
proof -
  obtain pre post where "page_cookies pg = pre @ (n, QueryEscape m) # post"
    using map_of_SomeD [OF assms(2)] by (meson split_list)
  then have "getCookie n (document_cookie (page_cookies pg)) = Some (plus_to_space (QueryEscape m))"
    using getCookie_present assms(1) by (simp add: cookies_ok_def)
  moreover have "decodeURIComponent (plus_to_space (QueryEscape m)) = Some m" by (rule decode_QueryEscape [OF assms(3)])
  moreover from this assms(4) have "plus_to_space (QueryEscape m) \<noteq> []" by auto
  ultimately show ?thesis by (simp add: show_message_def Let_def clear_flash)
qed

lemma before_messages [simp]:
  "page_cookies (attach_all (set_title p pg)) = page_cookies pg" "dialogs (attach_all (set_title p pg)) = dialogs pg"
  by (simp_all add: attach_all_def attachConfirmationToForms_def set_title_def Let_def split: option.splits)

text \<open>A page with a message and no warning.\<close>

lemma flash_shown:
  assumes "cookies_ok (page_cookies pg)" "map_of (page_cookies pg) ''flash'' = Some (QueryEscape m)"
    "map_of (page_cookies pg) ''warning'' = None" "wf_utf8 m" "m \<noteq> []"
  shows "dialogs (DOMContentLoaded path pg) = dialogs pg @ [message_dialog ''success'' ''Success'' m]
    \<and> page_cookies (DOMContentLoaded path pg) = filter (\<lambda>c. fst c \<noteq> ''flash'') (page_cookies pg)"
proof -
  let ?pg = "attach_all (set_title path pg)"
  let ?pg1 = "?pg\<lparr>dialogs := dialogs ?pg @ [message_dialog ''success'' ''Success'' m],
      page_cookies := filter (\<lambda>c. fst c \<noteq> ''flash'') (page_cookies ?pg)\<rparr>"
  have "show_message ''flash'' ''success'' ''Success'' ?pg = (True, ?pg1)"
    using assms by (intro show_message_present) simp_all
  moreover have "show_message ''warning'' ''warning'' ''Warning'' ?pg1 = (True, ?pg1)"
    using assms(1,3) by (intro show_message_absent) (auto simp: cookies_ok_def distinct_map_filter map_of_eq_None_iff)
  ultimately show ?thesis by (simp add: DOMContentLoaded_def show_messages_def)
qed

text \<open>(C4) A message survives the way from the server to the user: when the server has set the cookie
  \<^verbatim>\<open>flash\<close> to the escaped text of a message, in any language, loading the page opens one dialog, which
  shows exactly that text, and removes the cookie.\<close>

theorem flash_round_trip:
  assumes "cookies_ok (page_cookies pg)" "map_of (page_cookies pg) ''flash'' = Some (QueryEscape m)"
    "map_of (page_cookies pg) ''warning'' = None" "wf_utf8 m" "m \<noteq> []"
  shows "dialogs (DOMContentLoaded path pg) = dialogs pg @ [message_dialog ''success'' ''Success'' m]
    \<and> page_cookies (DOMContentLoaded path pg) = filter (\<lambda>c. fst c \<noteq> ''flash'') (page_cookies pg)"
  using assms by (rule flash_shown)

theorem flash_round_trip_witness:
  "dialogs (DOMContentLoaded ''/enqueued'' \<lparr>buttons = [], listeners = [],
      page_cookies = [(''flash'', QueryEscape ''Job removed successfully!'')], page_title = [], dialogs = [], submitted = []\<rparr>)
     = [] @ [message_dialog ''success'' ''Success'' ''Job removed successfully!'']
   \<and> page_cookies (DOMContentLoaded ''/enqueued'' \<lparr>buttons = [], listeners = [],
      page_cookies = [(''flash'', QueryEscape ''Job removed successfully!'')], page_title = [], dialogs = [], submitted = []\<rparr>)
     = filter (\<lambda>c. fst c \<noteq> ''flash'') [(''flash'', QueryEscape ''Job removed successfully!'')]"
proof -
  have "cookies_ok [(''flash'', QueryEscape ''Job removed successfully!'')]"
    by (simp add: cookies_ok_def cookie_ok_def QueryEscape_no_semicolon)
  moreover have "wf_utf8 ''Job removed successfully!''" by (rule wf_utf8_ascii) (simp add: byte_def)
  ultimately show ?thesis
    using flash_round_trip [of "\<lparr>buttons = [], listeners = [],
      page_cookies = [(''flash'', QueryEscape ''Job removed successfully!'')], page_title = [], dialogs = [], submitted = []\<rparr>"]
    by simp
qed

text \<open>A warning is shown again at every page that is loaded while its cookie lives: showing it
  removes the cookie \<^verbatim>\<open>flash\<close> and leaves the cookie \<^verbatim>\<open>warning\<close>.\<close>

lemma warning_repeats:
  assumes "cookies_ok (page_cookies pg)" "map_of (page_cookies pg) ''flash'' = None"
    "map_of (page_cookies pg) ''warning'' = Some (QueryEscape m)" "wf_utf8 m" "m \<noteq> []"
  shows "dialogs (DOMContentLoaded path pg) = dialogs pg @ [message_dialog ''warning'' ''Warning'' m]
    \<and> page_cookies (DOMContentLoaded path pg) = page_cookies pg"
proof -
  let ?pg = "attach_all (set_title path pg)"
  have "show_message ''flash'' ''success'' ''Success'' ?pg = (True, ?pg)"
    using assms by (intro show_message_absent) simp_all
  moreover have "filter (\<lambda>c. fst c \<noteq> ''flash'') (page_cookies pg) = page_cookies pg"
    using assms(2) by (force simp: filter_id_conv map_of_eq_None_iff)
  then have "show_message ''warning'' ''warning'' ''Warning'' ?pg =
      (True, ?pg\<lparr>dialogs := dialogs ?pg @ [message_dialog ''warning'' ''Warning'' m], page_cookies := page_cookies pg\<rparr>)"
    using show_message_present [of ?pg "''warning''" m] assms by simp
  ultimately show ?thesis by (simp add: DOMContentLoaded_def show_messages_def)
qed

section \<open>Paging\<close>

lemma hexval_digit: "is_digit c \<Longrightarrow> hexval c = Some (byte c - 48) \<and> 48 \<le> byte c \<and> byte c \<le> 57"
proof -
  assume "is_digit c"
  moreover have "of_char c = int (byte c)" by (simp only: byte_def of_nat_of_char)
  ultimately have "48 \<le> byte c \<and> byte c \<le> 57" by (simp add: is_digit_def Let_def)
  then show ?thesis by (simp add: hexval_def)
qed

lemma digit_in_10: "is_digit c \<Longrightarrow> digit_in 10 c"
  using hexval_digit [of c] by (auto simp: digit_in_def)

lemma to_double_small: "\<bar>n\<bar> < 2 ^ 53 \<Longrightarrow> to_double n = Fin n"
proof -
  assume n: "\<bar>n\<bar> < 2 ^ 53"
  define K :: int where "K = 2 ^ 1024 - 2 ^ 970"
  have "2 ^ 53 < K" by (simp add: K_def)
  with n have "\<not> n \<ge> K" "\<not> n \<le> - K" by linarith+
  then show ?thesis using round53_small [OF n] unfolding to_double_def K_def [symmetric] by simp
qed

lemma digits_radix_val:
  "\<forall>c \<in> set s. is_digit c \<Longrightarrow> digits_val a s = Some (digits_radix 10 a s)"
proof (induction s arbitrary: a)
  case (Cons c s)
  have "of_char c = int (byte c)" by (simp only: byte_def of_nat_of_char)
  with Cons hexval_digit [of c] show ?case by simp
qed simp

lemma parseInt_Itoa:
  assumes "0 \<le> n" "n < 2 ^ 53" shows "parseInt (Itoa n) = Fin n"
proof -
  let ?s = "Itoa n"
  have d: "\<forall>c \<in> set ?s. is_digit c" using Itoa_nonneg_digits [OF assms(1)] by blast
  obtain c t where s: "?s = c # t" using Itoa_not_Nil [of n] by (cases ?s) auto
  have c: "is_digit c" using d s by simp
  then have "js_space_len ?s = 0"
    using hexval_digit [OF c] s by (simp add: js_space_len_def is_digit_plain)
  then have trim: "js_trim_left ?s = ?s" by (subst js_trim_left.simps) simp
  have pre: "\<not> HasPrefix ?s ''-''" "\<not> HasPrefix ?s ''+''"
    using not_HasPrefix_digits [OF d] by (simp_all add: is_digit_def)
  have "\<not> is_digit CHR ''x''" "\<not> is_digit CHR ''X''" by (simp_all add: is_digit_def)
  then have hex: "\<not> HasPrefix ?s ''0x''" "\<not> HasPrefix ?s ''0X''"
    using d s by (cases t; auto simp: HasPrefix_def)+
  have all: "takeWhile (digit_in 10) ?s = ?s"
    using d digit_in_10 by simp
  have "digits_radix 10 0 ?s = n"
    using digits_radix_val [OF d, of 0] digits_val_Itoa_nat [of "nat n"] assms(1) by (simp add: Itoa_def)
  moreover have "to_double n = Fin n" using assms by (intro to_double_small) simp
  ultimately show ?thesis using s trim pre hex all by (simp add: parseInt_def Let_def)
qed

lemma js_plus_small: "\<bar>n + k\<bar> < 2 ^ 53 \<Longrightarrow> js_plus (Fin n) k = Fin (n + k)"
  by (simp add: js_plus_def to_double_small)

lemma map_of_sp_set: "map_of (sp_set n v ps) n = Some v"
  by (induction ps) auto

lemma sp_set_not_Nil: "sp_set n v ps \<noteq> []"
  by (cases ps; cases "hd ps") auto

lemma wf_sp_set: "wf_params ps \<Longrightarrow> wf_utf8 n \<Longrightarrow> wf_utf8 v \<Longrightarrow> wf_params (sp_set n v ps)"
  by (induction ps) (auto simp: wf_params_def split: if_splits)

lemma map_of_sp_set_other: "m \<noteq> n \<Longrightarrow> map_of (sp_set n v ps) m = map_of ps m"
proof (induction ps)
  case (Cons p ps)
  have "m \<noteq> n \<Longrightarrow> map_of (filter (\<lambda>p. fst p \<noteq> n) ps) m = map_of ps m" by (induction ps) auto
  with Cons show ?case by (cases p) auto
qed simp

lemma serialize_no_hash: "CHR ''#'' \<notin> set (form_serialize ps)"
proof (induction ps)
  case (Cons p ps)
  obtain n v where p: "p = (n, v)" by fastforce
  show ?case
  proof (cases "ps = []")
    case False
    have "form_serialize (p # ps) = form_encode n @ ''='' @ form_encode v @ ''&'' @ form_serialize ps"
      using False by (simp add: form_serialize_def Join_Cons p)
    then show ?thesis using Cons form_encode_plain [of n] form_encode_plain [of v] by simp
  qed (use form_encode_plain [of n] form_encode_plain [of v] in \<open>simp add: form_serialize_def p\<close>)
qed (simp add: form_serialize_def)

lemma with_params_ok: "url_ok u \<Longrightarrow> url_ok (with_params u ps)"
  by (simp add: url_ok_def with_params_def serialize_no_hash)

text \<open>The URL with the page number set is read back by the script and by the server.\<close>

lemma page_url:
  assumes u: "url_ok u" and p: "1 \<le> p" "p < 2 ^ 53"
  defines "ps \<equiv> sp_set ''page'' (Itoa p) (searchParams u)"
  defines "u' \<equiv> with_params u ps"
  shows "new_URL (url_toString u') = u'" "url_query u' = Some (form_serialize ps)"
    "searchParams u' = ps" "script_page u' = Fin p" "getPageNumber (form_serialize ps) = p"
proof -
  have ps: "map_of ps ''page'' = Some (Itoa p)" by (simp add: ps_def map_of_sp_set)
  have "byte c < 128" if "is_digit c" for c using hexval_digit [OF that] by simp
  then have "wf_utf8 (Itoa p)" using Itoa_nonneg_digits [of p] p by (intro wf_utf8_ascii) auto
  moreover have "wf_utf8 ''page''" by (rule wf_utf8_ascii) (simp add: byte_def)
  moreover have "wf_params (searchParams u)"
    by (simp add: searchParams_def wf_form_parse split: option.splits) (simp add: wf_params_def)
  ultimately have wf: "wf_params ps" by (simp add: ps_def wf_sp_set)
  show "new_URL (url_toString u') = u'" using with_params_ok [OF u] by (simp add: u'_def new_URL_toString)
  show q: "url_query u' = Some (form_serialize ps)"
    using serialize_not_Nil [of ps] sp_set_not_Nil by (simp add: u'_def with_params_def ps_def)
  then show sp: "searchParams u' = ps" by (simp add: searchParams_def form_parse_serialize [OF wf])
  then show "script_page u' = Fin p"
    using ps p parseInt_Itoa [of p] by (simp add: script_page_def sp_get_def js_truthy_num_def)
  show "getPageNumber (form_serialize ps) = p"
    using ps p by (intro getPageNumber_serialize) (simp_all add: max_int_def)
qed

text \<open>(C5) Turning the page: from page \<^verbatim>\<open>p\<close> the button \<^verbatim>\<open>Next\<close> leads to a location where the server and the
  script read page \<^verbatim>\<open>p + 1\<close> and every other parameter is what it was; the button \<^verbatim>\<open>Previous\<close> leads to
  page \<^verbatim>\<open>p - 1\<close>, and nowhere from page 1.\<close>

theorem goToPage_moves:
  assumes "url_ok u" "script_page u = Fin p" "1 \<le> p" "p + 1 < 2 ^ 53"
    and q: "q = (if action = ''next'' then p + 1 else p - 1)"
  shows "if q < 1 then goToPage big action (url_toString u) = None
    else \<exists>u'. goToPage big action (url_toString u) = Some (url_toString u') \<and> new_URL (url_toString u') = u'
      \<and> url_front u' = url_front u \<and> script_page u' = Fin q \<and> getPageNumber (the (url_query u')) = q
      \<and> (\<forall>n. n \<noteq> ''page'' \<longrightarrow> sp_get n (searchParams u') = sp_get n (searchParams u))"
proof -
  have new: "new_URL (url_toString u) = u" by (rule new_URL_toString [OF assms(1)])
  have page: "(if action = ''next'' then js_plus (Fin p) 1 else js_plus (Fin p) (- 1)) = Fin q"
    using assms js_plus_small [of p 1] js_plus_small [of p "- 1"] by auto
  show ?thesis
  proof (cases "q < 1")
    case True
    then show ?thesis using page new assms(2) by (simp add: goToPage_def js_less_1_def)
  next
    case False
    then have q': "1 \<le> q" "q < 2 ^ 53" using assms by auto
    let ?u = "with_params u (sp_set ''page'' (Itoa q) (searchParams u))"
    have "goToPage big action (url_toString u) = Some (url_toString ?u)"
      using page new assms(2) q' by (simp add: goToPage_def js_less_1_def num_toString_def)
    then show ?thesis using False page_url [OF assms(1) q'] map_of_sp_set_other
      by (auto simp: sp_get_def with_params_def)
  qed
qed

theorem goToPage_moves_witness:
  "if (2::int) < 1 then goToPage (\<lambda>_. []) ''next'' (url_toString \<lparr>url_front = ''/enqueued'', url_query = Some ''status=dead'', url_fragment = None\<rparr>) = None
    else \<exists>u'. goToPage (\<lambda>_. []) ''next'' (url_toString \<lparr>url_front = ''/enqueued'', url_query = Some ''status=dead'', url_fragment = None\<rparr>)
        = Some (url_toString u') \<and> new_URL (url_toString u') = u'
      \<and> url_front u' = url_front \<lparr>url_front = ''/enqueued'', url_query = Some ''status=dead'', url_fragment = None\<rparr>
      \<and> script_page u' = Fin 2 \<and> getPageNumber (the (url_query u')) = 2
      \<and> (\<forall>n. n \<noteq> ''page'' \<longrightarrow> sp_get n (searchParams u')
          = sp_get n (searchParams \<lparr>url_front = ''/enqueued'', url_query = Some ''status=dead'', url_fragment = None\<rparr>))"
proof (rule goToPage_moves [where p = 1])
  show "script_page \<lparr>url_front = ''/enqueued'', url_query = Some ''status=dead'', url_fragment = None\<rparr> = Fin 1"
    by code_simp
qed (simp_all add: url_ok_def)

section \<open>Confirmations\<close>

text \<open>The dialogs a button asks for, by its classes.\<close>

definition asks :: "button \<Rightarrow> confirm_options list" where
  "asks b =
     (if ''delete-btn'' \<in> set (btn_classes b) then [delete_options] else [])
     @ (if ''change-status-btn'' \<in> set (btn_classes b) then [change_status_options] else [])
     @ (if ''run-btn'' \<in> set (btn_classes b) then [run_options] else [])"

lemma run_listeners_append:
  "run_listeners answer b (ls @ ls') pg = run_listeners answer b ls' (run_listeners answer b ls pg)"
  by (induction ls arbitrary: pg) auto

lemma run_listeners_other:
  "\<forall>l \<in> set ls. fst l \<noteq> btn_id b \<Longrightarrow> run_listeners answer b ls pg = pg"
  by (induction ls arbitrary: pg) auto

lemma run_listeners_class:
  assumes "distinct (map btn_id bs)" "b \<in> set bs"
  shows "run_listeners answer b (map (\<lambda>b. (btn_id b, opts)) (filter P bs)) pg =
    (if P b then on_click answer b opts pg else pg)"
proof -
  obtain us vs where bs: "bs = us @ b # vs" using assms(2) by (meson split_list)
  then have other: "\<forall>l \<in> set (map (\<lambda>b. (btn_id b, opts)) (filter P us)). fst l \<noteq> btn_id b"
    "\<forall>l \<in> set (map (\<lambda>b. (btn_id b, opts)) (filter P vs)). fst l \<noteq> btn_id b"
    using assms(1) by (auto simp: rev_image_eqI)
  show ?thesis using run_listeners_other [OF other(1)] run_listeners_other [OF other(2)]
    by (simp add: bs run_listeners_append)
qed

lemma on_click_effect:
  "dialogs (on_click answer b opts pg) = dialogs pg @ [confirm_dialog opts]"
  "submitted (on_click answer b opts pg) = submitted pg
     @ (case btn_form b of None \<Rightarrow> [] | Some f \<Rightarrow> if answer (confirm_dialog opts) then [f] else [])"
  by (simp_all add: on_click_def Let_def split: option.splits)

text \<open>(C25) A click on a button of a loaded page opens one dialog for each of the three classes the
  button has, and submits the form of the button once for each of them that is answered with yes:
  no form is submitted without a confirmation.\<close>

theorem click_confirms:
  assumes "distinct (map btn_id (buttons pg))" "b \<in> set (buttons pg)" "listeners pg = []"
  shows "dialogs (click answer b (attach_all pg)) = dialogs pg @ map confirm_dialog (asks b)
    \<and> submitted (click answer b (attach_all pg)) = submitted pg @
        (case btn_form b of None \<Rightarrow> []
         | Some f \<Rightarrow> map (\<lambda>_. f) (filter (\<lambda>opts. answer (confirm_dialog opts)) (asks b)))"
proof -
  let ?cls = "\<lambda>c opts. map (\<lambda>b. (btn_id b, opts)) (filter (\<lambda>b. c \<in> set (btn_classes b)) (buttons pg))"
  let ?pg = "attach_all pg"
  have "listeners ?pg = ?cls ''delete-btn'' delete_options @ ?cls ''change-status-btn'' change_status_options
      @ ?cls ''run-btn'' run_options"
    using assms(3) by (simp add: attach_all_def attachConfirmationToForms_def)
  then have "click answer b ?pg =
      (let pg1 = (if ''delete-btn'' \<in> set (btn_classes b) then on_click answer b delete_options ?pg else ?pg);
           pg2 = (if ''change-status-btn'' \<in> set (btn_classes b) then on_click answer b change_status_options pg1 else pg1)
       in if ''run-btn'' \<in> set (btn_classes b) then on_click answer b run_options pg2 else pg2)"
    unfolding click_def Let_def by (simp only: run_listeners_append run_listeners_class [OF assms(1,2)])
  moreover have "dialogs ?pg = dialogs pg" "submitted ?pg = submitted pg"
    by (simp_all add: attach_all_def attachConfirmationToForms_def)
  ultimately show ?thesis
    by (cases "btn_form b") (simp_all add: Let_def asks_def on_click_effect)
qed

theorem click_confirms_witness:
  "dialogs (click (\<lambda>d. True) \<lparr>btn_id = 0, btn_classes = [''btn'', ''delete-btn''], btn_form = Some 4\<rparr>
      (attach_all \<lparr>buttons = [\<lparr>btn_id = 0, btn_classes = [''btn'', ''delete-btn''], btn_form = Some 4\<rparr>], listeners = [],
        page_cookies = [], page_title = [], dialogs = [], submitted = []\<rparr>)) = [confirm_dialog delete_options]
   \<and> submitted (click (\<lambda>d. True) \<lparr>btn_id = 0, btn_classes = [''btn'', ''delete-btn''], btn_form = Some 4\<rparr>
      (attach_all \<lparr>buttons = [\<lparr>btn_id = 0, btn_classes = [''btn'', ''delete-btn''], btn_form = Some 4\<rparr>], listeners = [],
        page_cookies = [], page_title = [], dialogs = [], submitted = []\<rparr>)) = [4]"
  using click_confirms [of "\<lparr>buttons = [\<lparr>btn_id = 0, btn_classes = [''btn'', ''delete-btn''], btn_form = Some 4\<rparr>],
      listeners = [], page_cookies = [], page_title = [], dialogs = [], submitted = []\<rparr>"
      "\<lparr>btn_id = 0, btn_classes = [''btn'', ''delete-btn''], btn_form = Some 4\<rparr>" "\<lambda>d. True"]
  by (simp add: asks_def)

text \<open>The title of a page is the decoded last part of its path, whatever slashes surround the
  parts, and \<^verbatim>\<open>Home\<close> at the root.\<close>

lemma title_is_last_part:
  assumes "\<forall>p \<in> set parts. p \<noteq> [] \<and> CHR ''/'' \<notin> set p \<and> CHR ''%'' \<notin> set p"
  shows "page_title (set_title (concat (map (\<lambda>p. ''/'' @ p) parts) @ (if slash then ''/'' else [])) pg)
    = (if parts = [] then ''Home'' else last parts)"
proof -
  let ?path = "concat (map (\<lambda>p. ''/'' @ p) parts) @ (if slash then ''/'' else [])"
  have plain: "CHR ''%'' \<notin> set t \<Longrightarrow> decodeURIComponent t = Some t" for t by (induction t) auto
  have "filter (\<lambda>p. p \<noteq> []) (Split (a @ ?path) ''/'') = (if a = [] then parts else a # parts)"
    if "CHR ''/'' \<notin> set a" for a
    using that assms
  proof (induction parts arbitrary: a)
    case Nil
    then show ?case using Split_single_append [of "CHR ''/''" "[]" "[]"]
      by (simp add: Split_single_none Split_single_append)
  next
    case (Cons p parts)
    then have "filter (\<lambda>p. p \<noteq> []) (Split (p @ concat (map (\<lambda>p. ''/'' @ p) parts) @ (if slash then ''/'' else [])) ''/'') = p # parts"
      by simp
    with Cons.prems Split_single_append [of "CHR ''/''" "[]"] show ?case by (simp add: Split_single_append)
  qed
  from this [of "[]"] have "filter (\<lambda>p. p \<noteq> []) (Split ?path ''/'') = parts" by simp
  moreover have "decodeURIComponent (if parts = [] then ''Home'' else last parts) = Some (if parts = [] then ''Home'' else last parts)"
    using assms by (intro plain) (auto dest: last_in_set)
  ultimately show ?thesis by (simp add: set_title_def Let_def)
qed

end
