(* ===== verification/WebAuth.thy ===== *)
theory WebAuth
  imports GoCrypto DashboardScript
begin

text \<open>
  The login cookie (\<^verbatim>\<open>web/auth_cookie_validator.go\<close>): a token of the user name and its HMAC under the
  secret key, both in base64. Cookies travel as \<^verbatim>\<open>net/http\<close> writes and reads them: a value is written
  without the bytes a cookie may not hold, in quotes when it has a space or a comma, and the header
  \<^verbatim>\<open>Cookie\<close> is taken apart at semicolons.
\<close>

section \<open>Tokens\<close>

definition generateAuthToken :: "string \<Rightarrow> string \<Rightarrow> string" where
  "generateAuthToken username secretKey = b64_encode username @ ''|'' @ b64_encode (hmac_sha256 secretKey username)"

definition isValidAuthToken :: "string \<Rightarrow> string \<Rightarrow> bool" where
  "isValidAuthToken token secretKey =
     (let parts = Split token ''|'' in
      if length parts \<noteq> 2 then False
      else case b64_decode (parts ! 0) of
             None \<Rightarrow> False
           | Some usernameBytes \<Rightarrow>
               (case b64_decode (parts ! 1) of
                  None \<Rightarrow> False
                | Some expectedMac \<Rightarrow> expectedMac = hmac_sha256 secretKey usernameBytes))"

section \<open>Cookies on the server\<close>

definition valid_cookie_byte :: "char \<Rightarrow> bool" where
  "valid_cookie_byte c \<longleftrightarrow> 32 \<le> byte c \<and> byte c < 127 \<and> byte c \<noteq> 34 \<and> byte c \<noteq> 59 \<and> byte c \<noteq> 92"

definition sanitizeCookieValue :: "string \<Rightarrow> string" where
  "sanitizeCookieValue v =
     (let v = filter valid_cookie_byte v in
      if v \<noteq> [] \<and> (CHR '' '' \<in> set v \<or> CHR '','' \<in> set v) then [CHR 0x22] @ v @ [CHR 0x22] else v)"

definition parseCookieValue :: "string \<Rightarrow> string option" where
  "parseCookieValue raw =
     (let v = (if length raw > 1 \<and> hd raw = CHR 0x22 \<and> last raw = CHR 0x22 then butlast (tl raw) else raw) in
      if list_all valid_cookie_byte v then Some v else None)"

definition http_space :: "char \<Rightarrow> bool" where
  "http_space c \<longleftrightarrow> byte c \<in> {32, 9, 10, 13}"

definition TrimString :: "string \<Rightarrow> string" where
  "TrimString s = rev (dropWhile http_space (rev (dropWhile http_space s)))"

definition cookie_part :: "string \<Rightarrow> string \<Rightarrow> string option" where
  "cookie_part name part =
     (let p = TrimString part;
          (n, v) = (case Cut p ''='' of None \<Rightarrow> (p, []) | Some nv \<Rightarrow> nv)
      in if p = [] \<or> TrimString n \<noteq> name then None else parseCookieValue v)"

text \<open>\<^verbatim>\<open>Request.Cookie\<close>: the first cookie of that name in the header.\<close>

definition r_Cookie :: "string \<Rightarrow> string \<Rightarrow> string option" where
  "r_Cookie header name =
     (case List.map_filter (cookie_part name) (Split header '';'') of [] \<Rightarrow> None | v # _ \<Rightarrow> Some v)"

definition isAuthenticated :: "string \<Rightarrow> string \<Rightarrow> bool" where
  "isAuthenticated header secretKey =
     (case r_Cookie header ''auth'' of
        None \<Rightarrow> False
      | Some v \<Rightarrow> isValidAuthToken v secretKey)"

section \<open>Tokens are accepted\<close>

lemma byte_bar: "byte (CHR ''|'') = 124"
  by (simp add: byte_def)

lemma b64_no_bar: "CHR ''|'' \<notin> set (b64_encode s)"
proof
  assume "CHR ''|'' \<in> set (b64_encode s)"
  with b64_encode_plain have "b64_plain (CHR ''|'')" by blast
  then show False by (simp add: b64_plain_def alnum_def byte_bar)
qed

lemma Split_token: "Split (generateAuthToken u k) ''|'' = [b64_encode u, b64_encode (hmac_sha256 k u)]"
  using b64_no_bar by (simp add: generateAuthToken_def Split_single_append Split_single_none)

lemma token_valid: "isValidAuthToken (generateAuthToken u k) k' \<longleftrightarrow> hmac_sha256 k u = hmac_sha256 k' u"
  by (simp add: isValidAuthToken_def Split_token b64_round_trip)

lemma token_bytes: "\<forall>c \<in> set (generateAuthToken u k). b64_plain c \<or> byte c = 124"
  using b64_encode_plain by (auto simp: generateAuthToken_def byte_bar)

lemma token_clean: "c \<in> set (generateAuthToken u k) \<Longrightarrow>
    valid_cookie_byte c \<and> \<not> http_space c \<and> byte c \<noteq> 44"
  using token_bytes [of u k] by (auto simp: b64_plain_def alnum_def valid_cookie_byte_def http_space_def)

lemma byte_chars: "byte (CHR '' '') = 32" "byte (CHR '','') = 44" "byte (CHR '';'') = 59" "byte (CHR 0x22) = 34"
  by (simp_all add: byte_def)

lemma token_no: "CHR '' '' \<notin> set (generateAuthToken u k)" "CHR '','' \<notin> set (generateAuthToken u k)"
  "CHR '';'' \<notin> set (generateAuthToken u k)" "CHR 0x22 \<notin> set (generateAuthToken u k)"
  using token_clean [of _ u k] by (force simp: valid_cookie_byte_def http_space_def byte_chars)+

lemma sanitize_token: "sanitizeCookieValue (generateAuthToken u k) = generateAuthToken u k"
  using token_clean [of _ u k] token_no [of u k]
  by (simp add: sanitizeCookieValue_def Let_def filter_id_conv)

lemma token_not_Nil: "generateAuthToken u k \<noteq> []"
  by (simp add: generateAuthToken_def)

lemma parse_token: "parseCookieValue (generateAuthToken u k) = Some (generateAuthToken u k)"
proof -
  have "hd (generateAuthToken u k) \<noteq> CHR 0x22"
    using token_no(4) [of u k] hd_in_set [OF token_not_Nil [of u k]] by metis
  then show ?thesis using token_clean [of _ u k] by (simp add: parseCookieValue_def list_all_iff)
qed

section \<open>Cookies a browser sends\<close>

text \<open>The header of a browser is the text of its cookies. Names hold no white space, equals sign or
  semicolon, values no semicolon.\<close>

definition jar_ok :: "cookies \<Rightarrow> bool" where
  "jar_ok cs \<longleftrightarrow> (\<forall>(n, v) \<in> set cs. n \<noteq> [] \<and> CHR '';'' \<notin> set v
     \<and> (\<forall>c \<in> set n. \<not> http_space c \<and> c \<noteq> CHR ''='' \<and> c \<noteq> CHR '';''))"

lemma Split_parts:
  assumes "CHR '';'' \<notin> set a" "jar_ok cs"
  shows "Split (a @ cookie_text cs) '';'' = a # map (\<lambda>(n, v). CHR '' '' # n @ ''='' @ v) cs"
  using assms
proof (induction cs arbitrary: a)
  case Nil
  then show ?case by (simp add: cookie_text_Nil Split_single_none)
next
  case (Cons c cs)
  obtain n v where c: "c = (n, v)" by fastforce
  have "CHR '';'' \<notin> set (CHR '' '' # n @ ''='' @ v)" using Cons.prems c by (auto simp: jar_ok_def)
  from Cons.IH [OF this] Cons.prems c show ?case
    by (simp add: cookie_text_Cons Split_single_append jar_ok_def)
qed

lemma document_cookie_Cons: "document_cookie ((n, v) # cs) = n @ ''='' @ v @ cookie_text cs"
proof -
  have "''; '' @ document_cookie ((n, v) # cs) = ''; '' @ n @ ''='' @ v @ cookie_text cs"
    using document_cookie_text [of "(n, v) # cs"] by (simp add: cookie_text_Cons)
  then show ?thesis by simp
qed

lemma dropWhile_http:
  assumes "n \<noteq> []" "\<forall>c \<in> set n. \<not> http_space c"
  shows "dropWhile http_space (n @ s) = n @ s"
  using assms by (cases n) auto

lemma TrimString_part:
  assumes "n \<noteq> []" "\<forall>c \<in> set n. \<not> http_space c"
  shows "TrimString (n @ CHR ''='' # v) = n @ CHR ''='' # rev (dropWhile http_space (rev v))"
proof -
  have "\<not> http_space (CHR ''='')" by (simp add: http_space_def byte_chars)
  then have "dropWhile http_space (rev v @ CHR ''='' # rev n) = dropWhile http_space (rev v) @ CHR ''='' # rev n"
    by (simp add: dropWhile_append)
  then show ?thesis using dropWhile_http [OF assms] by (simp add: TrimString_def)
qed

lemma TrimString_space: "TrimString (CHR '' '' # s) = TrimString s"
  by (simp add: TrimString_def http_space_def byte_chars)

lemma TrimString_plain: "\<forall>c \<in> set s. \<not> http_space c \<Longrightarrow> TrimString s = s"
  using dropWhile_http [of s "[]"] dropWhile_http [of "rev s" "[]"] by (cases "s = []") (simp_all add: TrimString_def)

lemma cookie_part_text:
  assumes "n \<noteq> []" "\<forall>c \<in> set n. \<not> http_space c \<and> c \<noteq> CHR ''=''"
  shows "cookie_part name (n @ CHR ''='' # v) =
    (if n = name then parseCookieValue (rev (dropWhile http_space (rev v))) else None)"
proof -
  have "CHR ''='' \<notin> set n" using assms(2) by blast
  then show ?thesis using assms
    by (simp add: cookie_part_def Let_def TrimString_part TrimString_plain Cut_single_append)
qed

lemma cookie_part_space: "cookie_part name (CHR '' '' # s) = cookie_part name s"
  by (simp add: cookie_part_def TrimString_space)

text \<open>What the server reads: the value of the first cookie of that name whose value is a legal one.\<close>

definition read_value :: "string \<Rightarrow> string option" where
  "read_value v = parseCookieValue (rev (dropWhile http_space (rev v)))"

lemma r_Cookie_document:
  assumes "jar_ok cs"
  shows "r_Cookie (document_cookie cs) name =
    (case List.map_filter (\<lambda>(n, v). if n = name then read_value v else None) cs of [] \<Rightarrow> None | v # _ \<Rightarrow> Some v)"
proof (cases cs)
  case Nil
  then show ?thesis
    by (simp add: r_Cookie_def document_cookie_def Split_single_none cookie_part_def TrimString_def)
next
  case (Cons c cs')
  obtain n v where c: "c = (n, v)" by fastforce
  have ok: "n \<noteq> []" "CHR '';'' \<notin> set (n @ CHR ''='' # v)" "\<forall>c \<in> set n. \<not> http_space c \<and> c \<noteq> CHR ''=''" "jar_ok cs'"
    using assms Cons c by (auto simp: jar_ok_def)
  have part: "cookie_part name (n @ CHR ''='' # v) = (if n = name then read_value v else None)"
    if "(n, v) \<in> set cs" for n v
    using assms that by (subst cookie_part_text) (auto simp: jar_ok_def read_value_def)
  have "Split (document_cookie cs) '';'' = (n @ CHR ''='' # v) # map (\<lambda>(n, v). CHR '' '' # n @ CHR ''='' # v) cs'"
    using Split_parts [OF ok(2,4)] Cons c by (simp add: document_cookie_Cons)
  moreover have "List.map_filter (cookie_part name) (map (\<lambda>(n, v). CHR '' '' # n @ CHR ''='' # v) cs') =
      List.map_filter (\<lambda>(n, v). if n = name then read_value v else None) cs'"
    using part Cons by (induction cs' arbitrary: cs) (auto simp: cookie_part_space split: option.splits prod.splits)
  ultimately show ?thesis using part [of n v] Cons c
    by (simp add: r_Cookie_def split: option.splits)
qed

end
