(* ===== verification/UserStore.thy ===== *)
theory UserStore
  imports GoSql JobTypes
begin

text \<open>
  The store of dashboard users (\<^verbatim>\<open>internal/store/postgres/postgres_user_store.go\<close>). Passwords are hashed by
  the package \<^verbatim>\<open>golang.org/x/crypto/bcrypt\<close>, which is not part of the program: the operations take
  \<^verbatim>\<open>GenerateFromPassword\<close> (for one choice of its salt) and \<^verbatim>\<open>CompareHashAndPassword\<close> as arguments.
\<close>

record user_row =
  ur_id :: int
  ur_username :: string
  ur_password :: string

type_synonym user_table = "user_row table"

definition new_user_row :: "string \<Rightarrow> string \<Rightarrow> int \<Rightarrow> user_row" where
  "new_user_row username hashed i = \<lparr>ur_id = i, ur_username = username, ur_password = hashed\<rparr>"

text \<open>The error of the first statement is not looked at. The user name is unique.\<close>

definition Create ::
  "fault \<Rightarrow> fault \<Rightarrow> (string \<Rightarrow> string result) \<Rightarrow> string \<Rightarrow> string \<Rightarrow> user_table \<Rightarrow> (int \<times> fault) \<times> user_table" where
  "Create flt1 flt2 GenerateFromPassword username password T =
     (let T1 = snd (exec_delete flt1 (\<lambda>r. ur_username r = username) T) in
      case GenerateFromPassword password of
        Inl e \<Rightarrow> ((0, Some e), T1)
      | Inr hashedPassword \<Rightarrow>
          (case flt2 of
             Some e \<Rightarrow> ((0, Some e), T1)
           | None \<Rightarrow>
               (if \<exists>r \<in> set (trows T1). ur_username r = username
                then ((0, Some ''pq: duplicate key value violates unique constraint \"users_username_key\"''), T1)
                else ((next_id T1, None), insert_row (new_user_row username hashedPassword) T1))))"

text \<open>\<open>Inr None\<close> is the pair of nil and nil.\<close>

definition Find ::
  "fault \<Rightarrow> (string \<Rightarrow> string \<Rightarrow> bool) \<Rightarrow> string \<Rightarrow> string \<Rightarrow> user_table \<Rightarrow> User option result" where
  "Find flt CompareHashAndPassword username password T =
     (case flt of
        Some e \<Rightarrow> Inl e
      | None \<Rightarrow>
          (case query_row (select_where (\<lambda>r. ur_username r = username) T) of
             Inl e \<Rightarrow> (if e = ErrNoRows then Inr None else Inl e)
           | Inr r \<Rightarrow>
               (if CompareHashAndPassword (ur_password r) password
                then Inr (Some \<lparr>usr_ID = ur_id r, usr_Username = ur_username r, usr_Password = []\<rparr>)
                else Inl ''user not found'')))"

definition FindByUsername :: "fault \<Rightarrow> string \<Rightarrow> user_table \<Rightarrow> User option result" where
  "FindByUsername flt username T =
     (case flt of
        Some e \<Rightarrow> Inl e
      | None \<Rightarrow>
          (case query_row (select_where (\<lambda>r. ur_username r = username) T) of
             Inl e \<Rightarrow> (if e = ErrNoRows then Inr None else Inl e)
           | Inr r \<Rightarrow> Inr (Some \<lparr>usr_ID = ur_id r, usr_Username = ur_username r, usr_Password = []\<rparr>)))"

definition Delete :: "fault \<Rightarrow> string \<Rightarrow> user_table \<Rightarrow> fault \<times> user_table" where
  "Delete flt username T =
     (case exec_delete flt (\<lambda>r. ur_username r = username) T of
        (Inl e, T') \<Rightarrow> (Some e, T')
      | (Inr rowsAffected, T') \<Rightarrow>
          (if rowsAffected = 0 then (Some ''no user found to delete'', T') else (None, T')))"

text \<open>The administrator of the configuration is created when there is no user of that name
  (\<^verbatim>\<open>jobmanager/run.go\<close>).\<close>

definition createDashboardAdminIfConfigured ::
  "fault \<Rightarrow> fault \<Rightarrow> fault \<Rightarrow> (string \<Rightarrow> string result) \<Rightarrow> string \<Rightarrow> string \<Rightarrow> user_table \<Rightarrow> fault \<times> user_table" where
  "createDashboardAdminIfConfigured flt1 flt2 flt3 gen name password T =
     (if name = [] \<or> password = [] then (None, T)
      else case FindByUsername flt1 name T of
             Inl e \<Rightarrow> (Some e, T)
           | Inr (Some u) \<Rightarrow> (None, T)
           | Inr None \<Rightarrow> (case Create flt2 flt3 gen name password T of ((_, err), T') \<Rightarrow> (err, T')))"

section \<open>Lemmas\<close>

definition user_inv :: "user_table \<Rightarrow> bool" where
  "user_inv T \<longleftrightarrow> keyed ur_id T \<and> distinct (map ur_username (trows T))"

lemma inv_Create: "user_inv T \<Longrightarrow> user_inv (snd (Create flt1 flt2 gen name pw T))"
  by (auto simp: user_inv_def Create_def Let_def exec_delete_def new_user_row_def keyed_delete distinct_map_filter
      intro!: keyed_insert split: sum.splits option.splits)

lemma inv_Delete: "user_inv T \<Longrightarrow> user_inv (snd (Delete flt name T))"
  by (auto simp: user_inv_def Delete_def exec_delete_def keyed_delete distinct_map_filter split: option.splits)

text \<open>Creating a user replaces a user of that name.\<close>

lemma Create_select:
  assumes "gen pw = Inr h"
  shows "fst (Create None None gen name pw T) = (next_id T, None)"
    and "select_where (\<lambda>r. ur_username r = n) (snd (Create None None gen name pw T)) =
      (if n = name then [new_user_row name h (next_id T)] else select_where (\<lambda>r. ur_username r = n) T)"
  using assms
  by (auto simp: Create_def Let_def exec_delete_def select_where_def new_user_row_def filter_empty_conv
      intro: filter_cong)

lemma Find_Create:
  assumes "gen pw = Inr h"
  shows "Find None cmp name pw' (snd (Create None None gen name pw T)) =
    (if cmp h pw' then Inr (Some \<lparr>usr_ID = next_id T, usr_Username = name, usr_Password = []\<rparr>)
     else Inl ''user not found'')"
  by (simp add: Find_def Create_select [where gen = gen and pw = pw, OF assms] new_user_row_def)

lemma Find_unknown: "\<forall>r \<in> set (trows T). ur_username r \<noteq> name \<Longrightarrow> Find None cmp name pw T = Inr None"
  by (simp add: Find_def select_where_def)

end
