(* ===== verification/CronStore.thy ===== *)
theory CronStore
  imports GoSql GoConv JobTypes JobLock "HOL-Library.Option_ord"
begin

text \<open>
  The store of recurring jobs (\<^verbatim>\<open>internal/store/postgres/postgres_cron_job_store.go\<close>) on the table
  \<^verbatim>\<open>gofire_schema.cron_jobs\<close>. One definition per method; the conventions are those of the store of
  enqueued jobs. The columns \<^verbatim>\<open>last_run_at\<close> and \<^verbatim>\<open>next_run_at\<close> have no time zone: a time written to
  them keeps the reading of its clock and loses its zone, and comparing them with \<^verbatim>\<open>now()\<close> reads them
  in the time zone of the database session, which the operations take as the argument \<open>tz\<close> (seconds
  from UTC).
\<close>

section \<open>Rows\<close>

record cron_row =
  cr_id :: int
  cr_name :: string
  cr_status :: JobStatus
  cr_payload :: json
  cr_last_error :: "string option"
  cr_locked_by :: "string option"
  cr_locked_at :: "timestamp option"
  cr_created_at :: timestamp
  cr_updated_at :: timestamp
  cr_last_run_at :: "int option"
  cr_next_run_at :: "int option"
  cr_is_active :: bool
  cr_expression :: string

type_synonym cron_table = "cron_row table"

definition new_cron_row :: "timestamp \<Rightarrow> string \<Rightarrow> gotime \<Rightarrow> json \<Rightarrow> string \<Rightarrow> int \<Rightarrow> cron_row" where
  "new_cron_row now name scheduledAt payload expression i =
     \<lparr>cr_id = i, cr_name = name, cr_status = StatusQueued, cr_payload = payload, cr_last_error = None,
      cr_locked_by = None, cr_locked_at = None, cr_created_at = now, cr_updated_at = now,
      cr_last_run_at = None, cr_next_run_at = Some (wall scheduledAt), cr_is_active = True,
      cr_expression = expression\<rparr>"

text \<open>\<^verbatim>\<open>NextRunAt\<close> is not a pointer, so a \<^verbatim>\<open>NULL\<close> cannot be scanned into it.\<close>

definition scan_cron_row :: "cron_row \<Rightarrow> CronJob result" where
  "scan_cron_row r =
     (case cr_next_run_at r of
        None \<Rightarrow> Inl ''sql: Scan error on column index 9, name \"next_run_at\": unsupported Scan, storing driver.Value type <nil> into type *time.Time''
      | Some t \<Rightarrow> Inr
          \<lparr>cj_ID = cr_id r, cj_Name = cr_name r, cj_Payload = cr_payload r, cj_Status = cr_status r,
           cj_LastError = cr_last_error r, cj_LockedBy = cr_locked_by r, cj_LockedAt = cr_locked_at r,
           cj_CreatedAt = cr_created_at r, cj_LastRunAt = cr_last_run_at r, cj_NextRunAt = t,
           cj_IsActive = cr_is_active r, cj_Expression = cr_expression r\<rparr>)"

section \<open>Operations\<close>

text \<open>The name is unique. An \<^verbatim>\<open>INSERT\<close> that meets a row of the same name updates that row; the id it had
  drawn from the sequence is lost.\<close>

definition AddOrUpdate ::
  "fault \<Rightarrow> timestamp \<Rightarrow> string \<Rightarrow> gotime \<Rightarrow> string \<Rightarrow> any list \<Rightarrow> cron_table \<Rightarrow> (int \<times> fault) \<times> cron_table" where
  "AddOrUpdate flt now jobName scheduledAt expression args T =
     (case Marshal_args args of
        Inl e \<Rightarrow> ((0, Some (''failed to marshal payload: '' @ e)), T)
      | Inr payloadJSON \<Rightarrow>
          (case flt of
             Some e \<Rightarrow> ((0, Some (''failed to insert or update cron job: '' @ e)), T)
           | None \<Rightarrow>
               (case find (\<lambda>r. cr_name r = jobName) (trows T) of
                  None \<Rightarrow> ((next_id T, None),
                    insert_row (new_cron_row now jobName scheduledAt payloadJSON expression) T)
                | Some r \<Rightarrow> ((cr_id r, None),
                    (update_where (\<lambda>r. cr_name r = jobName)
                       (\<lambda>r. r\<lparr>cr_next_run_at := Some (wall scheduledAt), cr_payload := payloadJSON,
                              cr_updated_at := now, cr_expression := expression\<rparr>) T)
                    \<lparr>next_id := next_id T + 1\<rparr>))))"

text \<open>The \<^verbatim>\<open>WHERE\<close> clause of \<^verbatim>\<open>FetchDueCronJobs\<close>; \<^verbatim>\<open>AND\<close> binds tighter than \<^verbatim>\<open>OR\<close>.\<close>

definition cron_due_where :: "int \<Rightarrow> timestamp \<Rightarrow> cron_row \<Rightarrow> bool" where
  "cron_due_where tz now r \<longleftrightarrow>
     cr_is_active r
     \<and> (case cr_next_run_at r of None \<Rightarrow> True | Some t \<Rightarrow> t \<le> now + tz * second_ns)
     \<or> (cr_status r = ''queued'' \<or> cr_status r = ''retrying''
        \<or> (cr_status r = ''processing''
           \<and> (case cr_locked_at r of None \<Rightarrow> False | Some l \<Rightarrow> l < now - 60 * minute_ns)))"

text \<open>The second part of \<^verbatim>\<open>FetchDueCronJobs\<close> and of \<^verbatim>\<open>GetAll\<close>: count, query, scan, page.\<close>

definition cron_page ::
  "fault \<Rightarrow> fault \<Rightarrow> int \<Rightarrow> int \<Rightarrow> (cron_row \<Rightarrow> bool) \<Rightarrow> cron_row row_order \<Rightarrow> cron_table
   \<Rightarrow> CronJob PaginationResult result" where
  "cron_page flt1 flt2 page pageSize P order T =
     (let offset = wrap64 ((page - 1) * pageSize) in
      case flt1 of
        Some e \<Rightarrow> Inl e
      | None \<Rightarrow>
          (let totalItems = rows_matching P T in
           case (case flt2 of
                   Some e \<Rightarrow> Inl e
                 | None \<Rightarrow> limit_offset pageSize offset (order (select_where P T))) of
             Inl e \<Rightarrow> Inl e
           | Inr rs \<Rightarrow>
               (let totalPages = total_pages totalItems pageSize in
                Inr \<lparr>Items = collect scan_cron_row (query rs) [], TotalItems = totalItems,
                     Page = page, PageSize = pageSize, TotalPages = totalPages,
                     HasNextPage = page < totalPages, HasPreviousPage = page > 1\<rparr>)))"

text \<open>The server orders the due rows by \<^verbatim>\<open>next_run_at\<close>, nulls first, and those of \<^verbatim>\<open>GetAll\<close> by \<^verbatim>\<open>created_at\<close>, newest
  first; \<^verbatim>\<open>srt\<close> is the order it chooses.\<close>

definition FetchDueCronJobs ::
  "fault \<Rightarrow> fault \<Rightarrow> cron_row row_order \<Rightarrow> int \<Rightarrow> timestamp \<Rightarrow> int \<Rightarrow> int \<Rightarrow> cron_table \<Rightarrow> CronJob PaginationResult result" where
  "FetchDueCronJobs flt1 flt2 srt tz now page pageSize T =
     cron_page flt1 flt2 (if page < 1 then 1 else page) pageSize (cron_due_where tz now) srt T"

definition Cron_GetAll ::
  "fault \<Rightarrow> fault \<Rightarrow> cron_row row_order \<Rightarrow> int \<Rightarrow> int \<Rightarrow> JobStatus \<Rightarrow> cron_table \<Rightarrow> CronJob PaginationResult result" where
  "Cron_GetAll flt1 flt2 srt page pageSize status T =
     cron_page flt1 flt2 (if page < 1 then 1 else page) pageSize
       (\<lambda>r. status \<noteq> '''' \<longrightarrow> cr_status r = status) srt T"

definition Cron_CountAllJobsGroupedByStatus :: "fault \<Rightarrow> cron_table \<Rightarrow> (JobStatus \<rightharpoonup> int) result" where
  "Cron_CountAllJobsGroupedByStatus flt T =
     (case flt of
        Some e \<Rightarrow> Inl e
      | None \<Rightarrow> Inr (add_missing AllStatuses (read_counts (group_counts cr_status T) Map.empty)))"

definition UpdateJobRunTimes :: "fault \<Rightarrow> int \<Rightarrow> gotime \<Rightarrow> gotime \<Rightarrow> cron_table \<Rightarrow> fault \<times> cron_table" where
  "UpdateJobRunTimes flt jobID lastRunAt nextRunAt T =
     (case exec_update flt (\<lambda>r. cr_id r = jobID)
             (\<lambda>r. r\<lparr>cr_last_run_at := Some (wall lastRunAt), cr_next_run_at := Some (wall nextRunAt)\<rparr>) T of
        (res, T') \<Rightarrow> (err_of res, T'))"

definition Cron_MarkSuccess :: "fault \<Rightarrow> int \<Rightarrow> cron_table \<Rightarrow> fault \<times> cron_table" where
  "Cron_MarkSuccess flt jobID T =
     (case exec_update flt (\<lambda>r. cr_id r = jobID)
             (\<lambda>r. r\<lparr>cr_status := StatusSucceeded, cr_last_error := None, cr_locked_at := None,
                    cr_locked_by := None\<rparr>) T of
        (res, T') \<Rightarrow> (err_of res, T'))"

definition Cron_MarkFailure :: "fault \<Rightarrow> int \<Rightarrow> string \<Rightarrow> cron_table \<Rightarrow> fault \<times> cron_table" where
  "Cron_MarkFailure flt jobID errMsg T =
     (case exec_update flt (\<lambda>r. cr_id r = jobID)
             (\<lambda>r. r\<lparr>cr_status := ''failed'', cr_last_error := Some errMsg\<rparr>) T of
        (res, T') \<Rightarrow> (err_of res, T'))"

definition Cron_LockJob ::
  "fault \<Rightarrow> timestamp \<Rightarrow> int \<Rightarrow> string \<Rightarrow> cron_table \<Rightarrow> bool result \<times> cron_table" where
  "Cron_LockJob flt now jobID lockedBy T =
     (case exec_update flt
             (\<lambda>r. cr_id r = jobID \<and> (cr_status r = StatusQueued \<or> cr_status r = StatusRetrying
                  \<or> cr_status r = StatusSucceeded \<or> cr_status r = StatusFailed))
             (\<lambda>r. r\<lparr>cr_locked_at := Some now, cr_locked_by := Some lockedBy, cr_status := StatusProcessing\<rparr>) T of
        (Inl e, T') \<Rightarrow> (Inl e, T')
      | (Inr affected, T') \<Rightarrow> (Inr (affected > 0), T'))"

definition UnLockJob :: "fault \<Rightarrow> int \<Rightarrow> cron_table \<Rightarrow> bool result \<times> cron_table" where
  "UnLockJob flt jobID T =
     (case exec_update flt (\<lambda>r. cr_id r = jobID)
             (\<lambda>r. r\<lparr>cr_locked_at := None, cr_locked_by := None\<rparr>) T of
        (Inl e, T') \<Rightarrow> (Inl e, T')
      | (Inr affected, T') \<Rightarrow> (Inr (affected > 0), T'))"

definition executeChangeActivateQuery :: "fault \<Rightarrow> int \<Rightarrow> bool \<Rightarrow> cron_table \<Rightarrow> fault \<times> cron_table" where
  "executeChangeActivateQuery flt jobID isActive T =
     (case exec_update flt (\<lambda>r. cr_id r = jobID) (\<lambda>r. r\<lparr>cr_is_active := isActive\<rparr>) T of
        (res, T') \<Rightarrow> (err_of res, T'))"

definition Activate :: "fault \<Rightarrow> int \<Rightarrow> cron_table \<Rightarrow> fault \<times> cron_table" where
  "Activate flt jobID T = executeChangeActivateQuery flt jobID True T"

definition DeActivate :: "fault \<Rightarrow> int \<Rightarrow> cron_table \<Rightarrow> fault \<times> cron_table" where
  "DeActivate flt jobID T = executeChangeActivateQuery flt jobID False T"

definition Cron_Close :: "fault \<Rightarrow> handle \<Rightarrow> fault \<times> handle" where
  "Cron_Close flt h = (flt, Close_handle h)"

section \<open>The invariant of the table\<close>

text \<open>Ids and names are unique, a row has a next run, and of the six statuses only four occur.\<close>

definition cron_row_ok :: "cron_row \<Rightarrow> bool" where
  "cron_row_ok r \<longleftrightarrow> cr_next_run_at r \<noteq> None
     \<and> cr_status r \<in> {StatusQueued, StatusProcessing, StatusSucceeded, StatusFailed}"

definition cron_inv :: "cron_table \<Rightarrow> bool" where
  "cron_inv T \<longleftrightarrow> keyed cr_id T \<and> distinct (map cr_name (trows T)) \<and> (\<forall>r \<in> set (trows T). cron_row_ok r)"

abbreviation cron_row_of :: "cron_table \<Rightarrow> int \<Rightarrow> cron_row option" where
  "cron_row_of \<equiv> row_by cr_id"

definition cron_status_of :: "cron_table \<Rightarrow> int \<Rightarrow> JobStatus option" where
  "cron_status_of T i = map_option cr_status (cron_row_of T i)"

lemma cron_inv_update:
  assumes "cron_inv T" "\<And>r. cr_id (f r) = cr_id r" "\<And>r. cr_name (f r) = cr_name r"
    and "\<And>r. P r \<Longrightarrow> cron_row_ok r \<Longrightarrow> cron_row_ok (f r)"
  shows "cron_inv (update_where P f T)"
proof -
  have "map cr_name (map (\<lambda>r. if P r then f r else r) (trows T)) = map cr_name (trows T)"
    using assms(3) by simp
  with assms show ?thesis by (auto simp del: map_map simp: cron_inv_def keyed_update)
qed

lemma keyed_next_id: "keyed key T \<Longrightarrow> next_id T \<le> n \<Longrightarrow> keyed key (T\<lparr>next_id := n\<rparr>)"
  by (auto simp: keyed_def)

lemma row_by_next_id [simp]: "row_by key (T\<lparr>next_id := n\<rparr>) i = row_by key T i"
  by (simp add: row_by_def)

lemma cron_inv_next_id: "cron_inv T \<Longrightarrow> next_id T \<le> n \<Longrightarrow> cron_inv (T\<lparr>next_id := n\<rparr>)"
  by (simp add: cron_inv_def keyed_next_id)

lemma snd_AddOrUpdate: "snd (AddOrUpdate flt now name sched expr args T) =
    (case Marshal_args args of
       Inl _ \<Rightarrow> T
     | Inr payload \<Rightarrow>
         (if flt \<noteq> None then T
          else if \<exists>r \<in> set (trows T). cr_name r = name
          then (update_where (\<lambda>r. cr_name r = name)
                  (\<lambda>r. r\<lparr>cr_next_run_at := Some (wall sched), cr_payload := payload,
                         cr_updated_at := now, cr_expression := expr\<rparr>) T)\<lparr>next_id := next_id T + 1\<rparr>
          else insert_row (new_cron_row now name sched payload expr) T))"
  by (auto simp: AddOrUpdate_def find_None_iff split: sum.splits option.splits dest!: find_SomeD)

lemma snd_UpdateJobRunTimes: "snd (UpdateJobRunTimes flt i l n T) =
    (if flt = None then update_where (\<lambda>r. cr_id r = i)
       (\<lambda>r. r\<lparr>cr_last_run_at := Some (wall l), cr_next_run_at := Some (wall n)\<rparr>) T else T)"
  by (simp add: UpdateJobRunTimes_def exec_update_def split: option.splits)

lemma snd_Cron_MarkSuccess: "snd (Cron_MarkSuccess flt i T) =
    (if flt = None then update_where (\<lambda>r. cr_id r = i)
       (\<lambda>r. r\<lparr>cr_status := StatusSucceeded, cr_last_error := None, cr_locked_at := None, cr_locked_by := None\<rparr>) T
     else T)"
  by (simp add: Cron_MarkSuccess_def exec_update_def split: option.splits)

lemma snd_Cron_MarkFailure: "snd (Cron_MarkFailure flt i msg T) =
    (if flt = None then update_where (\<lambda>r. cr_id r = i)
       (\<lambda>r. r\<lparr>cr_status := StatusFailed, cr_last_error := Some msg\<rparr>) T else T)"
  by (simp add: Cron_MarkFailure_def exec_update_def StatusFailed_def split: option.splits)

lemma snd_UnLockJob: "snd (UnLockJob flt i T) =
    (if flt = None then update_where (\<lambda>r. cr_id r = i) (\<lambda>r. r\<lparr>cr_locked_at := None, cr_locked_by := None\<rparr>) T else T)"
  by (simp add: UnLockJob_def exec_update_def split: option.splits)

lemma snd_Activate: "snd (executeChangeActivateQuery flt i b T) =
    (if flt = None then update_where (\<lambda>r. cr_id r = i) (\<lambda>r. r\<lparr>cr_is_active := b\<rparr>) T else T)"
  by (simp add: executeChangeActivateQuery_def exec_update_def split: option.splits)

abbreviation cron_lockable :: "JobStatus \<Rightarrow> bool" where
  "cron_lockable s \<equiv> s = StatusQueued \<or> s = StatusRetrying \<or> s = StatusSucceeded \<or> s = StatusFailed"

lemma Cron_LockJob_eq: "Cron_LockJob flt now i who T =
    (case flt of
       Some e \<Rightarrow> (Inl e, T)
     | None \<Rightarrow> (Inr (0 < rows_matching (\<lambda>r. cr_id r = i \<and> cron_lockable (cr_status r)) T),
         update_where (\<lambda>r. cr_id r = i \<and> cron_lockable (cr_status r))
           (\<lambda>r. r\<lparr>cr_locked_at := Some now, cr_locked_by := Some who, cr_status := StatusProcessing\<rparr>) T))"
  by (simp add: Cron_LockJob_def exec_update_def split: option.splits)

lemmas cron_effects = snd_AddOrUpdate snd_UpdateJobRunTimes snd_Cron_MarkSuccess snd_Cron_MarkFailure
  snd_UnLockJob snd_Activate Activate_def DeActivate_def

lemma cron_inv_insert:
  assumes "cron_inv T" "\<forall>r \<in> set (trows T). cr_name r \<noteq> name"
  shows "cron_inv (insert_row (new_cron_row now name sched payload expr) T)"
  using assms by (auto simp: cron_inv_def new_cron_row_def cron_row_ok_def intro!: keyed_insert)

lemma inv_AddOrUpdate: "cron_inv T \<Longrightarrow> cron_inv (snd (AddOrUpdate flt now name sched expr args T))"
  by (auto simp: snd_AddOrUpdate cron_row_ok_def intro!: cron_inv_update cron_inv_insert cron_inv_next_id split: sum.splits)

lemma inv_Cron_LockJob: "cron_inv T \<Longrightarrow> cron_inv (snd (Cron_LockJob flt now i who T))"
  by (cases flt) (auto simp: Cron_LockJob_eq cron_row_ok_def intro!: cron_inv_update)

section \<open>Locking\<close>

lemma Cron_LockJob_wins:
  "cron_inv T \<Longrightarrow> fst (Cron_LockJob flt now i who T) = Inr True \<longleftrightarrow>
     flt = None \<and> (\<exists>s. cron_status_of T i = Some s \<and> cron_lockable s)"
  using matching_key [of cr_id T i "\<lambda>r. cron_lockable (cr_status r)"]
  by (auto simp: Cron_LockJob_eq cron_status_of_def cron_inv_def split: option.splits)

lemma row_of_Cron_LockJob:
  assumes "cron_inv T"
  shows "cron_row_of (snd (Cron_LockJob flt now i who T)) j =
    (if fst (Cron_LockJob flt now i who T) = Inr True \<and> j = i
     then map_option (\<lambda>r. r\<lparr>cr_locked_at := Some now, cr_locked_by := Some who, cr_status := StatusProcessing\<rparr>)
            (cron_row_of T i)
     else cron_row_of T j)"
proof (cases "cron_row_of T j")
  case (Some r)
  then have "cr_id r = j" by (auto dest: row_by_Some)
  with Some assms show ?thesis
    by (auto simp: Cron_LockJob_wins cron_status_of_def) (auto simp: Cron_LockJob_eq row_by_update split: option.splits)
qed (auto simp: Cron_LockJob_eq row_by_update split: option.splits)

interpretation crn: job_lock Cron_LockJob cron_status_of cron_lockable cron_inv
proof unfold_locales
  fix T flt now i who j
  assume T: "cron_inv T"
  show "cron_status_of (snd (Cron_LockJob flt now i who T)) j =
    (if fst (Cron_LockJob flt now i who T) = Inr True \<and> j = i then Some StatusProcessing else cron_status_of T j)"
    using Cron_LockJob_wins [OF T, of flt now i who] by (auto simp: cron_status_of_def row_of_Cron_LockJob [OF T])
qed (simp_all add: Cron_LockJob_wins inv_Cron_LockJob)

section \<open>Reachable tables\<close>

inductive cron_reach :: "cron_table \<Rightarrow> bool" where
  empty: "cron_reach empty_table"
| add: "cron_reach T \<Longrightarrow> cron_reach (snd (AddOrUpdate flt now name sched expr args T))"
| times: "cron_reach T \<Longrightarrow> cron_reach (snd (UpdateJobRunTimes flt i l n T))"
| success: "cron_reach T \<Longrightarrow> cron_reach (snd (Cron_MarkSuccess flt i T))"
| failure: "cron_reach T \<Longrightarrow> cron_reach (snd (Cron_MarkFailure flt i msg T))"
| lock: "cron_reach T \<Longrightarrow> cron_reach (snd (Cron_LockJob flt now i who T))"
| unlock: "cron_reach T \<Longrightarrow> cron_reach (snd (UnLockJob flt i T))"
| activate: "cron_reach T \<Longrightarrow> cron_reach (snd (Activate flt i T))"
| deactivate: "cron_reach T \<Longrightarrow> cron_reach (snd (DeActivate flt i T))"

lemma inv_empty_cron: "cron_inv empty_table"
  by (simp add: cron_inv_def keyed_empty)

lemma cron_reach_inv: "cron_reach T \<Longrightarrow> cron_inv T"
proof (induction rule: cron_reach.induct)
  case (add T flt now name sched expr args)
  then show ?case by (simp add: inv_AddOrUpdate)
next
  case (lock T flt now i who)
  then show ?case by (simp add: inv_Cron_LockJob)
qed (auto simp: cron_effects inv_empty_cron cron_row_ok_def intro!: cron_inv_update)

section \<open>The schedule\<close>

text \<open>What the store promises its callers: a schedule, a map from names to what is to be run and when.\<close>

type_synonym schedule = "string \<rightharpoonup> string \<times> json \<times> int option"

definition named :: "cron_table \<Rightarrow> string \<Rightarrow> cron_row option" where
  "named T name = find (\<lambda>r. cr_name r = name) (trows T)"

definition schedule_of :: "cron_table \<Rightarrow> schedule" where
  "schedule_of T name = map_option (\<lambda>r. (cr_expression r, cr_payload r, cr_next_run_at r)) (named T name)"

definition put :: "string \<Rightarrow> gotime \<Rightarrow> string \<Rightarrow> json \<Rightarrow> schedule \<Rightarrow> schedule" where
  "put name sched expr payload m = m(name \<mapsto> (expr, payload, Some (wall sched)))"

text \<open>The rest of a row: its id, its execution, its activation.\<close>

definition run_state :: "cron_row \<Rightarrow> int \<times> JobStatus \<times> string option \<times> string option \<times> timestamp option \<times> int option \<times> bool" where
  "run_state r = (cr_id r, cr_status r, cr_last_error r, cr_locked_by r, cr_locked_at r, cr_last_run_at r, cr_is_active r)"

lemma named_update:
  assumes "\<And>r. cr_name (f r) = cr_name r"
  shows "named (update_where P f T) name = map_option (\<lambda>r. if P r then f r else r) (named T name)"
proof -
  have "find (\<lambda>r. cr_name r = name) (map (\<lambda>r. if P r then f r else r) rs) =
      map_option (\<lambda>r. if P r then f r else r) (find (\<lambda>r. cr_name r = name) rs)" for rs
    using assms by (induction rs) auto
  then show ?thesis by (simp add: named_def)
qed

lemma named_next_id [simp]: "named (T\<lparr>next_id := n\<rparr>) name = named T name"
  by (simp add: named_def)

lemma named_insert: "named (insert_row r T) name =
    (case named T name of Some r' \<Rightarrow> Some r'
     | None \<Rightarrow> if cr_name (r (next_id T)) = name then Some (r (next_id T)) else None)"
  by (simp add: named_def find_append split: option.splits)

lemma named_Some: "named T name = Some r \<Longrightarrow> r \<in> set (trows T) \<and> cr_name r = name"
  by (auto simp: named_def dest: find_SomeD)

lemma named_other: "other \<noteq> name \<Longrightarrow> map_option (\<lambda>r. if cr_name r = name then f r else r) (named T other) = named T other"
  by (cases "named T other") (auto dest: named_Some)

lemma AddOrUpdate_named:
  assumes "Marshal_args args = Inr payload"
  shows "AddOrUpdate None now name sched expr args T =
    (case named T name of
       None \<Rightarrow> ((next_id T, None), insert_row (new_cron_row now name sched payload expr) T)
     | Some r \<Rightarrow> ((cr_id r, None), (update_where (\<lambda>r. cr_name r = name)
          (\<lambda>r. r\<lparr>cr_next_run_at := Some (wall sched), cr_payload := payload,
                 cr_updated_at := now, cr_expression := expr\<rparr>) T)\<lparr>next_id := next_id T + 1\<rparr>))"
  using assms by (simp add: AddOrUpdate_def named_def)

lemma AddOrUpdate_effect:
  assumes "cron_inv T" "Marshal_args args = Inr payload"
  shows "case AddOrUpdate None now name sched expr args T of ((i, err), T') \<Rightarrow>
    err = None \<and> schedule_of T' = put name sched expr payload (schedule_of T)
    \<and> (\<forall>other. other \<noteq> name \<longrightarrow> named T' other = named T other)
    \<and> map_option run_state (named T' name) =
        (case named T name of
           Some r \<Rightarrow> Some (run_state r)
         | None \<Rightarrow> Some (i, StatusQueued, None, None, None, None, True))
    \<and> map_option cr_id (named T' name) = Some i
    \<and> (named T name = None \<longrightarrow> cron_row_of T i = None)"
proof (cases "named T name")
  case None
  have "cron_row_of T (next_id T) = None"
    using assms(1) by (auto simp: cron_inv_def keyed_def row_by_None)
  with None show ?thesis
    by (auto simp: AddOrUpdate_named [OF assms(2)] schedule_of_def put_def named_insert new_cron_row_def run_state_def
        fun_eq_iff split: option.splits)
next
  case (Some r)
  then have "cr_name r = name" by (auto dest: named_Some)
  with Some show ?thesis
    by (simp add: AddOrUpdate_named [OF assms(2)] schedule_of_def put_def named_update named_other run_state_def fun_eq_iff)
qed

section \<open>Properties\<close>

text \<open>(C21) Adding or updating a cron job implements an update of the schedule: for a table with any
  history the call puts the name with its expression, arguments and next run into the schedule, the other
  names keep theirs, a name that was there keeps its id, status, lock and activation, and a new
  name starts out queued and active under a fresh id.\<close>

theorem AddOrUpdate_refines:
  assumes "cron_reach T" "Marshal_args args = Inr payload"
  shows "case AddOrUpdate None now name sched expr args T of ((i, err), T') \<Rightarrow>
    err = None \<and> schedule_of T' = put name sched expr payload (schedule_of T)
    \<and> (\<forall>other. other \<noteq> name \<longrightarrow> named T' other = named T other)
    \<and> map_option run_state (named T' name) =
        (case named T name of
           Some r \<Rightarrow> Some (run_state r)
         | None \<Rightarrow> Some (i, StatusQueued, None, None, None, None, True))
    \<and> map_option cr_id (named T' name) = Some i
    \<and> (named T name = None \<longrightarrow> cron_row_of T i = None)"
  using AddOrUpdate_effect [OF cron_reach_inv [OF assms(1)] assms(2)] .

theorem AddOrUpdate_refines_witness:
  "case AddOrUpdate None 7 ''report'' \<lparr>instant = 90, zone = 0\<rparr> ''0 0 * * *'' [AnyBool True]
      (snd (AddOrUpdate None 5 ''report'' \<lparr>instant = 60, zone = 0\<rparr> ''* * * * *'' [] empty_table)) of ((i, err), T') \<Rightarrow>
    err = None \<and> i = 1 \<and> schedule_of T' = [''report'' \<mapsto> (''0 0 * * *'', JArray [JBool True], Some 90)]"
proof -
  let ?T = "snd (AddOrUpdate None 5 ''report'' \<lparr>instant = 60, zone = 0\<rparr> ''* * * * *'' [] empty_table)"
  have "cron_reach ?T" by (intro cron_reach.intros)
  moreover have "schedule_of ?T = [''report'' \<mapsto> (''* * * * *'', JNull, Some 60)]" "map_option cr_id (named ?T ''report'') = Some 1"
    by (auto simp: schedule_of_def AddOrUpdate_def Marshal_args_def named_def new_cron_row_def wall_def fun_eq_iff)
  ultimately show ?thesis
    using AddOrUpdate_refines [of ?T "[AnyBool True]" "JArray [JBool True]", where now = 7 and name = "''report''"
        and sched = "\<lparr>instant = 90, zone = 0\<rparr>" and expr = "''0 0 * * *''"]
    by (auto simp: Marshal_args_def put_def wall_def run_state_def split: prod.splits)
qed

text \<open>The pages of a query, as in the other store.\<close>

definition cron_job_of :: "cron_row \<Rightarrow> CronJob" where
  "cron_job_of r =
     \<lparr>cj_ID = cr_id r, cj_Name = cr_name r, cj_Payload = cr_payload r, cj_Status = cr_status r,
      cj_LastError = cr_last_error r, cj_LockedBy = cr_locked_by r, cj_LockedAt = cr_locked_at r,
      cj_CreatedAt = cr_created_at r, cj_LastRunAt = cr_last_run_at r, cj_NextRunAt = the (cr_next_run_at r),
      cj_IsActive = cr_is_active r, cj_Expression = cr_expression r\<rparr>"

lemma oks_scan_cron_row:
  "\<forall>r \<in> set rs. cr_next_run_at r \<noteq> None \<Longrightarrow> oks (map scan_cron_row rs) = map cron_job_of rs"
  by (induction rs) (auto simp: scan_cron_row_def cron_job_of_def)

lemma set_oks: "set (oks rs) = {x. Inr x \<in> set rs}"
  by (induction rs rule: oks.induct) auto

lemma cron_page_member:
  assumes "cron_page flt1 flt2 page pageSize P order T = Inr p" "job \<in> set (Items p)" "\<And>rs. set (order rs) = set rs"
  shows "\<exists>r \<in> set (select_where P T). scan_cron_row r = Inr job"
proof -
  from assms(1) obtain n m where "Items p = oks (map scan_cron_row (take n (drop m (order (select_where P T)))))"
    by (auto simp: cron_page_def Let_def limit_offset_def collect_query split: option.splits if_splits)
  with assms(2) obtain r where "scan_cron_row r = Inr job" "r \<in> set (take n (drop m (order (select_where P T))))"
    by (auto simp: set_oks image_iff)
  then have "r \<in> set (order (select_where P T))" by (meson in_set_dropD in_set_takeD)
  with \<open>scan_cron_row r = Inr job\<close> assms(3) show ?thesis by auto
qed

lemma cron_page_items:
  assumes "cron_inv T" "0 < pageSize" "0 \<le> wrap64 ((page - 1) * pageSize)" "\<And>rs. set (order rs) = set rs"
  shows "\<exists>p. cron_page None None page pageSize P order T = Inr p \<and>
    Items p = map cron_job_of (take (nat pageSize) (drop (nat (wrap64 ((page - 1) * pageSize))) (order (select_where P T))))
    \<and> HasNextPage p = (page < total_pages (rows_matching P T) pageSize)"
proof -
  have "\<forall>r \<in> set (order (select_where P T)). cr_next_run_at r \<noteq> None"
    using assms(1,4) by (auto simp: cron_inv_def cron_row_ok_def select_where_def)
  then have "\<forall>r \<in> set (take n (drop m (order (select_where P T)))). cr_next_run_at r \<noteq> None" for n m
    by (meson in_set_dropD in_set_takeD)
  with assms(2,3) show ?thesis
    by (simp add: cron_page_def Let_def limit_offset_def collect_query oks_scan_cron_row)
qed

lemma cron_pages_all:
  assumes "cron_inv T" "0 < pageSize" "int (length (trows T)) \<le> max_int"
    and "\<And>rs. set (order rs) = set rs" "\<And>rs. length (order rs) = length rs"
  shows "concat (map (\<lambda>page. case cron_page None None page pageSize P order T of Inr p \<Rightarrow> Items p | Inl _ \<Rightarrow> [])
      [1..total_pages (rows_matching P T) pageSize]) = map cron_job_of (order (select_where P T))"
proof -
  let ?xs = "order (select_where P T)"
  have len: "rows_matching P T = int (length ?xs)" by (simp add: rows_matching_def assms(5))
  have le: "length ?xs \<le> length (trows T)" by (simp add: assms(5) select_where_def)
  have off: "0 \<le> wrap64 ((page - 1) * pageSize)"
    if "1 \<le> page" "page \<le> total_pages (int (length ?xs)) pageSize" for page
    using page_offset [OF assms(2) that] le assms(3) by simp
  have "(case cron_page None None page pageSize P order T of Inr p \<Rightarrow> Items p | Inl _ \<Rightarrow> []) =
      map cron_job_of (take (nat pageSize) (drop (nat (wrap64 ((page - 1) * pageSize))) ?xs))"
    if "1 \<le> page" "page \<le> total_pages (int (length ?xs)) pageSize" for page
    using cron_page_items [where P = P and order = order, OF assms(1,2) off [OF that] assms(4)] by auto
  then show ?thesis unfolding len using assms(2,3) le by (intro pages_concat) auto
qed

text \<open>(C30) Which cron jobs are handed to the workers: on the pages of due jobs of a table with any history are exactly the
  rows that are active with a next run that has come, in the time zone of the database, and besides them
  every queued row, whatever its next run and its activation, and the rows locked for more than an hour. The
  rows may come in any order that sorts them by their next run, the same for all pages.\<close>

theorem FetchDueCronJobs_due:
  assumes "cron_reach T" "r \<in> set (trows T)" "0 < pageSize" "int (length (trows T)) \<le> max_int"
    and srt: "orders_by cr_next_run_at srt"
  shows "(\<exists>page p. FetchDueCronJobs None None srt tz now page pageSize T = Inr p \<and> cron_job_of r \<in> set (Items p)) \<longleftrightarrow>
    cr_is_active r \<and> the (cr_next_run_at r) \<le> now + tz * second_ns
    \<or> cr_status r = StatusQueued
    \<or> cr_status r = StatusProcessing \<and> (\<exists>l. cr_locked_at r = Some l \<and> l < now - 60 * minute_ns)"
    (is "?fetched \<longleftrightarrow> ?due")
proof -
  let ?P = "cron_due_where tz now" and ?order = srt
  note srt_simps = orders_by_simps [OF srt]
  have inv: "cron_inv T" by (rule cron_reach_inv [OF assms(1)])
  have r: "cron_row_ok r" using inv assms(2) by (simp add: cron_inv_def)
  have "?due \<longleftrightarrow> ?P r"
    using r by (auto simp: cron_due_where_def cron_row_ok_def status_defs split: option.splits)
  also have "\<dots> \<longleftrightarrow> ?fetched"
  proof
    assume "?P r"
    define F where "F = (\<lambda>page. case cron_page None None page pageSize ?P ?order T of Inr p \<Rightarrow> Items p | Inl _ \<Rightarrow> [])"
    have "cron_job_of r \<in> set (map cron_job_of (?order (select_where ?P T)))"
      using \<open>?P r\<close> assms(2) by (simp add: select_where_def srt_simps)
    also have "\<dots> = set (concat (map F [1..total_pages (rows_matching ?P T) pageSize]))"
      unfolding F_def by (subst cron_pages_all [OF inv assms(3,4) srt_simps]) simp_all
    finally obtain page where page: "1 \<le> page" "cron_job_of r \<in> set (F page)" by auto
    then obtain p where "cron_page None None page pageSize ?P ?order T = Inr p" "cron_job_of r \<in> set (Items p)"
      by (cases "cron_page None None page pageSize ?P ?order T") (auto simp: F_def)
    moreover have "FetchDueCronJobs None None srt tz now page pageSize T = cron_page None None page pageSize ?P ?order T"
      using page(1) by (simp add: FetchDueCronJobs_def)
    ultimately show ?fetched by auto
  next
    assume ?fetched
    then obtain r' where r': "r' \<in> set (select_where ?P T)" "scan_cron_row r' = Inr (cron_job_of r)"
      unfolding FetchDueCronJobs_def by (blast dest: cron_page_member [OF _ _ srt_simps(1)])
    then have "cr_id r' = cr_id r" by (auto simp: scan_cron_row_def cron_job_of_def split: option.splits)
    then have "r' = r" using inv r'(1) assms(2) row_by_mem [of cr_id T r] row_by_mem [of cr_id T r']
      by (auto simp: cron_inv_def select_where_def)
    with r'(1) show "?P r" by (simp add: select_where_def)
  qed
  finally show ?thesis by blast
qed

theorem FetchDueCronJobs_due_witness:
  "\<exists>page p. FetchDueCronJobs None None (sort_key cr_next_run_at) 0 10 page 5 (snd (DeActivate None 1
      (snd (AddOrUpdate None 5 ''report'' \<lparr>instant = 999, zone = 0\<rparr> ''* * * * *'' [] empty_table)))) = Inr p
    \<and> cron_job_of ((new_cron_row 5 ''report'' \<lparr>instant = 999, zone = 0\<rparr> JNull ''* * * * *'' 1)\<lparr>cr_is_active := False\<rparr>) \<in> set (Items p)"
proof (subst FetchDueCronJobs_due [OF _ _ _ _ orders_by_sort_key])
  show "cron_reach (snd (DeActivate None 1
      (snd (AddOrUpdate None 5 ''report'' \<lparr>instant = 999, zone = 0\<rparr> ''* * * * *'' [] empty_table))))"
    by (intro cron_reach.intros)
qed (auto simp: cron_effects Marshal_args_def max_int_def new_cron_row_def)

end
