(* ===== verification/WebRoutes.thy ===== *)
theory WebRoutes
  imports WebAuth UserStore EnqueuedStore CronStore
begin

text \<open>
  The dashboard's server (\<^verbatim>\<open>web/route_handler.go\<close>, \<^verbatim>\<open>web/auth_middleware.go\<close>, \<^verbatim>\<open>render\<close> of
  \<^verbatim>\<open>web/template_renderer.go\<close>). A handler works on a response writer and on the three tables; the
  middleware wraps it. Bodies of requests are URL-encoded forms, paths are clean (the multiplexer of
  \<^verbatim>\<open>net/http\<close> redirects others), and a request carries one header \<^verbatim>\<open>Cookie\<close>. What a template or the file
  server puts out is represented by the template with its data, or the path of the file.
\<close>

section \<open>Requests and responses\<close>

record request =
  rq_method :: string
  rq_path :: string
  rq_query :: string
  rq_body :: string
  rq_cookie :: string

record set_cookie =
  sc_name :: string
  sc_value :: string
  sc_path :: string
  sc_maxage :: int
  sc_httponly :: bool

datatype body =
    ErrorText string
  | Link string
  | LoginPage
  | ChartsPage
  | EnqueuedPage "EnqueuedJob DataMap"
  | CronPage "CronJob DataMap"
  | Counts "JobStatus \<rightharpoonup> int" "JobStatus \<rightharpoonup> int"
  | StaticFile string

text \<open>The headers set so far, what was sent with the status (once), and the body.\<close>

record writer =
  w_cookies :: "set_cookie list"
  w_location :: "string option"
  w_sent :: "(int \<times> set_cookie list \<times> string option) option"
  w_body :: "body list"

definition new_writer :: writer where
  "new_writer = \<lparr>w_cookies = [], w_location = None, w_sent = None, w_body = []\<rparr>"

definition WriteHeader :: "int \<Rightarrow> writer \<Rightarrow> writer" where
  "WriteHeader code w =
     (case w_sent w of None \<Rightarrow> w\<lparr>w_sent := Some (code, w_cookies w, w_location w)\<rparr> | Some _ \<Rightarrow> w)"

definition Write :: "body \<Rightarrow> writer \<Rightarrow> writer" where
  "Write b w = (let w = WriteHeader 200 w in w\<lparr>w_body := w_body w @ [b]\<rparr>)"

definition http_SetCookie :: "set_cookie \<Rightarrow> writer \<Rightarrow> writer" where
  "http_SetCookie c w = w\<lparr>w_cookies := w_cookies w @ [c\<lparr>sc_value := sanitizeCookieValue (sc_value c)\<rparr>]\<rparr>"

definition http_Error :: "string \<Rightarrow> int \<Rightarrow> writer \<Rightarrow> writer" where
  "http_Error msg code w = Write (ErrorText msg) (WriteHeader code w)"

text \<open>A target without a leading slash is relative to the directory of the request's path.\<close>

definition dir_of :: "string \<Rightarrow> string" where
  "dir_of p = rev (dropWhile (\<lambda>c. c \<noteq> CHR ''/'') (rev p))"

definition redirect_target :: "request \<Rightarrow> string \<Rightarrow> string" where
  "redirect_target r url = (if HasPrefix url ''/'' then url else dir_of (rq_path r) @ url)"

definition http_Redirect :: "request \<Rightarrow> string \<Rightarrow> int \<Rightarrow> writer \<Rightarrow> writer" where
  "http_Redirect r url code w =
     (let target = redirect_target r url;
          w = WriteHeader code (w\<lparr>w_location := Some target\<rparr>)
      in if rq_method r = ''GET'' then Write (Link target) w else w)"

section \<open>Forms\<close>

definition has_body :: "request \<Rightarrow> bool" where
  "has_body r \<longleftrightarrow> rq_method r \<in> {''POST'', ''PUT'', ''PATCH''}"

text \<open>\<^verbatim>\<open>ParseForm\<close> reports a piece that cannot be decoded.\<close>

definition form_error :: "string \<Rightarrow> bool" where
  "form_error q \<longleftrightarrow> list_ex (\<lambda>piece. piece \<noteq> [] \<and> query_pair piece = None) (Split q ''&'')"

definition ParseForm_fails :: "request \<Rightarrow> bool" where
  "ParseForm_fails r \<longleftrightarrow> has_body r \<and> form_error (rq_body r) \<or> form_error (rq_query r)"

definition FormValue :: "request \<Rightarrow> string \<Rightarrow> string" where
  "FormValue r key =
     Query_Get ((if has_body r then ParseQuery (rq_body r) else []) @ ParseQuery (rq_query r)) key"

definition URL_Query_Get :: "request \<Rightarrow> string \<Rightarrow> string" where
  "URL_Query_Get r key = Query_Get (ParseQuery (rq_query r)) key"

section \<open>The handlers\<close>

record database =
  db_jobs :: enqueued_table
  db_crons :: cron_table
  db_users :: user_table

text \<open>The route handler and its surroundings: the secret key and the switch, the value of \<^verbatim>\<open>NOW()\<close>, the
  failures of the statements of a request in their order, the orders the server gives the rows of its two listings, and
  the comparison of bcrypt.\<close>

record dashboard =
  SecretKey :: string
  UseAuth :: bool
  dash_now :: timestamp
  dash_fault :: "nat \<Rightarrow> fault"
  dash_order :: "enqueued_row row_order"
  dash_cron_order :: "cron_row row_order"
  dash_bcrypt :: "string \<Rightarrow> string \<Rightarrow> bool"

type_synonym handler = "dashboard \<Rightarrow> request \<Rightarrow> writer \<Rightarrow> database \<Rightarrow> writer \<times> database"

definition PageSize15 :: int where "PageSize15 = 15"

definition message_cookie :: "string \<Rightarrow> string \<Rightarrow> set_cookie" where
  "message_cookie name message =
     \<lparr>sc_name = name, sc_value = QueryEscape message, sc_path = ''/'', sc_maxage = 5, sc_httponly = False\<rparr>"

definition authMiddleware :: "handler \<Rightarrow> handler" where
  "authMiddleware h d r w db =
     (if UseAuth d then
        (if \<not> isAuthenticated (rq_cookie r) (SecretKey d) then (http_Redirect r ''/login'' 303 w, db)
         else h d r w db)
      else h d r w db)"

text \<open>The error, or the writer after the redirect; the request goes on either way.\<close>

definition handleDashboardAction ::
  "dashboard \<Rightarrow> request \<Rightarrow> writer \<Rightarrow> database \<Rightarrow> fault \<times> writer \<times> database" where
  "handleDashboardAction d r w db =
     (let action = TrimSpace (FormValue r ''action'');
          done = http_Redirect r ''/enqueued'' 303
                   (http_SetCookie (message_cookie ''flash'' ''Job removed successfully!'') w)
      in if action = [] then (None, w, db)
         else if action = ''remove''
         then (case ParseInt (FormValue r ''id'') of
                 None \<Rightarrow> (Some ''invalid job id'', w, db)
               | Some jobID \<Rightarrow>
                   (case RemoveByID (dash_fault d 0) jobID (db_jobs db) of
                      (Some e, T') \<Rightarrow> (Some (''failed to remove job: '' @ e), w, db\<lparr>db_jobs := T'\<rparr>)
                    | (None, T') \<Rightarrow> (None, done, db\<lparr>db_jobs := T'\<rparr>)))
         else (None, done, db))"

definition counts_or_nil :: "(JobStatus \<rightharpoonup> int) result \<Rightarrow> (JobStatus \<rightharpoonup> int)" where
  "counts_or_nil res = (case res of Inl _ \<Rightarrow> Map.empty | Inr m \<Rightarrow> m)"

definition handleEnqueued :: handler where
  "handleEnqueued d r w db =
     (let pageNumber = getPageNumber (rq_query r);
          status = TrimSpace (URL_Query_Get r ''status'')
      in case handleDashboardAction d r w db of
           (Some e, w, db) \<Rightarrow> (http_Error e 400 w, db)
         | (None, w, db) \<Rightarrow>
             (let statuses = (if status \<noteq> [] then [status] else []) in
              case FetchDueJobs (dash_fault d 1) (dash_fault d 2) (dash_order d) (dash_now d) pageNumber PageSize15 statuses None (db_jobs db) of
                Inl _ \<Rightarrow> (http_Error ''Failed to fetch jobs'' 500 w, db)
              | Inr jobs \<Rightarrow>
                  (let n = counts_or_nil (CountAllJobsGroupedByStatus (dash_fault d 3) (db_jobs db));
                       data = DataMap_Add (DataMap_Add (DataMap_Add (NewPaginatedDataMap jobs)
                                ''Statuses'' (VStatuses AllStatuses)) ''CurrentStatus'' (VStatus status))
                                ''JobsCount'' (VCounts n)
                   in (Write (EnqueuedPage data) w, db))))"

definition handleCronJobs :: handler where
  "handleCronJobs d r w db =
     (let pageNumber = getPageNumber (rq_query r);
          status = TrimSpace (URL_Query_Get r ''status'')
      in case Cron_GetAll (dash_fault d 0) (dash_fault d 1) (dash_cron_order d) pageNumber PageSize15 status (db_crons db) of
           Inl _ \<Rightarrow> (http_Error ''Failed to fetch jobs'' 500 w, db)
         | Inr jobs \<Rightarrow>
             (let n = counts_or_nil (Cron_CountAllJobsGroupedByStatus (dash_fault d 2) (db_crons db));
                  data = DataMap_Add (DataMap_Add (DataMap_Add (NewPaginatedDataMap jobs)
                           ''Statuses'' (VStatuses AllStatuses)) ''CurrentStatus'' (VStatus status))
                           ''JobsCount'' (VCounts n)
              in (Write (CronPage data) w, db)))"

definition handleChangeCronJobStatus :: handler where
  "handleChangeCronJobStatus d r w db =
     (if rq_method r \<noteq> ''POST'' then (http_Error ''Method Not Allowed'' 405 w, db)
      else if ParseForm_fails r then (http_Error ''Bad Request'' 400 w, db)
      else let action = FormValue r ''action'';
               idStr = FormValue r ''id''
           in if idStr = [] \<or> action \<noteq> ''activate'' \<and> action \<noteq> ''deactivate''
              then (http_Error ''Invalid Parameters'' 400 w, db)
              else case ParseInt idStr of
                     None \<Rightarrow> (http_Error ''Invalid ID'' 400 w, db)
                   | Some i \<Rightarrow>
                       (let (message, T') =
                          (if action = ''activate''
                           then (''Job activated successfully!'', snd (Activate (dash_fault d 0) i (db_crons db)))
                           else (''Job deactivated successfully!'', snd (DeActivate (dash_fault d 0) i (db_crons db))))
                        in (http_Redirect r ''/cron-jobs'' 303 (http_SetCookie (message_cookie ''flash'' message) w),
                            db\<lparr>db_crons := T'\<rparr>)))"

definition handleCharts :: handler where
  "handleCharts d r w db =
     (if URL_Query_Get r ''loadCharts'' \<noteq> []
      then (case CountAllJobsGroupedByStatus (dash_fault d 0) (db_jobs db) of
              Inl _ \<Rightarrow> (http_Error ''Failed to get enqueued jobs'' 500 w, db)
            | Inr enqueuedJobs \<Rightarrow>
                (case Cron_CountAllJobsGroupedByStatus (dash_fault d 1) (db_crons db) of
                   Inl _ \<Rightarrow> (http_Error ''Failed to get cron jobs'' 500 w, db)
                 | Inr cronJobs \<Rightarrow> (Write (Counts enqueuedJobs cronJobs) (WriteHeader 200 w), db)))
      else (Write ChartsPage w, db))"

definition handleIndex :: handler where
  "handleIndex d r w db =
     (if isAuthenticated (rq_cookie r) (SecretKey d) then (http_Redirect r ''charts'' 303 w, db)
      else (http_Redirect r ''login'' 303 w, db))"

text \<open>After an error the code goes on with a user that is nil.\<close>

definition handleLogin :: handler where
  "handleLogin d r w db =
     (if rq_method r = ''GET'' then (Write LoginPage w, db)
      else if rq_method r = ''POST''
      then let username = FormValue r ''username'';
               password = FormValue r ''password'';
               refuse = (\<lambda>w. http_Redirect r ''/login'' 303
                          (http_SetCookie (message_cookie ''warning'' ''invalid username or password'') w))
           in case Find (dash_fault d 0) (dash_bcrypt d) username password (db_users db) of
                Inl e \<Rightarrow> (refuse (refuse w), db)
              | Inr (Some user) \<Rightarrow>
                  (http_Redirect r ''/charts'' 303 (http_SetCookie
                     \<lparr>sc_name = ''auth'', sc_value = generateAuthToken username (SecretKey d), sc_path = ''/'',
                      sc_maxage = 3600, sc_httponly = True\<rparr> w), db)
              | Inr None \<Rightarrow> (refuse w, db)
      else (http_Error ''Method Not Allowed'' 405 w, db))"

definition handleLogout :: handler where
  "handleLogout d r w db =
     (http_Redirect r ''/login'' 303 (http_SetCookie
        \<lparr>sc_name = ''auth'', sc_value = [], sc_path = ''/'', sc_maxage = -1, sc_httponly = False\<rparr> w), db)"

text \<open>The routes \<^verbatim>\<open>Serve\<close> registers; the pattern of the index matches every other path.\<close>

definition Serve :: "dashboard \<Rightarrow> request \<Rightarrow> database \<Rightarrow> writer \<times> database" where
  "Serve d r db =
     (let p = rq_path r; w = new_writer in
      if p = ''/enqueued'' then authMiddleware handleEnqueued d r w db
      else if p = ''/cron-jobs'' then authMiddleware handleCronJobs d r w db
      else if p = ''/change-cron-job-status'' then authMiddleware handleChangeCronJobStatus d r w db
      else if p = ''/charts'' then authMiddleware handleCharts d r w db
      else if p = ''/login'' then handleLogin d r w db
      else if p = ''/Logout'' then handleLogout d r w db
      else if HasPrefix p ''/static/'' then (Write (StaticFile (drop 8 p)) w, db)
      else authMiddleware handleIndex d r w db)"

section \<open>What a request can do\<close>

lemmas writer_defs = http_Redirect_def http_Error_def http_SetCookie_def Write_def WriteHeader_def new_writer_def Let_def

text \<open>Bodies anyone may see.\<close>

fun public_body :: "body \<Rightarrow> bool" where
  "public_body (ErrorText _) = True"
| "public_body (Link _) = True"
| "public_body LoginPage = True"
| "public_body (StaticFile _) = True"
| "public_body _ = False"

definition guarded_path :: "string \<Rightarrow> bool" where
  "guarded_path p \<longleftrightarrow> p \<noteq> ''/login'' \<and> p \<noteq> ''/Logout'' \<and> \<not> HasPrefix p ''/static/''"

lemma Redirect_simps:
  "w_sent w = None \<Longrightarrow> HasPrefix url ''/'' \<Longrightarrow> w_sent (http_Redirect r url code w) = Some (code, w_cookies w, Some url)"
  "w_body (http_Redirect r url code w) = w_body w @ (if rq_method r = ''GET'' then [Link (redirect_target r url)] else [])"
  "w_sent w = Some x \<Longrightarrow> w_sent (http_Redirect r url code w) = Some x"
  by (auto simp: writer_defs redirect_target_def split: option.splits)

lemma Write_simps:
  "w_sent w = Some x \<Longrightarrow> w_sent (Write b w) = Some x"
  "w_body (Write b w) = w_body w @ [b]"
  "w_body (http_Error msg code w) = w_body w @ [ErrorText msg]"
  "w_body (http_SetCookie c w) = w_body w" "w_sent (http_SetCookie c w) = w_sent w"
  "w_cookies (http_SetCookie c w) = w_cookies w @ [c\<lparr>sc_value := sanitizeCookieValue (sc_value c)\<rparr>]"
  "w_body new_writer = []" "w_sent new_writer = None" "w_cookies new_writer = []"
  by (auto simp: writer_defs split: option.splits)

lemma login_public:
  "snd (handleLogin d r new_writer db) = db" "\<forall>b \<in> set (w_body (fst (handleLogin d r new_writer db))). public_body b"
  by (auto simp: handleLogin_def Let_def Redirect_simps Write_simps split: sum.splits option.splits)

lemma Serve_guarded:
  assumes "UseAuth d" "\<not> isAuthenticated (rq_cookie r) (SecretKey d)" "guarded_path (rq_path r)"
  shows "Serve d r db = (http_Redirect r ''/login'' 303 new_writer, db)"
  using assms by (simp add: Serve_def Let_def authMiddleware_def guarded_path_def)

text \<open>The changes the handlers can make.\<close>

lemma handleDashboardAction_db:
  "snd (snd (handleDashboardAction d r w db)) = db \<or>
   (\<exists>i. ParseInt (FormValue r ''id'') = Some i \<and>
     snd (snd (handleDashboardAction d r w db)) = db\<lparr>db_jobs := snd (RemoveByID (dash_fault d 0) i (db_jobs db))\<rparr>)"
  by (auto simp: handleDashboardAction_def Let_def split: option.splits prod.splits)

lemma handleEnqueued_db: "snd (handleEnqueued d r w db) = snd (snd (handleDashboardAction d r w db))"
  by (auto simp: handleEnqueued_def Let_def split: option.splits prod.splits sum.splits)

lemma read_only:
  "snd (handleCronJobs d r w db) = db" "snd (handleCharts d r w db) = db" "snd (handleIndex d r w db) = db"
  "snd (handleLogout d r w db) = db"
  by (auto simp: handleCronJobs_def handleCharts_def handleIndex_def handleLogout_def Let_def split: sum.splits)

lemma handleChangeCronJobStatus_db:
  "snd (handleChangeCronJobStatus d r w db) = db \<or>
   rq_method r = ''POST'' \<and> (\<exists>i active. ParseInt (FormValue r ''id'') = Some i \<and>
     snd (handleChangeCronJobStatus d r w db) =
       db\<lparr>db_crons := snd (executeChangeActivateQuery (dash_fault d 0) i active (db_crons db))\<rparr>)"
  by (auto simp: handleChangeCronJobStatus_def Let_def Activate_def DeActivate_def split: option.splits)

lemma authMiddleware_db: "snd (authMiddleware h d r w db) = db \<or> snd (authMiddleware h d r w db) = snd (h d r w db)"
  by (simp add: authMiddleware_def)

lemma Serve_enqueued: "rq_path r = ''/enqueued'' \<Longrightarrow> Serve d r db = authMiddleware handleEnqueued d r new_writer db"
  by (simp add: Serve_def)

lemma Serve_change: "rq_path r = ''/change-cron-job-status'' \<Longrightarrow>
    Serve d r db = authMiddleware handleChangeCronJobStatus d r new_writer db"
  by (simp add: Serve_def)

lemma Serve_other:
  assumes "rq_path r \<noteq> ''/enqueued''" "rq_path r \<noteq> ''/change-cron-job-status''"
  shows "snd (Serve d r db) = db"
  using assms by (auto simp: Serve_def Let_def authMiddleware_def read_only login_public)

lemma Serve_changes:
  "snd (Serve d r db) = db
   \<or> (\<exists>i. rq_path r = ''/enqueued'' \<and>
        snd (Serve d r db) = db\<lparr>db_jobs := snd (RemoveByID (dash_fault d 0) i (db_jobs db))\<rparr>)
   \<or> (\<exists>i active. rq_path r = ''/change-cron-job-status'' \<and> rq_method r = ''POST'' \<and>
        snd (Serve d r db) = db\<lparr>db_crons := snd (executeChangeActivateQuery (dash_fault d 0) i active (db_crons db))\<rparr>)"
proof -
  consider "rq_path r = ''/enqueued''" | "rq_path r = ''/change-cron-job-status''"
    | "rq_path r \<noteq> ''/enqueued''" "rq_path r \<noteq> ''/change-cron-job-status''" by blast
  then show ?thesis
  proof cases
    case 1
    then show ?thesis using authMiddleware_db [of handleEnqueued d r new_writer db] handleDashboardAction_db [of d r new_writer db]
      unfolding Serve_enqueued [OF 1] handleEnqueued_db by metis
  next
    case 2
    then show ?thesis
      using authMiddleware_db [of handleChangeCronJobStatus d r new_writer db] handleChangeCronJobStatus_db [of d r new_writer db]
      unfolding Serve_change [OF 2] by metis
  next
    case 3
    then show ?thesis using Serve_other by blast
  qed
qed

lemma Serve_public:
  assumes "UseAuth d" "\<not> isAuthenticated (rq_cookie r) (SecretKey d)"
  shows "snd (Serve d r db) = db \<and> (\<forall>b \<in> set (w_body (fst (Serve d r db))). public_body b)
    \<and> (guarded_path (rq_path r) \<longrightarrow> w_sent (fst (Serve d r db)) = Some (303, [], Some ''/login''))"
proof (cases "guarded_path (rq_path r)")
  case True
  then show ?thesis using Serve_guarded [OF assms True, of db] by (simp add: Redirect_simps Write_simps)
next
  case False
  then show ?thesis using login_public
    by (auto simp: guarded_path_def Serve_def Let_def HasPrefix_def handleLogout_def Redirect_simps Write_simps)
qed

text \<open>(C12) With authentication on, a request without a valid cookie reads and changes nothing: the
  three tables stay as they are, nothing of them is in the response, and every path but those of
  the login, the logout and the static files is answered with a redirect to the login. Whoever
  sends it, a request changes the tables in two ways at most: it removes one enqueued job, or a
  \<^verbatim>\<open>POST\<close> switches one cron job on or off.\<close>

theorem dashboard_guarded:
  "(UseAuth d \<and> \<not> isAuthenticated (rq_cookie r) (SecretKey d) \<longrightarrow>
      snd (Serve d r db) = db \<and> (\<forall>b \<in> set (w_body (fst (Serve d r db))). public_body b)
      \<and> (guarded_path (rq_path r) \<longrightarrow> w_sent (fst (Serve d r db)) = Some (303, [], Some ''/login'')))
   \<and> (snd (Serve d r db) = db
      \<or> (\<exists>i. rq_path r = ''/enqueued'' \<and>
           snd (Serve d r db) = db\<lparr>db_jobs := snd (RemoveByID (dash_fault d 0) i (db_jobs db))\<rparr>)
      \<or> (\<exists>i active. rq_path r = ''/change-cron-job-status'' \<and> rq_method r = ''POST'' \<and>
           snd (Serve d r db) = db\<lparr>db_crons := snd (executeChangeActivateQuery (dash_fault d 0) i active (db_crons db))\<rparr>))"
  using Serve_public [of d r db] Serve_changes [of d r db] by blast

lemma no_cookie: "\<not> isAuthenticated [] key"
  by (simp add: isAuthenticated_def r_Cookie_def Split_single_none cookie_part_def TrimString_def)

definition demo_dashboard :: dashboard where
  "demo_dashboard = \<lparr>SecretKey = ''k'', UseAuth = True, dash_now = 0, dash_fault = (\<lambda>_. None), dash_order = sort_key er_scheduled_at,
     dash_cron_order = sort_key (\<lambda>r. - cr_created_at r), dash_bcrypt = (=)\<rparr>"

definition demo_db :: database where
  "demo_db = \<lparr>db_jobs = insert_row (new_enqueued_row 0 ''mail'' JNull 0 3) empty_table, db_crons = empty_table,
     db_users = empty_table\<rparr>"

theorem dashboard_guarded_witness:
  "snd (Serve demo_dashboard \<lparr>rq_method = ''GET'', rq_path = ''/enqueued'', rq_query = ''action=remove&id=1'',
       rq_body = [], rq_cookie = []\<rparr> demo_db) = demo_db
   \<and> w_sent (fst (Serve demo_dashboard \<lparr>rq_method = ''GET'', rq_path = ''/enqueued'', rq_query = ''action=remove&id=1'',
       rq_body = [], rq_cookie = []\<rparr> demo_db)) = Some (303, [], Some ''/login'')"
  using dashboard_guarded [of demo_dashboard "\<lparr>rq_method = ''GET'', rq_path = ''/enqueued'',
      rq_query = ''action=remove&id=1'', rq_body = [], rq_cookie = []\<rparr>" demo_db] no_cookie
  by (simp add: demo_dashboard_def guarded_path_def HasPrefix_def)

section \<open>Logging in\<close>

text \<open>A form as a browser sends it.\<close>

definition post_form :: "string \<Rightarrow> (string \<times> string) list \<Rightarrow> string \<Rightarrow> request" where
  "post_form path inputs cookie = \<lparr>rq_method = ''POST'', rq_path = path, rq_query = [],
     rq_body = form_serialize inputs, rq_cookie = cookie\<rparr>"

lemma ParseQuery_Nil: "ParseQuery [] = []"
  by (simp add: ParseQuery_def Split_single_none)

lemma FormValue_post: "FormValue (post_form path inputs cookie) key = Query_Get inputs key"
  by (simp add: FormValue_def post_form_def has_body_def ParseQuery_Nil ParseQuery_serialize)

lemma map_filter_put:
  assumes "f (n, v) = Some x" "\<And>m w. m \<noteq> n \<Longrightarrow> f (m, w) = None"
  shows "\<exists>xs. List.map_filter f (put_cookie n v cs) = x # xs"
  using assms by (induction n v cs rule: put_cookie.induct) auto

lemma set_put_cookie: "set (put_cookie n v cs) \<subseteq> insert (n, v) (set cs)"
  by (induction n v cs rule: put_cookie.induct) auto

lemma read_token: "read_value (generateAuthToken u k) = Some (generateAuthToken u k)"
proof -
  have "dropWhile http_space (rev (generateAuthToken u k)) = rev (generateAuthToken u k)"
    using dropWhile_http [of "rev (generateAuthToken u k)" "[]"] token_not_Nil [of u k] token_clean [of _ u k] by auto
  then show ?thesis by (simp add: read_value_def parse_token)
qed

text \<open>A browser that stores the cookie is authenticated by its next request.\<close>

lemma token_cookie_accepted:
  assumes "jar_ok jar"
  shows "isAuthenticated (document_cookie (put_cookie ''auth'' (generateAuthToken u k) jar)) k"
proof -
  have "jar_ok (put_cookie ''auth'' (generateAuthToken u k) jar)"
    using assms set_put_cookie [of "''auth''" "generateAuthToken u k" jar] token_no(3) [of u k]
    by (fastforce simp: jar_ok_def http_space_def byte_def)
  moreover obtain xs where "List.map_filter (\<lambda>(n, v). if n = ''auth'' then read_value v else None)
      (put_cookie ''auth'' (generateAuthToken u k) jar) = generateAuthToken u k # xs"
    using map_filter_put [of "\<lambda>(n, v). if n = ''auth'' then read_value v else None" "''auth''" "generateAuthToken u k"]
    by (auto simp: read_token)
  ultimately show ?thesis by (simp add: isAuthenticated_def r_Cookie_document token_valid)
qed

lemma Serve_login: "Serve d (post_form ''/login'' inputs cookie) db = handleLogin d (post_form ''/login'' inputs cookie) new_writer db"
  by (simp add: Serve_def post_form_def Let_def)

text \<open>(C13) Logging in: after a user has been created, sending the login form with the same name and
  password, whatever characters they hold, is answered with a redirect to the charts and one cookie, and the browser that
  stores this cookie is authenticated from then on. With a password that bcrypt does not
  accept for the stored hash the answer sets no login cookie.\<close>

theorem login_grants_access:
  assumes "gen pw = Inr h" "dash_bcrypt d h pw" "dash_fault d 0 = None" "jar_ok jar"
    and "db_users db = snd (Create None None gen name pw users)"
  shows "(\<exists>c. w_sent (fst (Serve d (post_form ''/login'' [(''username'', name), (''password'', pw)] cookie) db)) =
        Some (303, [c], Some ''/charts'')
      \<and> isAuthenticated (document_cookie (put_cookie (sc_name c) (sc_value c) jar)) (SecretKey d))
    \<and> (\<not> dash_bcrypt d h wrong \<longrightarrow>
      (\<exists>c. w_sent (fst (Serve d (post_form ''/login'' [(''username'', name), (''password'', wrong)] cookie) db)) =
        Some (303, [c], Some ''/login'') \<and> sc_name c = ''warning''))"
proof -
  have m: "rq_method (post_form ''/login'' inputs cookie) = ''POST''" for inputs by (simp add: post_form_def)
  have find: "Find (dash_fault d 0) (dash_bcrypt d) name p (db_users db) =
      (if dash_bcrypt d h p then Inr (Some \<lparr>usr_ID = next_id users, usr_Username = name, usr_Password = []\<rparr>)
       else Inl ''user not found'')" for p
    using Find_Create [where gen = gen and pw = pw, OF assms(1)] assms(3,5) by simp
  show ?thesis
    using assms(2) token_cookie_accepted [OF assms(4)]
    by (auto simp: Serve_login handleLogin_def m FormValue_post Query_Get_def find Redirect_simps Write_simps
        HasPrefix_def sanitize_token message_cookie_def)
qed

theorem login_grants_access_witness:
  "\<exists>c. w_sent (fst (Serve demo_dashboard (post_form ''/login'' [(''username'', ''root''), (''password'', ''a&b'')] [])
        (demo_db\<lparr>db_users := snd (Create None None Inr ''root'' ''a&b'' empty_table)\<rparr>))) = Some (303, [c], Some ''/charts'')
      \<and> isAuthenticated (document_cookie (put_cookie (sc_name c) (sc_value c) [(''theme'', ''dark'')])) ''k''"
  using login_grants_access [of Inr "''a&b''" "''a&b''" demo_dashboard "[(''theme'', ''dark'')]"
      "demo_db\<lparr>db_users := snd (Create None None Inr ''root'' ''a&b'' empty_table)\<rparr>" "''root''" empty_table "[]" "[]"]
  by (simp add: demo_dashboard_def jar_ok_def http_space_def byte_def)

section \<open>Removing a job\<close>

lemma QueryEscape_bytes:
  assumes "c \<in> set (QueryEscape m)"
  shows "valid_cookie_byte c \<and> c \<noteq> CHR '' '' \<and> c \<noteq> CHR '',''"
proof -
  have "c = CHR ''+'' \<or> unreserved c \<or> c = CHR ''%'' \<or> alnum c"
    using assms by (auto simp: QueryEscape_def escape_char_def dest: percent_plain split: if_splits)
  then have "alnum c \<or> c \<in> {CHR ''+'', CHR ''%'', CHR ''-'', CHR ''_'', CHR ''.'', CHR ''~''}"
    by (auto simp: unreserved_def)
  then show ?thesis
    by (auto simp: valid_cookie_byte_def alnum_def byte_chars) (simp_all add: byte_def)
qed

lemma sanitize_message: "sanitizeCookieValue (QueryEscape m) = QueryEscape m"
  using QueryEscape_bytes [of _ m] by (fastforce simp: sanitizeCookieValue_def Let_def filter_id_conv)

lemma removes:
  assumes "enqueued_inv T" "row_of T i \<noteq> None"
  shows "RemoveByID None i T = (None, delete_where (\<lambda>r. er_id r = i) T)"
proof -
  have "rows_matching (\<lambda>r. er_id r = i) T \<noteq> 0" using assms(2) by (auto simp: rows_matching_none dest!: row_by_Some)
  then show ?thesis by (simp add: RemoveByID_def exec_delete_def)
qed

lemma first_page: "\<exists>p. FetchDueJobs None None srt now 1 PageSize15 statuses before T = Inr p"
  by (simp add: FetchDueJobs_def Let_def limit_offset_def PageSize15_def wrap64_def)

lemma TrimSpace_remove: "TrimSpace ''remove'' = ''remove''"
  by code_simp

lemma page_of_post: "getPageNumber (rq_query (post_form path inputs cookie)) = 1"
  by (simp add: post_form_def getPageNumber_def ParseQuery_Nil Query_Get_def ParseInt_def)

definition removed_cookie :: set_cookie where
  "removed_cookie = message_cookie ''flash'' ''Job removed successfully!''"

lemma remove_action:
  assumes "enqueued_inv (db_jobs db)" "row_of (db_jobs db) i \<noteq> None" "i \<le> max_int" "dash_fault d 0 = None"
  shows "handleDashboardAction d (post_form path [(''action'', ''remove''), (''id'', Itoa i)] cookie) w db =
    (None, http_Redirect (post_form path [(''action'', ''remove''), (''id'', Itoa i)] cookie) ''/enqueued'' 303
       (http_SetCookie removed_cookie w), db\<lparr>db_jobs := delete_where (\<lambda>r. er_id r = i) (db_jobs db)\<rparr>)"
proof -
  have "min_int \<le> i" using assms(1,2) by (force simp: enqueued_inv_def keyed_def min_int_def dest!: row_by_Some)
  then have "ParseInt (Itoa i) = Some i" using Atoi_Itoa [of i] assms(3) by (simp add: Atoi_def)
  then show ?thesis
    using assms(4) removes [OF assms(1,2)]
    by (simp add: handleDashboardAction_def FormValue_post Query_Get_def TrimSpace_remove removed_cookie_def)
qed

lemma serve_removal:
  assumes "enqueued_inv (db_jobs db)" "row_of (db_jobs db) i \<noteq> None" "i \<le> max_int"
    and "UseAuth d \<longrightarrow> isAuthenticated cookie (SecretKey d)" "\<forall>n. dash_fault d n = None"
  shows "snd (Serve d (post_form ''/enqueued'' [(''action'', ''remove''), (''id'', Itoa i)] cookie) db) =
      db\<lparr>db_jobs := delete_where (\<lambda>r. er_id r = i) (db_jobs db)\<rparr>"
    and "w_sent (fst (Serve d (post_form ''/enqueued'' [(''action'', ''remove''), (''id'', Itoa i)] cookie) db)) =
      Some (303, [removed_cookie], Some ''/enqueued'')"
proof -
  let ?r = "post_form ''/enqueued'' [(''action'', ''remove''), (''id'', Itoa i)] cookie"
  let ?db = "db\<lparr>db_jobs := delete_where (\<lambda>r. er_id r = i) (db_jobs db)\<rparr>"
  let ?w = "http_Redirect ?r ''/enqueued'' 303 (http_SetCookie removed_cookie new_writer)"
  have act: "handleDashboardAction d ?r new_writer db = (None, ?w, ?db)" using assms by (intro remove_action) simp_all
  have "Serve d ?r db = handleEnqueued d ?r new_writer db"
    using assms(4) Serve_enqueued [of ?r d db] by (simp add: authMiddleware_def post_form_def)
  moreover have "\<exists>b. handleEnqueued d ?r new_writer db = (Write b ?w, ?db)"
  proof -
    define st where "st = (if TrimSpace (URL_Query_Get ?r ''status'') \<noteq> [] then [TrimSpace (URL_Query_Get ?r ''status'')] else [])"
    obtain p where p: "FetchDueJobs None None (dash_order d) (dash_now d) 1 PageSize15 st None (delete_where (\<lambda>r. er_id r = i) (db_jobs db)) = Inr p"
      using first_page by blast
    show ?thesis using assms(5) p unfolding handleEnqueued_def act page_of_post st_def [symmetric] Let_def by simp blast
  qed
  moreover have "w_sent ?w = Some (303, [removed_cookie], Some ''/enqueued'')"
    by (simp add: Redirect_simps Write_simps HasPrefix_def removed_cookie_def message_cookie_def sanitize_message)
  ultimately show "snd (Serve d ?r db) = ?db" "w_sent (fst (Serve d ?r db)) = Some (303, [removed_cookie], Some ''/enqueued'')"
    by (auto simp: Write_simps)
qed

lemma put_cookie_facts:
  assumes "cookies_ok cs" "cookie_ok (n, v)"
  shows "cookies_ok (put_cookie n v cs)" "map_of (put_cookie n v cs) n = Some v"
    "m \<noteq> n \<Longrightarrow> map_of (put_cookie n v cs) m = map_of cs m"
proof -
  have "fst ` set (put_cookie n v cs) = insert n (fst ` set cs)" for cs
    by (induction n v cs rule: put_cookie.induct) auto
  then have "distinct (map fst cs) \<Longrightarrow> distinct (map fst (put_cookie n v cs))" for cs
    by (induction n v cs rule: put_cookie.induct) auto
  then show "cookies_ok (put_cookie n v cs)" using assms set_put_cookie [of n v cs] by (auto simp: cookies_ok_def)
  show "map_of (put_cookie n v cs) n = Some v" by (induction n v cs rule: put_cookie.induct) auto
  show "m \<noteq> n \<Longrightarrow> map_of (put_cookie n v cs) m = map_of cs m" by (induction n v cs rule: put_cookie.induct) auto
qed

lemma removal_shown:
  assumes "cookies_ok (page_cookies pg)" "map_of (page_cookies pg) ''warning'' = None"
  shows "dialogs (DOMContentLoaded path (pg\<lparr>page_cookies := put_cookie (sc_name removed_cookie) (sc_value removed_cookie) (page_cookies pg)\<rparr>))
      = dialogs pg @ [message_dialog ''success'' ''Success'' ''Job removed successfully!'']
    \<and> map_of (page_cookies (DOMContentLoaded path
        (pg\<lparr>page_cookies := put_cookie (sc_name removed_cookie) (sc_value removed_cookie) (page_cookies pg)\<rparr>))) ''flash'' = None"
proof -
  let ?cs = "put_cookie ''flash'' (QueryEscape ''Job removed successfully!'') (page_cookies pg)"
  have "cookie_ok (''flash'', QueryEscape ''Job removed successfully!'')" by (simp add: cookie_ok_def QueryEscape_no_semicolon)
  note ok = put_cookie_facts [OF assms(1) this]
  have "wf_utf8 ''Job removed successfully!''" by (rule wf_utf8_ascii) (simp add: byte_def)
  then show ?thesis
    using flash_shown [of "pg\<lparr>page_cookies := ?cs\<rparr>" "''Job removed successfully!''" path] ok assms(2)
    by (auto simp: removed_cookie_def message_cookie_def map_of_eq_None_iff)
qed

text \<open>(C14) Removing a job, from the form to the dialog: submitting the form of an existing job with a valid cookie
  deletes exactly that row, answers with a redirect and a cookie, and the page the browser then
  loads shows the message of success, once.\<close>

theorem removal_reported:
  assumes "enqueued_reach (db_jobs db)" "row_of (db_jobs db) i \<noteq> None" "i \<le> max_int"
    and "UseAuth d \<longrightarrow> isAuthenticated cookie (SecretKey d)" "\<forall>n. dash_fault d n = None"
    and "cookies_ok (page_cookies pg)" "map_of (page_cookies pg) ''warning'' = None"
  shows "case Serve d (post_form ''/enqueued'' [(''action'', ''remove''), (''id'', Itoa i)] cookie) db of (w, db') \<Rightarrow>
    db' = db\<lparr>db_jobs := delete_where (\<lambda>r. er_id r = i) (db_jobs db)\<rparr>
    \<and> (\<exists>c. w_sent w = Some (303, [c], Some ''/enqueued'')
         \<and> dialogs (DOMContentLoaded ''/enqueued'' (pg\<lparr>page_cookies := put_cookie (sc_name c) (sc_value c) (page_cookies pg)\<rparr>))
           = dialogs pg @ [message_dialog ''success'' ''Success'' ''Job removed successfully!'']
         \<and> map_of (page_cookies (DOMContentLoaded ''/enqueued''
             (pg\<lparr>page_cookies := put_cookie (sc_name c) (sc_value c) (page_cookies pg)\<rparr>))) ''flash'' = None)"
proof -
  let ?s = "Serve d (post_form ''/enqueued'' [(''action'', ''remove''), (''id'', Itoa i)] cookie) db"
  have "snd ?s = db\<lparr>db_jobs := delete_where (\<lambda>r. er_id r = i) (db_jobs db)\<rparr>"
    "w_sent (fst ?s) = Some (303, [removed_cookie], Some ''/enqueued'')"
    using serve_removal [OF enqueued_reach_inv [OF assms(1)] assms(2-5)] by simp_all
  with removal_shown [OF assms(6,7)] show ?thesis by (cases ?s) simp
qed

theorem removal_reported_witness:
  "case Serve demo_dashboard (post_form ''/enqueued'' [(''action'', ''remove''), (''id'', Itoa 1)]
      (document_cookie (put_cookie ''auth'' (generateAuthToken ''root'' ''k'') [])))
      (demo_db\<lparr>db_jobs := snd (Insert None 0 ''mail'' 0 [] empty_table)\<rparr>) of (w, db') \<Rightarrow>
    trows (db_jobs db') = [] \<and> (\<exists>c. w_sent w = Some (303, [c], Some ''/enqueued''))"
proof -
  let ?db = "demo_db\<lparr>db_jobs := snd (Insert None 0 ''mail'' 0 [] empty_table)\<rparr>"
  let ?ck = "document_cookie (put_cookie ''auth'' (generateAuthToken ''root'' ''k'') [])"
  let ?pg = "\<lparr>buttons = [], listeners = [], page_cookies = [], page_title = [], dialogs = [], submitted = []\<rparr>"
  have "enqueued_reach (db_jobs ?db)" by (simp add: enqueued_reach.intros)
  moreover have "row_of (db_jobs ?db) 1 \<noteq> None"
    by (simp add: snd_Insert Marshal_args_def row_by_def new_enqueued_row_def)
  moreover have "isAuthenticated ?ck (SecretKey demo_dashboard)"
    using token_cookie_accepted [of "[]" "''root''" "''k''"] by (simp add: jar_ok_def demo_dashboard_def)
  moreover have "\<forall>n. dash_fault demo_dashboard n = None" by (simp add: demo_dashboard_def)
  ultimately have "case Serve demo_dashboard (post_form ''/enqueued'' [(''action'', ''remove''), (''id'', Itoa 1)] ?ck) ?db of (w, db') \<Rightarrow>
    db' = ?db\<lparr>db_jobs := delete_where (\<lambda>r. er_id r = 1) (db_jobs ?db)\<rparr> \<and> (\<exists>c. w_sent w = Some (303, [c], Some ''/enqueued''))"
    using removal_reported [of ?db 1 demo_dashboard ?ck ?pg] by (auto simp: max_int_def cookies_ok_def)
  moreover have "trows (delete_where (\<lambda>r. er_id r = 1) (db_jobs ?db)) = []"
    by (simp add: snd_Insert Marshal_args_def new_enqueued_row_def)
  ultimately show ?thesis by auto
qed

section \<open>The index\<close>

text \<open>The redirect of the index is relative to the directory of the path, so a path below a directory leads to a
  path that is answered by the index again, with a redirect to itself.\<close>

lemma index_redirects_to_itself:
  assumes "isAuthenticated cookie (SecretKey d)"
  shows "w_sent (fst (Serve d \<lparr>rq_method = ''GET'', rq_path = ''/jobs/charts'', rq_query = q, rq_body = b, rq_cookie = cookie\<rparr> db)) =
    Some (303, [], Some ''/jobs/charts'')"
  using assms by (simp add: Serve_def Let_def authMiddleware_def handleIndex_def writer_defs redirect_target_def
      dir_of_def HasPrefix_def)

end
