(* ===== verification/CronManager.thy ===== *)
theory CronManager
  imports CronStore JobHandlers NextRun
begin

text \<open>
  The manager of recurring jobs (\<^verbatim>\<open>client/cron_job_manager.go\<close>). Several instances share the table of
  cron jobs; each works through the pages of due jobs (\<^verbatim>\<open>processCronJobs\<close>), runs a goroutine
  \<^verbatim>\<open>executeJob\<close> per job it has locked, and a result processor that first sets the status of a job and
  then, in a second statement, its run times. The code between two shared accesses is a function;
  the step relation interleaves the pieces of all instances, with every failure of a statement and
  every behaviour of the handlers. There is no \<^verbatim>\<open>recover\<close> in \<^verbatim>\<open>executeJob\<close>: a handler that panics ends
  the process.
\<close>

section \<open>Sequential code\<close>

definition cron_errorToJobStatus :: "string option \<Rightarrow> JobStatus" where
  "cron_errorToJobStatus err = (if err \<noteq> None then StatusFailed else StatusSucceeded)"

definition cron_result :: "CronJob \<Rightarrow> string option \<Rightarrow> JobStatus \<Rightarrow> gotime \<Rightarrow> gotime \<Rightarrow> JobResult" where
  "cron_result job err status now nextRun =
     \<lparr>res_JobID = cj_ID job, res_Err = err, res_Attempts = 0, res_MaxAttempts = 0, res_Status = status,
      res_RanAt = now, res_NextRun = nextRun\<rparr>"

text \<open>The result a goroutine sends; nothing when the handler panics.\<close>

definition executeJob :: "JobHandler \<Rightarrow> gotime \<Rightarrow> CronJob \<Rightarrow> JobResult option" where
  "executeJob jh now job =
     (case CalculateNextRun (cj_Expression job) now of
        None \<Rightarrow> None
      | Some nextRun \<Rightarrow>
          (if \<not> Exists jh (cj_Name job)
           then Some (cron_result job (Some ''handler not found'') StatusFailed now nextRun)
           else case Unmarshal_args (cj_Payload job) of
                  Inl e \<Rightarrow> Some (cron_result job (Some (''invalid payload: '' @ e)) StatusFailed now nextRun)
                | Inr args \<Rightarrow>
                    (case Execute jh (cj_Name job) args of
                       Panics _ \<Rightarrow> None
                     | Returns err \<Rightarrow> Some (cron_result job err (cron_errorToJobStatus err) now nextRun))))"

definition cron_calls_handler :: "JobHandler \<Rightarrow> CronJob \<Rightarrow> bool" where
  "cron_calls_handler jh job \<longleftrightarrow> Exists jh (cj_Name job) \<and> is_ok (Unmarshal_args (cj_Payload job))"

text \<open>The first statement of a round of the result processor. Calling \<^verbatim>\<open>Error()\<close> on a nil error panics.\<close>

definition cron_mark :: "fault \<Rightarrow> JobResult \<Rightarrow> cron_table \<Rightarrow> cron_table outcome" where
  "cron_mark flt res T =
     (if res_Status res = StatusSucceeded
      then (if IsValidTransition StatusProcessing StatusSucceeded
            then Returns (snd (Cron_MarkSuccess flt (res_JobID res) T)) else Returns T)
      else if res_Status res = StatusFailed
      then (if IsValidTransition StatusProcessing StatusFailed
            then (case res_Err res of
                    None \<Rightarrow> Panics ''runtime error: invalid memory address or nil pointer dereference''
                  | Some msg \<Rightarrow> Returns (snd (Cron_MarkFailure flt (res_JobID res) msg T)))
            else Returns T)
      else Returns T)"

text \<open>The second statement.\<close>

definition cron_times :: "fault \<Rightarrow> JobResult \<Rightarrow> cron_table \<Rightarrow> cron_table" where
  "cron_times flt res T = snd (UpdateJobRunTimes flt (res_JobID res) (res_RanAt res) (res_NextRun res) T)"

section \<open>Instances and their steps\<close>

datatype cron_worker = Running CronJob | Reporting JobResult

record cron_instance =
  ci_name :: string
  ci_page :: int  \<comment> \<open>the page \<^verbatim>\<open>processCronJobs\<close> fetches next\<close>
  ci_todo :: "CronJob list"  \<comment> \<open>the items of the current page still to be visited\<close>
  ci_locked :: "CronJob option"  \<comment> \<open>the item it has locked and waits to start\<close>
  ci_workers :: "cron_worker list"  \<comment> \<open>the goroutines \<^verbatim>\<open>executeJob\<close>\<close>
  ci_results :: "JobResult list"  \<comment> \<open>the channel \<^verbatim>\<open>jobResults\<close>\<close>
  ci_marked :: "JobResult option"  \<comment> \<open>the result whose status is set and whose times are not\<close>
  ci_cap :: nat
  ci_free :: nat
  ci_done :: bool  \<comment> \<open>the context is cancelled\<close>

record cron_system =
  crons :: cron_table
  cinsts :: "cron_instance list"
  cruns :: "int \<Rightarrow> nat"  \<comment> \<open>how often the handler was called, per job\<close>

definition new_cron_instance :: "string \<Rightarrow> nat \<Rightarrow> cron_instance" where
  "new_cron_instance who workerCount =
     \<lparr>ci_name = who, ci_page = 1, ci_todo = [], ci_locked = None, ci_workers = [], ci_results = [],
      ci_marked = None, ci_cap = workerCount, ci_free = workerCount, ci_done = False\<rparr>"

definition cron_ctx :: "cron_instance \<Rightarrow> fault \<Rightarrow> fault" where
  "cron_ctx s flt = (if ci_done s then Some ''context canceled'' else flt)"

definition cron_count :: "JobHandler \<Rightarrow> CronJob \<Rightarrow> (int \<Rightarrow> nat) \<Rightarrow> (int \<Rightarrow> nat)" where
  "cron_count jh job n = (if cron_calls_handler jh job then n(cj_ID job := n (cj_ID job) + 1) else n)"

inductive cron_inst_step ::
  "cron_table \<Rightarrow> (int \<Rightarrow> nat) \<Rightarrow> cron_instance \<Rightarrow> cron_table \<Rightarrow> (int \<Rightarrow> nat) \<Rightarrow> cron_instance \<Rightarrow> bool" where
  fetch: "ci_todo s = [] \<Longrightarrow> ci_locked s = None \<Longrightarrow> orders_by cr_next_run_at srt \<Longrightarrow>
    FetchDueCronJobs (cron_ctx s flt1) (cron_ctx s flt2) srt tz now (ci_page s) batchSize T = Inr p \<Longrightarrow>
    cron_inst_step T n s T n
      (s\<lparr>ci_todo := PaginationResult.Items p, ci_page := if HasNextPage p then wrap64 (ci_page s + 1) else 1\<rparr>)"
| fetch_failed: "ci_todo s = [] \<Longrightarrow> ci_locked s = None \<Longrightarrow> orders_by cr_next_run_at srt \<Longrightarrow>
    FetchDueCronJobs (cron_ctx s flt1) (cron_ctx s flt2) srt tz now (ci_page s) batchSize T = Inl e \<Longrightarrow>
    cron_inst_step T n s T n (s\<lparr>ci_page := 1\<rparr>)"
| lock_won: "ci_todo s = job # rest \<Longrightarrow> ci_locked s = None \<Longrightarrow>
    Cron_LockJob (cron_ctx s flt) now (cj_ID job) (ci_name s) T = (Inr True, T') \<Longrightarrow>
    cron_inst_step T n s T' n (s\<lparr>ci_todo := rest, ci_locked := Some job\<rparr>)"
| lock_lost: "ci_todo s = job # rest \<Longrightarrow> ci_locked s = None \<Longrightarrow>
    Cron_LockJob (cron_ctx s flt) now (cj_ID job) (ci_name s) T = (r, T') \<Longrightarrow> r \<noteq> Inr True \<Longrightarrow>
    cron_inst_step T n s T' n (s\<lparr>ci_todo := rest\<rparr>)"
| acquire: "ci_locked s = Some job \<Longrightarrow> ci_free s = Suc k \<Longrightarrow>
    cron_inst_step T n s T n (s\<lparr>ci_locked := None, ci_free := k, ci_workers := ci_workers s @ [Running job]\<rparr>)"
| acquire_failed: "ci_locked s = Some job \<Longrightarrow> ci_done s \<Longrightarrow>
    cron_inst_step T n s T n (s\<lparr>ci_locked := None\<rparr>)"
| execute: "ci_workers s = us @ Running job # vs \<Longrightarrow> executeJob jh now job = Some res \<Longrightarrow>
    cron_inst_step T n s T (cron_count jh job n) (s\<lparr>ci_workers := us @ Reporting res # vs\<rparr>)"
| send: "ci_workers s = us @ Reporting res # vs \<Longrightarrow> length (ci_results s) < 1000 \<Longrightarrow>
    cron_inst_step T n s T n
      (s\<lparr>ci_workers := us @ vs, ci_free := ci_free s + 1, ci_results := ci_results s @ [res]\<rparr>)"
| mark: "ci_results s = res # rest \<Longrightarrow> ci_marked s = None \<Longrightarrow> cron_mark flt res T = Returns T' \<Longrightarrow>
    cron_inst_step T n s T' n (s\<lparr>ci_results := rest, ci_marked := Some res\<rparr>)"
| times: "ci_marked s = Some res \<Longrightarrow>
    cron_inst_step T n s (cron_times flt res T) n (s\<lparr>ci_marked := None\<rparr>)"
| cancel: "cron_inst_step T n s T n (s\<lparr>ci_done := True\<rparr>)"

text \<open>The steps of the system. A process can end at any time, and ends when a handler panics.\<close>

inductive cron_sys_step :: "cron_system \<Rightarrow> cron_system \<Rightarrow> bool" where
  inst: "cinsts w = xs @ s # ys \<Longrightarrow> cron_inst_step (crons w) (cruns w) s T' n' s' \<Longrightarrow>
    cron_sys_step w \<lparr>crons = T', cinsts = xs @ s' # ys, cruns = n'\<rparr>"
| panic: "cinsts w = xs @ s # ys \<Longrightarrow> ci_workers s = us @ Running job # vs \<Longrightarrow> executeJob jh now job = None \<Longrightarrow>
    cron_sys_step w (w\<lparr>cinsts := xs @ ys, cruns := cron_count jh job (cruns w)\<rparr>)"
| crash: "cinsts w = xs @ s # ys \<Longrightarrow> cron_sys_step w (w\<lparr>cinsts := xs @ ys\<rparr>)"
| start: "cron_sys_step w (w\<lparr>cinsts := cinsts w @ [new_cron_instance who workerCount]\<rparr>)"
| add: "cron_sys_step w (w\<lparr>crons := snd (AddOrUpdate flt now name sched expr args (crons w))\<rparr>)"
| activate: "cron_sys_step w (w\<lparr>crons := snd (Activate flt i (crons w))\<rparr>)"
| deactivate: "cron_sys_step w (w\<lparr>crons := snd (DeActivate flt i (crons w))\<rparr>)"
| unlock: "cron_sys_step w (w\<lparr>crons := snd (UnLockJob flt i (crons w))\<rparr>)"

definition cron_initial :: cron_system where
  "cron_initial = \<lparr>crons = empty_table, cinsts = [], cruns = (\<lambda>_. 0)\<rparr>"

inductive cron_sys_reach :: "cron_system \<Rightarrow> bool" where
  init: "cron_sys_reach cron_initial"
| more: "cron_sys_reach w \<Longrightarrow> cron_sys_step w w' \<Longrightarrow> cron_sys_reach w'"

section \<open>The invariant\<close>

fun cron_worker_id :: "cron_worker \<Rightarrow> int" where
  "cron_worker_id (Running job) = cj_ID job"
| "cron_worker_id (Reporting res) = res_JobID res"

text \<open>The ids of the jobs an instance has locked and whose status it has not yet set.\<close>

definition cron_held :: "cron_instance \<Rightarrow> int list" where
  "cron_held s = (case ci_locked s of None \<Rightarrow> [] | Some job \<Rightarrow> [cj_ID job])
     @ map cron_worker_id (ci_workers s) @ map res_JobID (ci_results s)"

definition cron_held_all :: "cron_instance list \<Rightarrow> int list" where
  "cron_held_all ss = concat (map cron_held ss)"

definition result_ok :: "JobResult \<Rightarrow> bool" where
  "result_ok res \<longleftrightarrow> res_Status res = StatusSucceeded \<or> res_Status res = StatusFailed \<and> res_Err res \<noteq> None"

definition cron_outgoing :: "cron_instance \<Rightarrow> JobResult set" where
  "cron_outgoing s = {res. Reporting res \<in> set (ci_workers s)} \<union> set (ci_results s)"

definition cron_local :: "cron_instance \<Rightarrow> bool" where
  "cron_local s \<longleftrightarrow> ci_free s + length (ci_workers s) = ci_cap s \<and> length (ci_results s) \<le> 1000
     \<and> (\<forall>res \<in> cron_outgoing s. result_ok res)"

definition held_processing :: "cron_table \<Rightarrow> int list \<Rightarrow> bool" where
  "held_processing T is \<longleftrightarrow> distinct is \<and> (\<forall>i \<in> set is. cron_status_of T i = Some StatusProcessing)"

definition cron_sys_inv :: "cron_system \<Rightarrow> bool" where
  "cron_sys_inv w \<longleftrightarrow> cron_inv (crons w) \<and> held_processing (crons w) (cron_held_all (cinsts w))
     \<and> (\<forall>s \<in> set (cinsts w). cron_local s)"

section \<open>Changes of the table\<close>

text \<open>What a statement does to the statuses of the jobs.\<close>

lemma cron_status_update:
  assumes "\<And>r. cr_id (f r) = cr_id r"
  shows "cron_status_of (update_where P f T) i =
    map_option (\<lambda>r. if P r then cr_status (f r) else cr_status r) (cron_row_of T i)"
  by (simp add: cron_status_of_def row_by_update [where key = cr_id and f = f, OF assms] option.map_comp comp_def if_distrib)

lemma status_UpdateJobRunTimes: "cron_status_of (snd (UpdateJobRunTimes flt i l n T)) j = cron_status_of T j"
  by (cases "cron_row_of T j") (auto simp: snd_UpdateJobRunTimes cron_status_of_def row_by_update)

lemma status_UnLockJob: "cron_status_of (snd (UnLockJob flt i T)) j = cron_status_of T j"
  by (cases "cron_row_of T j") (auto simp: snd_UnLockJob cron_status_of_def row_by_update)

lemma status_Activate: "cron_status_of (snd (executeChangeActivateQuery flt i b T)) j = cron_status_of T j"
  by (cases "cron_row_of T j") (auto simp: snd_Activate cron_status_of_def row_by_update)

lemma status_AddOrUpdate:
  assumes "cron_inv T" "cron_status_of T j = Some s"
  shows "cron_status_of (snd (AddOrUpdate flt now name sched expr args T)) j = Some s"
proof -
  have k: "keyed cr_id T" using assms(1) by (simp add: cron_inv_def)
  then have "j \<noteq> next_id T" using assms(2) by (auto simp: cron_status_of_def keyed_def dest!: row_by_Some)
  then have "cron_row_of (insert_row (new_cron_row now name sched p expr) T) j = cron_row_of T j" for p
    using row_by_insert [OF k, of "new_cron_row now name sched p expr"] by (simp add: new_cron_row_def)
  then show ?thesis using assms(2)
    by (cases "cron_row_of T j") (auto simp: snd_AddOrUpdate cron_status_of_def row_by_update split: sum.splits)
qed

lemma status_mark:
  assumes "cron_mark flt res T = Returns T'" "j \<noteq> res_JobID res"
  shows "cron_status_of T' j = cron_status_of T j"
  using assms
  by (auto simp: cron_mark_def snd_Cron_MarkSuccess snd_Cron_MarkFailure cron_status_update split: if_splits option.splits)
     (auto simp: cron_status_of_def dest!: row_by_Some intro!: map_option_cong)

lemma inv_mark: "cron_inv T \<Longrightarrow> cron_mark flt res T = Returns T' \<Longrightarrow> cron_inv T'"
  by (auto simp: cron_mark_def snd_Cron_MarkSuccess snd_Cron_MarkFailure cron_row_ok_def
      intro!: cron_inv_update split: if_splits option.splits)

lemma inv_unchanged:
  "cron_inv T \<Longrightarrow> cron_inv (snd (UpdateJobRunTimes flt i l n T))"
  "cron_inv T \<Longrightarrow> cron_inv (snd (UnLockJob flt i T))"
  "cron_inv T \<Longrightarrow> cron_inv (snd (executeChangeActivateQuery flt i b T))"
  by (auto simp: cron_effects cron_row_ok_def intro!: cron_inv_update)

lemmas status_unchanged = status_UpdateJobRunTimes status_UnLockJob status_Activate

section \<open>Steps keep the invariant\<close>

text \<open>A step of one instance, seen by the others: jobs they hold keep their status, and the jobs the
  instance holds afterwards are those it held before, but for a job it has just locked.\<close>

lemma executeJob_result: "executeJob jh now job = Some res \<Longrightarrow> result_ok res \<and> res_JobID res = cj_ID job"
  by (auto simp: executeJob_def cron_result_def cron_errorToJobStatus_def result_ok_def
      split: option.splits if_splits sum.splits outcome.splits)

lemma cron_lock_won:
  assumes "cron_inv T" "held_processing T is" "Cron_LockJob flt now i who T = (Inr True, T')"
  shows "i \<notin> set is" "held_processing T' (i # is)" "cron_inv T'"
proof -
  have won: "fst (Cron_LockJob flt now i who T) = Inr True" using assms(3) by simp
  then obtain s where s: "cron_status_of T i = Some s" "cron_lockable s" using crn.lock_wins [OF assms(1)] by blast
  show i: "i \<notin> set is" using s assms(2) crn.processing_held by (auto simp: held_processing_def)
  have "cron_status_of T' j = (if j = i then Some StatusProcessing else cron_status_of T j)" for j
    using crn.lock_status [OF assms(1), of flt now i who j] won assms(3) by simp
  with i assms(2) show "held_processing T' (i # is)" by (auto simp: held_processing_def)
  show "cron_inv T'" using crn.lock_inv [OF assms(1), of flt now i who] assms(3) by simp
qed

lemma cron_lock_lost:
  assumes "cron_inv T" "Cron_LockJob flt now i who T = (r, T')" "r \<noteq> Inr True"
  shows "cron_inv T'" "cron_status_of T' j = cron_status_of T j"
  using crn.lock_inv [OF assms(1), of flt now i who] crn.lock_status [OF assms(1), of flt now i who j] assms(2,3)
  by simp_all

lemma held_processing_append:
  "held_processing T (xs @ ys) \<longleftrightarrow> held_processing T xs \<and> held_processing T ys \<and> set xs \<inter> set ys = {}"
  by (auto simp: held_processing_def)

lemma held_processing_swap: "held_processing T (xs @ ys @ zs) \<longleftrightarrow> held_processing T (ys @ xs @ zs)"
  by (auto simp: held_processing_def)

lemma held_processing_mono:
  "held_processing T is \<Longrightarrow> (\<And>j. j \<in> set is \<Longrightarrow> cron_status_of T' j = cron_status_of T j) \<Longrightarrow> held_processing T' is"
  by (simp add: held_processing_def)

lemma cron_held_simps [simp]:
  "cron_held (s\<lparr>ci_todo := js\<rparr>) = cron_held s" "cron_held (s\<lparr>ci_page := p\<rparr>) = cron_held s"
  "cron_held (s\<lparr>ci_marked := m\<rparr>) = cron_held s" "cron_held (s\<lparr>ci_done := b\<rparr>) = cron_held s"
  "cron_held (new_cron_instance who k) = []"
  by (simp_all add: cron_held_def new_cron_instance_def)

lemma cron_held_all_simps [simp]:
  "cron_held_all [] = []" "cron_held_all (s # ss) = cron_held s @ cron_held_all ss"
  "cron_held_all (ss @ ts) = cron_held_all ss @ cron_held_all ts"
  by (simp_all add: cron_held_all_def)

lemma cron_inst_step_held:
  assumes "cron_inst_step T n s T' n' s'" "cron_inv T" "held_processing T (cron_held s @ others)" "cron_local s"
  shows "cron_inv T' \<and> held_processing T' (cron_held s' @ others) \<and> cron_local s'"
  using assms(1)
proof cases
  case (lock_won job rest flt now)
  then show ?thesis using cron_lock_won [OF assms(2,3) lock_won(5)] assms(4)
    by (auto simp: cron_held_def cron_local_def cron_outgoing_def)
next
  case (lock_lost job rest flt now r)
  then show ?thesis using cron_lock_lost [OF assms(2) lock_lost(5,6)] assms(3,4)
    by (auto simp: cron_local_def cron_outgoing_def intro: held_processing_mono)
next
  case (execute us job vs jh now res)
  then show ?thesis using executeJob_result [OF execute(5)] assms(2-4)
    by (auto simp: cron_held_def cron_local_def cron_outgoing_def)
next
  case (mark res rest flt)
  have "held_processing T (res_JobID res # cron_held s' @ others)"
    using assms(3) mark by (auto simp: held_processing_def cron_held_def)
  then have "held_processing T (cron_held s' @ others)" "res_JobID res \<notin> set (cron_held s' @ others)"
    by (simp_all add: held_processing_def)
  moreover from this(1) have "held_processing T' (cron_held s' @ others)"
    by (rule held_processing_mono) (use status_mark [OF mark(5)] calculation(2) in metis)
  ultimately show ?thesis using inv_mark [OF assms(2) mark(5)] mark assms(4)
    by (auto simp: cron_local_def cron_outgoing_def)
next
  case (times res flt)
  then show ?thesis using assms(2-4)
    by (auto simp: cron_times_def inv_unchanged status_unchanged cron_local_def cron_outgoing_def
        intro: held_processing_mono)
qed (use assms(2-4) in \<open>auto simp: cron_held_def cron_local_def cron_outgoing_def held_processing_def\<close>)

lemma cron_sys_inv_table:
  assumes "cron_sys_inv w" "cron_inv T'" "\<And>j s. cron_status_of (crons w) j = Some s \<Longrightarrow> cron_status_of T' j = Some s"
  shows "cron_sys_inv (w\<lparr>crons := T'\<rparr>)"
  using assms by (auto simp: cron_sys_inv_def held_processing_def)

lemma cron_sys_inv_drop:
  assumes "cron_sys_inv w" "cinsts w = xs @ s # ys"
  shows "cron_sys_inv (w\<lparr>cinsts := xs @ ys, cruns := n\<rparr>)"
  using assms by (auto simp: cron_sys_inv_def held_processing_append)

lemma cron_step_inv: "cron_sys_step w w' \<Longrightarrow> cron_sys_inv w \<Longrightarrow> cron_sys_inv w'"
proof (induction rule: cron_sys_step.induct)
  case (inst w xs s ys T' n' s')
  let ?o = "cron_held_all xs @ cron_held_all ys"
  have "held_processing (crons w) (cron_held s @ ?o)"
    using inst by (simp add: cron_sys_inv_def held_processing_swap [of _ "cron_held_all xs"])
  with inst cron_inst_step_held [OF inst(2), of ?o] show ?case
    by (auto simp: cron_sys_inv_def held_processing_swap [of _ "cron_held_all xs"])
next
  case (panic w xs s ys us job vs jh now)
  then show ?case by (simp add: cron_sys_inv_drop)
next
  case (crash w xs s ys)
  then show ?case using cron_sys_inv_drop [of w xs s ys "cruns w"] by simp
next
  case (start w who k)
  have "cron_local (new_cron_instance who k)"
    by (simp add: cron_local_def cron_outgoing_def new_cron_instance_def)
  with start show ?case by (simp add: cron_sys_inv_def)
next
  case (add w flt now name sched expr args)
  then have "cron_inv (crons w)" by (simp add: cron_sys_inv_def)
  with add show ?case by (intro cron_sys_inv_table) (simp_all add: inv_AddOrUpdate status_AddOrUpdate)
next
  case (activate w flt i)
  then show ?case
    by (intro cron_sys_inv_table) (simp_all add: cron_sys_inv_def Activate_def inv_unchanged status_unchanged)
next
  case (deactivate w flt i)
  then show ?case
    by (intro cron_sys_inv_table) (simp_all add: cron_sys_inv_def DeActivate_def inv_unchanged status_unchanged)
next
  case (unlock w flt i)
  then show ?case
    by (intro cron_sys_inv_table) (simp_all add: cron_sys_inv_def inv_unchanged status_unchanged)
qed

lemma cron_sys_reach_inv: "cron_sys_reach w \<Longrightarrow> cron_sys_inv w"
proof (induction rule: cron_sys_reach.induct)
  case init
  then show ?case by (simp add: cron_initial_def cron_sys_inv_def inv_empty_cron held_processing_def)
qed (rule cron_step_inv)

section \<open>Jobs nobody works on\<close>

text \<open>A job in \<^verbatim>\<open>processing\<close> that no instance holds: its instance has ended.\<close>

definition abandoned :: "cron_system \<Rightarrow> int \<Rightarrow> bool" where
  "abandoned w i \<longleftrightarrow> cron_status_of (crons w) i = Some StatusProcessing \<and> i \<notin> set (cron_held_all (cinsts w))"

lemma cron_count_other: "i \<noteq> cj_ID job \<Longrightarrow> cron_count jh job n i = n i"
  by (simp add: cron_count_def)

lemma cron_inst_step_other:
  assumes "cron_inst_step T n s T' n' s'" "cron_inv T" "cron_status_of T i = Some StatusProcessing" "i \<notin> set (cron_held s)"
  shows "cron_status_of T' i = Some StatusProcessing \<and> i \<notin> set (cron_held s') \<and> n' i = n i"
  using assms(1)
proof cases
  case (lock_won job rest flt now)
  have won: "fst (Cron_LockJob (cron_ctx s flt) now (cj_ID job) (ci_name s) T) = Inr True" using lock_won by simp
  then have "cj_ID job \<noteq> i" using crn.lock_wins [OF assms(2)] assms(3) crn.processing_held by auto
  then show ?thesis using lock_won assms(3,4) crn.lock_status [OF assms(2), of "cron_ctx s flt" now "cj_ID job" "ci_name s" i]
    by (auto simp: cron_held_def)
next
  case (lock_lost job rest flt now r)
  then show ?thesis using cron_lock_lost(2) [OF assms(2) lock_lost(5,6), of i] assms(3,4) by simp
next
  case (execute us job vs jh now res)
  then show ?thesis using executeJob_result [OF execute(5)] assms(3,4)
    by (auto simp: cron_held_def intro!: cron_count_other)
next
  case (mark res rest flt)
  then have "res_JobID res \<noteq> i" using assms(4) by (auto simp: cron_held_def)
  then show ?thesis using mark status_mark [OF mark(5), of i] assms(3,4) by (auto simp: cron_held_def)
next
  case (times res flt)
  then show ?thesis using assms(3,4) by (simp add: cron_times_def status_unchanged)
qed (use assms(3,4) in \<open>auto simp: cron_held_def\<close>)

lemma cron_step_abandoned:
  assumes "cron_sys_step w w'" "cron_sys_inv w" "abandoned w i"
  shows "abandoned w' i \<and> cruns w' i = cruns w i"
  using assms(1)
proof cases
  case (inst xs s ys T' n' s')
  then show ?thesis using cron_inst_step_other [OF inst(3), of i] assms(2,3)
    by (auto simp: abandoned_def cron_sys_inv_def)
next
  case (panic xs s ys us job vs jh now)
  then show ?thesis using assms(3) by (auto simp: abandoned_def cron_held_def intro!: cron_count_other)
next
  case (add flt now name sched expr args)
  then show ?thesis using assms(2,3) by (simp add: abandoned_def cron_sys_inv_def status_AddOrUpdate)
qed (use assms(3) in \<open>auto simp: abandoned_def Activate_def DeActivate_def status_unchanged\<close>)

lemma abandoned_forever:
  assumes "cron_sys_step\<^sup>*\<^sup>* w w'" "cron_sys_inv w" "abandoned w i"
  shows "cron_sys_inv w' \<and> abandoned w' i \<and> cruns w' i = cruns w i"
  using assms
proof (induction rule: rtranclp_induct)
  case (step w' w'')
  then show ?case using cron_step_abandoned [of w' w'' i] cron_step_inv [of w' w''] by simp
qed simp

section \<open>A run\<close>

text \<open>One job, an instance that has fetched and locked it and runs it, and a second instance.\<close>

definition demo_row :: cron_row where
  "demo_row = new_cron_row 5 ''report'' \<lparr>instant = 60, zone = 0\<rparr> JNull ''* * * * *'' 1"

definition demo_table :: cron_table where
  "demo_table = \<lparr>trows = [demo_row\<lparr>cr_locked_at := Some 70, cr_locked_by := Some ''a'', cr_status := StatusProcessing\<rparr>],
     next_id = 2\<rparr>"

definition demo_instance :: cron_instance where
  "demo_instance = (new_cron_instance ''a'' 2)\<lparr>ci_free := 1, ci_workers := [Running (cron_job_of demo_row)]\<rparr>"

definition demo_system :: cron_system where
  "demo_system = \<lparr>crons = demo_table, cinsts = [demo_instance, new_cron_instance ''b'' 1], cruns = (\<lambda>_. 0)\<rparr>"

lemma demo_fetch:
  "\<exists>p. FetchDueCronJobs None None (sort_key cr_next_run_at) 0 65 1 10 \<lparr>trows = [demo_row], next_id = 2\<rparr> = Inr p
    \<and> PaginationResult.Items p = [cron_job_of demo_row] \<and> \<not> HasNextPage p"
  by (simp add: FetchDueCronJobs_def cron_page_def Let_def limit_offset_def wrap64_def collect_query select_where_def
      rows_matching_def cron_due_where_def demo_row_def new_cron_row_def scan_cron_row_def cron_job_of_def
      total_pages_def StatusQueued_def)

lemma demo_reach: "cron_sys_reach demo_system"
proof -
  let ?T = "\<lparr>trows = [demo_row], next_id = 2\<rparr>"
  let ?a = "new_cron_instance ''a'' 2" and ?b = "new_cron_instance ''b'' 1"
  let ?w = "\<lambda>T s. \<lparr>crons = T, cinsts = [s, ?b], cruns = (\<lambda>_. 0)\<rparr>"
  let ?job = "cron_job_of demo_row"
  have inst: "cron_inst_step T (\<lambda>_. 0) s T' (\<lambda>_. 0) s' \<Longrightarrow> cron_sys_reach (?w T s) \<Longrightarrow> cron_sys_reach (?w T' s')" for T s T' s'
    using cron_sys_step.inst [of "?w T s" "[]" s "[?b]" T' "\<lambda>_. 0" s'] cron_sys_reach.more by auto
  have T: "snd (AddOrUpdate None 5 ''report'' \<lparr>instant = 60, zone = 0\<rparr> ''* * * * *'' [] empty_table) = ?T"
    by (simp add: snd_AddOrUpdate Marshal_args_def insert_row_def demo_row_def empty_table_def)
  have "cron_sys_reach \<lparr>crons = ?T, cinsts = [], cruns = (\<lambda>_. 0)\<rparr>"
    using cron_sys_reach.more [OF cron_sys_reach.init cron_sys_step.add [where flt = None and now = 5
        and name = "''report''" and sched = "\<lparr>instant = 60, zone = 0\<rparr>" and expr = "''* * * * *''" and args = "[]"]]
    by (simp add: cron_initial_def T)
  from cron_sys_reach.more [OF this cron_sys_step.start [where who = "''a''" and workerCount = 2]]
  have "cron_sys_reach \<lparr>crons = ?T, cinsts = [?a], cruns = (\<lambda>_. 0)\<rparr>" by simp
  from cron_sys_reach.more [OF this cron_sys_step.start [where who = "''b''" and workerCount = 1]]
  have w1: "cron_sys_reach (?w ?T ?a)" by simp
  have w2: "cron_sys_reach (?w ?T (?a\<lparr>ci_todo := [?job]\<rparr>))"
  proof (rule inst [OF _ w1])
    from demo_fetch obtain p where "FetchDueCronJobs None None (sort_key cr_next_run_at) 0 65 1 10 ?T = Inr p"
      "PaginationResult.Items p = [?job]" "\<not> HasNextPage p" by blast
    then show "cron_inst_step ?T (\<lambda>_. 0) ?a ?T (\<lambda>_. 0) (?a\<lparr>ci_todo := [?job]\<rparr>)"
      using cron_inst_step.fetch [where s = ?a and T = ?T and p = p and tz = 0 and now = 65 and batchSize = 10
          and n = "\<lambda>_. 0" and ?flt1.0 = None and ?flt2.0 = None, OF _ _ orders_by_sort_key]
      by (simp add: new_cron_instance_def cron_ctx_def)
  qed
  have w3: "cron_sys_reach (?w demo_table (?a\<lparr>ci_todo := [], ci_locked := Some ?job\<rparr>))"
  proof (rule inst [OF _ w2])
    have "Cron_LockJob None 70 1 ''a'' ?T = (Inr True, demo_table)"
      by (simp add: Cron_LockJob_eq rows_matching_def select_where_def update_where_def demo_table_def demo_row_def new_cron_row_def)
    then show "cron_inst_step ?T (\<lambda>_. 0) (?a\<lparr>ci_todo := [?job]\<rparr>) demo_table (\<lambda>_. 0) (?a\<lparr>ci_todo := [], ci_locked := Some ?job\<rparr>)"
      using cron_inst_step.lock_won [where s = "?a\<lparr>ci_todo := [?job]\<rparr>" and job = ?job and rest = "[]" and flt = None and now = 70
          and T = ?T and T' = demo_table and n = "\<lambda>_. 0"]
      by (simp add: new_cron_instance_def cron_ctx_def cron_job_of_def demo_row_def new_cron_row_def)
  qed
  have "cron_sys_reach (?w demo_table demo_instance)"
    by (rule inst [OF _ w3])
       (use cron_inst_step.acquire [where s = "?a\<lparr>ci_todo := [], ci_locked := Some ?job\<rparr>" and job = ?job and k = 1
          and T = demo_table and n = "\<lambda>_. 0"] in \<open>simp add: new_cron_instance_def demo_instance_def\<close>)
  then show ?thesis by (simp add: demo_system_def)
qed

section \<open>Properties\<close>

text \<open>(C10) Over all instances, in every interleaving, with every failure of a statement, every crash and every
  restart, no cron job is in the hands of two workers: the ids of the jobs that are locked, running or
  waiting for their result to be stored are pairwise different, and those jobs are in \<^verbatim>\<open>processing\<close>.\<close>

theorem cron_one_worker_per_job:
  assumes "cron_sys_reach w"
  shows "distinct (cron_held_all (cinsts w))
    \<and> (\<forall>i \<in> set (cron_held_all (cinsts w)). cron_status_of (crons w) i = Some StatusProcessing)
    \<and> (\<forall>s \<in> set (cinsts w). length (ci_workers s) \<le> ci_cap s)"
  using cron_sys_reach_inv [OF assms]
  by (auto simp: cron_sys_inv_def held_processing_def cron_local_def)

theorem cron_one_worker_per_job_witness:
  "distinct (cron_held_all (cinsts demo_system)) \<and> cron_held_all (cinsts demo_system) = [1]"
  using cron_one_worker_per_job [OF demo_reach]
  by (auto simp: demo_system_def demo_instance_def cron_held_def new_cron_instance_def cron_job_of_def demo_row_def new_cron_row_def)

text \<open>(C31) A cron job whose instance ends while it is running, by a crash or by the panic of a handler, is
  never run again: whatever instances are started and whatever clients do, it stays in
  \<^verbatim>\<open>processing\<close>, no instance takes it and its handler is not called, however old its lock is.\<close>

theorem cron_job_abandoned:
  assumes "cron_sys_reach w" "cron_status_of (crons w) i = Some StatusProcessing"
    and "i \<notin> set (cron_held_all (cinsts w))" "cron_sys_step\<^sup>*\<^sup>* w w'"
  shows "cron_status_of (crons w') i = Some StatusProcessing \<and> i \<notin> set (cron_held_all (cinsts w'))
    \<and> cruns w' i = cruns w i"
  using abandoned_forever [OF assms(4) cron_sys_reach_inv [OF assms(1)], of i] assms(2,3)
  by (simp add: abandoned_def)

theorem cron_job_abandoned_witness:
  "cruns \<lparr>crons = demo_table, cinsts = [new_cron_instance ''b'' 1, new_cron_instance ''c'' 1], cruns = (\<lambda>_. 0)\<rparr> 1 = 0
   \<and> cron_status_of demo_table 1 = Some StatusProcessing"
proof -
  let ?w = "\<lparr>crons = demo_table, cinsts = [new_cron_instance ''b'' 1], cruns = (\<lambda>_. 0)\<rparr>"
  have "cron_sys_step demo_system ?w"
    using cron_sys_step.crash [of demo_system "[]" demo_instance "[new_cron_instance ''b'' 1]"] by (simp add: demo_system_def)
  then have "cron_sys_reach ?w" by (rule cron_sys_reach.more [OF demo_reach])
  moreover have "cron_sys_step\<^sup>*\<^sup>* ?w (?w\<lparr>cinsts := cinsts ?w @ [new_cron_instance ''c'' 1]\<rparr>)"
    by (rule r_into_rtranclp) (rule cron_sys_step.start)
  moreover have "cron_status_of demo_table 1 = Some StatusProcessing"
    by (simp add: cron_status_of_def row_by_def demo_table_def demo_row_def new_cron_row_def)
  ultimately show ?thesis
    using cron_job_abandoned [of ?w 1 "?w\<lparr>cinsts := cinsts ?w @ [new_cron_instance ''c'' 1]\<rparr>"] by simp
qed

end
