(* ===== verification/GofireConfig.thy ===== *)
theory GofireConfig
  imports JobHandlers "HOL-Library.Word"
begin

text \<open>
  The configuration of GoFire (\<^verbatim>\<open>types/config/config.go\<close>, \<^verbatim>\<open>defaults.go\<close>, \<^verbatim>\<open>driver.go\<close>,
  \<^verbatim>\<open>errors/validation_error.go\<close>): the record, the options that fill it, the errors they collect, and
  the handlers registered in it. An option is a function that changes the configuration and may
  report an error, as in the code; a pointer is an option value, \<^const>\<open>None\<close> for nil.
\<close>

section \<open>Data\<close>

type_synonym StorageDriver = int
type_synonym MessageQueueDriver = int

definition Postgres :: StorageDriver where "Postgres = 1"
definition RabbitMQ :: MessageQueueDriver where "RabbitMQ = 1"

definition StorageDriver_String :: "StorageDriver \<Rightarrow> string" where
  "StorageDriver_String d = (if d = Postgres then ''postgres'' else ''unknown'')"

definition MessageQueueDriver_String :: "MessageQueueDriver \<Rightarrow> string" where
  "MessageQueueDriver_String d = (if d = RabbitMQ then ''rabbitmq'' else ''unknown'')"

record MethodHandler =
  mh_JobName :: string
  mh_Func :: "handler_fun option"

record PostgresConfig =
  pg_ConnectionUrl :: string

record RedisConfig =
  rd_Address :: string
  rd_Password :: string
  rd_DB :: int

record RabbitMQConfig =
  mq_URL :: string
  mq_Exchange :: string
  mq_Queue :: string
  mq_RoutingKey :: string
  mq_ContentType :: string

record GofireConfig =
  cfg_DashboardPort :: "64 word"
  cfg_DashboardUserName :: string
  cfg_DashboardPassword :: string
  cfg_SecretKey :: string
  cfg_Instance :: string
  cfg_DashboardAuthEnabled :: bool
  cfg_Handlers :: "MethodHandler list"
  cfg_StorageDriver :: StorageDriver
  cfg_WorkerCount :: int
  cfg_EnqueueInterval :: int
  cfg_ScheduleInterval :: int
  cfg_BatchSize :: int
  cfg_PostgresConfig :: PostgresConfig
  cfg_RedisConfig :: RedisConfig
  cfg_UseQueueWriter :: bool
  cfg_MQDriver :: MessageQueueDriver
  cfg_RabbitMQConfig :: "RabbitMQConfig option"

definition DefaultWorkerCount :: int where "DefaultWorkerCount = 5"
definition DefaultEnqueueInterval :: int where "DefaultEnqueueInterval = 15"
definition DefaultStorageDriver :: StorageDriver where "DefaultStorageDriver = Postgres"
definition DefaultBatchSize :: int where "DefaultBatchSize = 100"
definition DefaultCronJobInterval :: int where "DefaultCronJobInterval = 60"

lemmas config_defaults = DefaultWorkerCount_def DefaultEnqueueInterval_def DefaultStorageDriver_def
  DefaultBatchSize_def DefaultCronJobInterval_def

section \<open>Collected errors\<close>

record ValidationError =
  ve_Errors :: "go_error list"

definition ValidationError_Add :: "go_error \<Rightarrow> ValidationError \<Rightarrow> ValidationError" where
  "ValidationError_Add err c = c\<lparr>ve_Errors := ve_Errors c @ [err]\<rparr>"

definition HasError :: "ValidationError \<Rightarrow> bool" where
  "HasError c \<longleftrightarrow> 0 < length (ve_Errors c)"

definition ValidationError_Error :: "ValidationError \<Rightarrow> string" where
  "ValidationError_Error c =
     (if length (ve_Errors c) = 0 then [] else Join (ve_Errors c) [CHR 0x0A])"

section \<open>Options\<close>

type_synonym ContainerOption = "GofireConfig \<Rightarrow> go_error option \<times> GofireConfig"

definition zero_rabbit :: RabbitMQConfig where
  "zero_rabbit = \<lparr>mq_URL = [], mq_Exchange = [], mq_Queue = [], mq_RoutingKey = [], mq_ContentType = []\<rparr>"

definition default_config :: "string \<Rightarrow> GofireConfig" where
  "default_config ins =
     \<lparr>cfg_DashboardPort = 0, cfg_DashboardUserName = [], cfg_DashboardPassword = [], cfg_SecretKey = [],
      cfg_Instance = ins, cfg_DashboardAuthEnabled = False, cfg_Handlers = [],
      cfg_StorageDriver = DefaultStorageDriver, cfg_WorkerCount = DefaultWorkerCount,
      cfg_EnqueueInterval = DefaultEnqueueInterval, cfg_ScheduleInterval = DefaultCronJobInterval,
      cfg_BatchSize = DefaultBatchSize, cfg_PostgresConfig = \<lparr>pg_ConnectionUrl = []\<rparr>,
      cfg_RedisConfig = \<lparr>rd_Address = [], rd_Password = [], rd_DB = 0\<rparr>,
      cfg_UseQueueWriter = False, cfg_MQDriver = 0, cfg_RabbitMQConfig = Some zero_rabbit\<rparr>"

fun apply_options :: "ContainerOption list \<Rightarrow> GofireConfig \<Rightarrow> ValidationError \<Rightarrow> GofireConfig \<times> ValidationError" where
  "apply_options [] cfg errs = (cfg, errs)"
| "apply_options (opt # opts) cfg errs =
     (case opt cfg of
        (Some err, cfg') \<Rightarrow> apply_options opts cfg' (ValidationError_Add err errs)
      | (None, cfg') \<Rightarrow> apply_options opts cfg' errs)"

definition NewGofireConfig :: "string \<Rightarrow> ContainerOption list \<Rightarrow> ValidationError + GofireConfig" where
  "NewGofireConfig ins opts =
     (case apply_options opts (default_config ins) \<lparr>ve_Errors = []\<rparr> of
        (cfg, validationErrs) \<Rightarrow> if HasError validationErrs then Inl validationErrs else Inr cfg)"

definition WithAdminDashboardConfig :: "string \<Rightarrow> string \<Rightarrow> string \<Rightarrow> 64 word \<Rightarrow> ContainerOption" where
  "WithAdminDashboardConfig username password secretKey port c =
     (if username = [] \<or> password = [] \<or> secretKey = [] \<or> port = 0
      then (Some ''admin dashboard client: username, password, secretKey, and port are required'', c)
      else (None, c\<lparr>cfg_DashboardAuthEnabled := True, cfg_DashboardUserName := username,
                    cfg_DashboardPassword := password, cfg_SecretKey := secretKey, cfg_DashboardPort := port\<rparr>))"

definition WithPostgresConfig :: "PostgresConfig \<Rightarrow> ContainerOption" where
  "WithPostgresConfig pg c =
     (if cfg_StorageDriver c \<noteq> Postgres
      then (Some (''cannot set Postgres client when driver is '' @ StorageDriver_String (cfg_StorageDriver c)), c)
      else if pg_ConnectionUrl pg = [] then (Some ''postgres client: connection URL is required'', c)
      else (None, c\<lparr>cfg_StorageDriver := Postgres, cfg_PostgresConfig := pg\<rparr>))"

definition WithWorkerCount :: "int \<Rightarrow> ContainerOption" where
  "WithWorkerCount n c =
     (if n < 1 then (Some ''worker count must be positive'', c) else (None, c\<lparr>cfg_WorkerCount := n\<rparr>))"

definition WithEnqueueInterval :: "int \<Rightarrow> ContainerOption" where
  "WithEnqueueInterval seconds c =
     (if seconds < 1 then (Some ''enqueue interval must be positive'', c)
      else (None, c\<lparr>cfg_EnqueueInterval := seconds\<rparr>))"

definition WithScheduleInterval :: "int \<Rightarrow> ContainerOption" where
  "WithScheduleInterval seconds c =
     (if seconds < 1 then (Some ''schedule interval must be positive'', c)
      else (None, c\<lparr>cfg_ScheduleInterval := seconds\<rparr>))"

definition WithBatchSize :: "int \<Rightarrow> ContainerOption" where
  "WithBatchSize batchSize c =
     (if batchSize < 1 then (Some ''batch size must be positive'', c)
      else (None, c\<lparr>cfg_BatchSize := batchSize\<rparr>))"

definition UseRabbitMQueueWriter :: "bool \<Rightarrow> ContainerOption" where
  "UseRabbitMQueueWriter writeToQueue c =
     (let c' = c\<lparr>cfg_UseQueueWriter := writeToQueue\<rparr> in
      (None, if writeToQueue then c'\<lparr>cfg_MQDriver := RabbitMQ\<rparr> else c'))"

definition WithRabbitMQConfig :: "RabbitMQConfig \<Rightarrow> ContainerOption" where
  "WithRabbitMQConfig cfg c =
     (if mq_URL cfg = [] then (Some ''rabbitmq client: URL is required'', c)
      else (None, c\<lparr>cfg_RabbitMQConfig := Some cfg, cfg_UseQueueWriter := True, cfg_MQDriver := RabbitMQ\<rparr>))"

lemmas option_defs = WithAdminDashboardConfig_def WithPostgresConfig_def WithWorkerCount_def
  WithEnqueueInterval_def WithScheduleInterval_def WithBatchSize_def UseRabbitMQueueWriter_def WithRabbitMQConfig_def

definition RegisterHandler :: "MethodHandler \<Rightarrow> GofireConfig \<Rightarrow> go_error option \<times> GofireConfig" where
  "RegisterHandler handler c =
     (if mh_JobName handler = [] \<or> mh_Func handler = None
      then (Some ''handler must have a job name and function'', c)
      else (None, c\<lparr>cfg_Handlers := cfg_Handlers c @ [handler]\<rparr>))"

fun RegisterHandlers :: "MethodHandler list \<Rightarrow> GofireConfig \<Rightarrow> go_error option \<times> GofireConfig" where
  "RegisterHandlers [] c = (None, c)"
| "RegisterHandlers (h # hs) c =
     (case RegisterHandler h c of
        (Some err, c') \<Rightarrow> (Some err, c')
      | (None, c') \<Rightarrow> RegisterHandlers hs c')"

section \<open>Well-formed configurations\<close>

text \<open>What the rest of the program relies on: positive sizes and intervals, a driver it has, a
  message queue section that can be read, credentials when the dashboard is on, and handlers that
  can be called.\<close>

definition handler_ok :: "MethodHandler \<Rightarrow> bool" where
  "handler_ok h \<longleftrightarrow> mh_JobName h \<noteq> [] \<and> mh_Func h \<noteq> None"

definition dashboard_ok :: "GofireConfig \<Rightarrow> bool" where
  "dashboard_ok c \<longleftrightarrow> (cfg_DashboardAuthEnabled c \<longrightarrow>
     cfg_DashboardUserName c \<noteq> [] \<and> cfg_DashboardPassword c \<noteq> [] \<and> cfg_SecretKey c \<noteq> [] \<and> cfg_DashboardPort c \<noteq> 0)"

definition queue_ok :: "GofireConfig \<Rightarrow> bool" where
  "queue_ok c \<longleftrightarrow> cfg_RabbitMQConfig c \<noteq> None \<and> (cfg_UseQueueWriter c \<longrightarrow> cfg_MQDriver c = RabbitMQ)"

definition config_ok :: "GofireConfig \<Rightarrow> bool" where
  "config_ok c \<longleftrightarrow> 1 \<le> cfg_WorkerCount c \<and> 1 \<le> cfg_EnqueueInterval c \<and> 1 \<le> cfg_ScheduleInterval c
     \<and> 1 \<le> cfg_BatchSize c \<and> cfg_StorageDriver c = Postgres \<and> dashboard_ok c \<and> queue_ok c
     \<and> list_all handler_ok (cfg_Handlers c)"

lemmas config_ok_defs = config_ok_def dashboard_ok_def queue_ok_def

text \<open>The options the package offers.\<close>

inductive package_option :: "ContainerOption \<Rightarrow> bool" where
  "package_option (WithAdminDashboardConfig username password secretKey port)"
| "package_option (WithPostgresConfig pg)"
| "package_option (WithWorkerCount n)"
| "package_option (WithEnqueueInterval n)"
| "package_option (WithScheduleInterval n)"
| "package_option (WithBatchSize n)"
| "package_option (UseRabbitMQueueWriter b)"
| "package_option (WithRabbitMQConfig mq)"

lemma Instance_default [simp]: "cfg_Instance (default_config ins) = ins"
  by (simp add: default_config_def)

lemma config_ok_default: "config_ok (default_config ins)"
  by (simp add: config_ok_defs default_config_def config_defaults)

lemma package_option_keeps:
  assumes "package_option opt" "config_ok c"
  shows "config_ok (snd (opt c)) \<and> cfg_Instance (snd (opt c)) = cfg_Instance c"
  using assms(1) by cases (use assms(2) in \<open>simp_all add: option_defs config_ok_defs Let_def\<close>)

text \<open>Whether an option fails is decided by its own arguments.\<close>

lemma package_option_error:
  assumes "package_option opt" "cfg_StorageDriver c = Postgres" "cfg_StorageDriver d = Postgres"
  shows "fst (opt c) = fst (opt d)"
  using assms(1) by cases (simp_all add: assms(2,3) option_defs Let_def)

definition own_errors :: "ContainerOption list \<Rightarrow> go_error list" where
  "own_errors opts = List.map_filter (\<lambda>opt. fst (opt (default_config []))) opts"

lemma own_errors_Cons:
  "own_errors (opt # opts) = (case fst (opt (default_config [])) of None \<Rightarrow> own_errors opts | Some e \<Rightarrow> e # own_errors opts)"
  by (simp add: own_errors_def split: option.splits)

lemma apply_options_package:
  assumes "list_all package_option opts" "config_ok c"
  shows "apply_options opts c errs =
    (fold (\<lambda>opt c. snd (opt c)) opts c, \<lparr>ve_Errors = ve_Errors errs @ own_errors opts\<rparr>)"
  using assms
proof (induction opts arbitrary: c errs)
  case Nil
  then show ?case by (simp add: own_errors_def)
next
  case (Cons opt opts)
  have "fst (opt c) = fst (opt (default_config []))"
    using Cons.prems config_ok_default [of "[]"] by (auto intro!: package_option_error simp: config_ok_def)
  moreover have "config_ok (snd (opt c))" using Cons.prems by (auto dest: package_option_keeps)
  ultimately show ?case
    using Cons.prems
    by (cases "opt c") (auto simp: Cons.IH own_errors_Cons ValidationError_Add_def split: option.splits)
qed

lemma config_ok_fold:
  assumes "list_all package_option opts" "config_ok c"
  shows "config_ok (fold (\<lambda>opt c. snd (opt c)) opts c) \<and>
    cfg_Instance (fold (\<lambda>opt c. snd (opt c)) opts c) = cfg_Instance c"
  using assms by (induction opts arbitrary: c) (auto dest: package_option_keeps)

lemma RegisterHandlers_spec:
  "RegisterHandlers hs c =
    (if list_all handler_ok hs then None else Some ''handler must have a job name and function'',
     c\<lparr>cfg_Handlers := cfg_Handlers c @ takeWhile handler_ok hs\<rparr>)"
  by (induction hs arbitrary: c) (auto simp: RegisterHandler_def handler_ok_def)

lemma RegisterHandlers_ok: "config_ok c \<Longrightarrow> config_ok (snd (RegisterHandlers hs c))"
  by (auto simp: RegisterHandlers_spec config_ok_defs list_all_iff dest: set_takeWhileD)

section \<open>Properties\<close>

text \<open>(C19) A configuration that is accepted is well formed. Built from the options of the package and with any
  handlers registered, it has positive worker counts, batch sizes and intervals, the one storage driver,
  a message queue section, and credentials, key and port whenever the dashboard is on; what
  registration refuses is left out. A configuration is refused exactly when an option has invalid
  arguments, and then the error lists the errors of all the options in their order.\<close>

theorem NewGofireConfig_valid:
  assumes "list_all package_option opts"
  shows "case NewGofireConfig ins opts of
      Inl e \<Rightarrow> own_errors opts \<noteq> [] \<and> ve_Errors e = own_errors opts
    | Inr c \<Rightarrow> own_errors opts = [] \<and> cfg_Instance c = ins \<and> config_ok c \<and> config_ok (snd (RegisterHandlers hs c))"
  using config_ok_fold [OF assms config_ok_default, of ins]
  by (auto simp: NewGofireConfig_def apply_options_package [OF assms config_ok_default] HasError_def
      RegisterHandlers_ok)

theorem NewGofireConfig_valid_witness:
  "(case NewGofireConfig ''a'' [WithWorkerCount 8, WithAdminDashboardConfig ''admin'' ''pw'' ''key'' 8080] of
     Inl e \<Rightarrow> False | Inr c \<Rightarrow> config_ok c \<and> cfg_Instance c = ''a'')
   \<and> (case NewGofireConfig ''a'' [WithWorkerCount 0, UseRabbitMQueueWriter True, WithBatchSize (- 1)] of
     Inl e \<Rightarrow> ve_Errors e = [''worker count must be positive'', ''batch size must be positive''] | Inr c \<Rightarrow> False)"
proof -
  have "list_all package_option [WithWorkerCount 8, WithAdminDashboardConfig ''admin'' ''pw'' ''key'' 8080]"
    "list_all package_option [WithWorkerCount 0, UseRabbitMQueueWriter True, WithBatchSize (- 1)]"
    by (auto intro: package_option.intros)
  from this [THEN NewGofireConfig_valid, of "''a''" "[]"] show ?thesis
    by (auto simp: own_errors_Cons own_errors_def option_defs Let_def split: sum.splits)
qed

end
