(* ===== verification/LockManager.thy ===== *)
theory LockManager
  imports EnqueuedStore
begin

text \<open>
  The distributed locks (\<^verbatim>\<open>internal/lock/\<close>) and their one user while the workers run, the goroutine
  that requeues failed jobs (\<^verbatim>\<open>MarkRetryFailedJobs\<close> of \<^verbatim>\<open>client/enqueue_job_manager.go\<close>).

  A lock is an advisory lock of PostgreSQL and belongs to a session of the server. The handle of
  \<^verbatim>\<open>database/sql\<close> is a pool of sessions and runs each statement on one of them, so the session of a
  call is an argument of the model. A session that has a lock may take it again and then
  has to release it as often; a session that asks for a lock of another waits, and the context
  of the call ends the wait after five seconds with an error.
\<close>

section \<open>Advisory locks\<close>

type_synonym session = nat
type_synonym advisory = "int \<rightharpoonup> session \<times> nat"

text \<open>\<^const>\<open>None\<close> is a statement that waits.\<close>

definition pg_advisory_lock :: "session \<Rightarrow> int \<Rightarrow> advisory \<Rightarrow> advisory option" where
  "pg_advisory_lock s k A =
     (case A k of
        None \<Rightarrow> Some (A(k \<mapsto> (s, 1)))
      | Some (t, n) \<Rightarrow> if t = s then Some (A(k \<mapsto> (s, n + 1))) else None)"

text \<open>Unlocking a lock the session does not have is a warning of the server and no error.\<close>

definition pg_advisory_unlock :: "session \<Rightarrow> int \<Rightarrow> advisory \<Rightarrow> bool \<times> advisory" where
  "pg_advisory_unlock s k A =
     (case A k of
        None \<Rightarrow> (False, A)
      | Some (t, n) \<Rightarrow>
          if t = s then (True, A(k := if n \<le> 1 then None else Some (s, n - 1))) else (False, A))"

text \<open>The server drops the locks of a session that ends.\<close>

definition end_sessions :: "session list \<Rightarrow> advisory \<Rightarrow> advisory" where
  "end_sessions ss A k = (case A k of Some (t, n) \<Rightarrow> if t \<in> set ss then None else A k | None \<Rightarrow> None)"

section \<open>The lock manager\<close>

text \<open>\<open>flt\<close> is the failure of the statement, \<open>deadline\<close> the error of a statement that waited too long.\<close>

definition Acquire :: "fault \<Rightarrow> string \<Rightarrow> session \<Rightarrow> int \<Rightarrow> advisory \<Rightarrow> fault \<times> advisory" where
  "Acquire flt deadline s lockID A =
     (case flt of
        Some e \<Rightarrow> (Some (''failed to acquire lock: '' @ e), A)
      | None \<Rightarrow>
          (case pg_advisory_lock s lockID A of
             None \<Rightarrow> (Some (''failed to acquire lock: '' @ deadline), A)
           | Some A' \<Rightarrow> (None, A')))"

definition Release :: "fault \<Rightarrow> session \<Rightarrow> int \<Rightarrow> advisory \<Rightarrow> fault \<times> advisory" where
  "Release flt s lockID A =
     (case flt of
        Some e \<Rightarrow> (Some (''failed to release lock: '' @ e), A)
      | None \<Rightarrow> (None, snd (pg_advisory_unlock s lockID A)))"

definition holder :: "advisory \<Rightarrow> int \<Rightarrow> session option" where
  "holder A k = map_option fst (A k)"

text \<open>No lock is kept with depth zero.\<close>

definition depth_ok :: "advisory \<Rightarrow> bool" where
  "depth_ok A \<longleftrightarrow> (\<forall>k s n. A k = Some (s, n) \<longrightarrow> 0 < n)"

section \<open>The contract\<close>

text \<open>What users of a lock manager rely on: a lock has at most one holder, only the holder's releases can free it,
  and a call on one lock leaves the others alone.\<close>

locale lock_manager =
  fixes acquire :: "'s \<Rightarrow> int \<Rightarrow> 'l \<Rightarrow> fault \<times> 'l"
    and release :: "'s \<Rightarrow> int \<Rightarrow> 'l \<Rightarrow> fault \<times> 'l"
    and owner :: "'l \<Rightarrow> int \<Rightarrow> 's option"
  assumes acquire_granted: "fst (acquire s k L) = None \<Longrightarrow> owner L k = None \<or> owner L k = Some s"
    and acquire_owner: "owner (snd (acquire s k L)) k = (if fst (acquire s k L) = None then Some s else owner L k)"
    and acquire_elsewhere: "j \<noteq> k \<Longrightarrow> owner (snd (acquire s k L)) j = owner L j"
    and release_foreign: "owner L k \<noteq> Some s \<Longrightarrow> owner (snd (release s k L)) k = owner L k"
    and release_own: "owner L k = Some s \<Longrightarrow> owner (snd (release s k L)) k \<in> {None, Some s}"
    and release_elsewhere: "j \<noteq> k \<Longrightarrow> owner (snd (release s k L)) j = owner L j"
begin

lemma acquire_taken: "owner L k = Some t \<Longrightarrow> t \<noteq> s \<Longrightarrow> fst (acquire s k L) \<noteq> None"
  using acquire_granted by fastforce

lemma acquire_keeps_holder: "owner L k = Some t \<Longrightarrow> owner (snd (acquire s k L)) k = Some t"
  using acquire_granted [of s k L] by (auto simp: acquire_owner)

lemma release_keeps_holder: "owner L k = Some t \<Longrightarrow> s \<noteq> t \<Longrightarrow> owner (snd (release s k L)) k = Some t"
  by (simp add: release_foreign)

end

interpretation pgl: lock_manager "Acquire flt deadline" "Release flt" holder for flt deadline
  by unfold_locales
    (auto simp: Acquire_def Release_def holder_def pg_advisory_lock_def pg_advisory_unlock_def
      split: option.splits prod.splits if_splits)

lemma holder_end_sessions:
  "holder (end_sessions ss A) k = (case holder A k of Some s \<Rightarrow> if s \<in> set ss then None else Some s | None \<Rightarrow> None)"
  by (auto simp: holder_def end_sessions_def split: option.splits)

lemma depth_Acquire: "depth_ok A \<Longrightarrow> depth_ok (snd (Acquire flt deadline s k A))"
  by (auto simp: depth_ok_def Acquire_def pg_advisory_lock_def split: option.splits)

lemma depth_Release: "depth_ok A \<Longrightarrow> depth_ok (snd (Release flt s k A))"
  by (auto simp: depth_ok_def Release_def pg_advisory_unlock_def split: option.splits)

text \<open>On one session a release undoes an acquire.\<close>

lemma Acquire_Release:
  assumes "depth_ok A" "fst (Acquire None deadline s k A) = None"
  shows "Release None s k (snd (Acquire None deadline s k A)) = (None, A)"
  using assms
  by (fastforce simp: Acquire_def Release_def pg_advisory_lock_def pg_advisory_unlock_def depth_ok_def fun_eq_iff
      split: option.splits prod.splits if_splits)

lemma Acquire_free: "holder A k = None \<or> holder A k = Some s \<Longrightarrow> fst (Acquire None deadline s k A) = None"
  by (auto simp: Acquire_def pg_advisory_lock_def holder_def split: option.splits)

lemma Acquire_grants:
  assumes "holder A k = None \<or> holder A k = Some s"
  obtains A' where "Acquire None deadline s k A = (None, A')" "holder A' k = Some s"
  using Acquire_free [OF assms, of deadline] pgl.acquire_owner [of None deadline s k A]
  by (cases "Acquire None deadline s k A") simp

section \<open>The goroutine that requeues failed jobs\<close>

text \<open>A tick of the goroutine, which ends when the lock cannot be had. The two calls of the lock manager
  may run on different sessions of the pool.\<close>

record retry_state =
  retry_running :: bool
  retry_locks :: advisory
  retry_table :: enqueued_table

record retry_tick =
  rt_now :: timestamp
  rt_acquire :: session
  rt_release :: session
  rt_acquire_fault :: fault
  rt_mark_fault :: fault
  rt_release_fault :: fault

definition retry_round :: "string \<Rightarrow> retry_tick \<Rightarrow> retry_state \<Rightarrow> retry_state" where
  "retry_round deadline tk S =
     (if \<not> retry_running S then S
      else case Acquire (rt_acquire_fault tk) deadline (rt_acquire tk) RetryLock (retry_locks S) of
             (Some e, A) \<Rightarrow> S\<lparr>retry_running := False, retry_locks := A\<rparr>
           | (None, A) \<Rightarrow>
               S\<lparr>retry_table := snd (MarkRetryFailedJobs (rt_mark_fault tk) (rt_now tk) (retry_table S)),
                 retry_locks := snd (Release (rt_release_fault tk) (rt_release tk) RetryLock A)\<rparr>)"

definition clean_tick :: "retry_tick \<Rightarrow> bool" where
  "clean_tick tk \<longleftrightarrow> rt_acquire_fault tk = None \<and> rt_mark_fault tk = None \<and> rt_release_fault tk = None"

lemma retry_round_same_session:
  assumes "retry_running S" "clean_tick tk" "rt_release tk = rt_acquire tk" "depth_ok (retry_locks S)"
    and "holder (retry_locks S) RetryLock = None \<or> holder (retry_locks S) RetryLock = Some (rt_acquire tk)"
  shows "retry_round deadline tk S =
    S\<lparr>retry_table := snd (MarkRetryFailedJobs None (rt_now tk) (retry_table S))\<rparr>"
proof -
  obtain A where A: "Acquire None deadline (rt_acquire tk) RetryLock (retry_locks S) = (None, A)"
    using assms(5) by (rule Acquire_grants)
  then have "Release None (rt_acquire tk) RetryLock A = (None, retry_locks S)"
    using Acquire_Release [OF assms(4), of deadline "rt_acquire tk" RetryLock] by simp
  with A assms show ?thesis by (simp add: retry_round_def clean_tick_def)
qed

lemma retry_rounds_same_session:
  assumes "retry_running S" "list_all (\<lambda>tk. clean_tick tk \<and> rt_acquire tk = s \<and> rt_release tk = s) ticks"
    and "depth_ok (retry_locks S)" "holder (retry_locks S) RetryLock = None \<or> holder (retry_locks S) RetryLock = Some s"
  shows "fold (retry_round deadline) ticks S =
    S\<lparr>retry_table := fold (\<lambda>tk T. snd (MarkRetryFailedJobs None (rt_now tk) T)) ticks (retry_table S)\<rparr>"
  using assms by (induction ticks arbitrary: S) (simp_all add: retry_round_same_session)

lemma retry_round_locked_out:
  assumes "holder (retry_locks S) RetryLock = Some s" "rt_acquire tk \<noteq> s"
  shows "retry_round deadline tk S = S\<lparr>retry_running := False\<rparr>"
proof -
  have "fst (Acquire (rt_acquire_fault tk) deadline (rt_acquire tk) RetryLock (retry_locks S)) \<noteq> None"
    using pgl.acquire_taken [OF assms(1) assms(2) [symmetric]] by simp
  then show ?thesis
    by (auto simp: retry_round_def Acquire_def split: option.splits prod.splits)
qed

section \<open>Properties\<close>

text \<open>(C36) The goroutine that requeues failed jobs depends on the pool giving both lock calls the same session. As
  long as it does, every tick requeues and leaves the lock as it was. One tick whose release runs on another session reports no
  error and keeps the lock taken, and from then on the first tick of any goroutine, in this process or
  another, that asks on a different session does nothing and ends that goroutine.\<close>

theorem retry_depends_on_session:
  assumes "depth_ok A" "holder A RetryLock = None"
    and "clean_tick leak" "rt_release leak \<noteq> rt_acquire leak"
    and "list_all (\<lambda>tk. clean_tick tk \<and> rt_acquire tk = s \<and> rt_release tk = s) ticks"
  shows "fold (retry_round deadline) ticks \<lparr>retry_running = True, retry_locks = A, retry_table = T\<rparr> =
      \<lparr>retry_running = True, retry_locks = A,
       retry_table = fold (\<lambda>tk T. snd (MarkRetryFailedJobs None (rt_now tk) T)) ticks T\<rparr>
    \<and> (\<exists>B. retry_round deadline leak \<lparr>retry_running = True, retry_locks = A, retry_table = T\<rparr> =
        \<lparr>retry_running = True, retry_locks = B, retry_table = snd (MarkRetryFailedJobs None (rt_now leak) T)\<rparr>
      \<and> holder B RetryLock = Some (rt_acquire leak)
      \<and> (\<forall>tk T'. rt_acquire tk \<noteq> rt_acquire leak \<longrightarrow>
           retry_round deadline tk \<lparr>retry_running = True, retry_locks = B, retry_table = T'\<rparr> =
           \<lparr>retry_running = False, retry_locks = B, retry_table = T'\<rparr>))"
proof (intro conjI)
  show "fold (retry_round deadline) ticks \<lparr>retry_running = True, retry_locks = A, retry_table = T\<rparr> =
      \<lparr>retry_running = True, retry_locks = A,
       retry_table = fold (\<lambda>tk T. snd (MarkRetryFailedJobs None (rt_now tk) T)) ticks T\<rparr>"
    using assms by (subst retry_rounds_same_session) auto
next
  obtain A' where A': "Acquire None deadline (rt_acquire leak) RetryLock A = (None, A')"
    and held: "holder A' RetryLock = Some (rt_acquire leak)"
    using assms(2) by (rule Acquire_grants [OF disjI1])
  define B where "B = snd (Release None (rt_release leak) RetryLock A')"
  have B: "holder B RetryLock = Some (rt_acquire leak)"
    unfolding B_def using pgl.release_keeps_holder [OF held assms(4)] .
  have "retry_round deadline leak \<lparr>retry_running = True, retry_locks = A, retry_table = T\<rparr> =
      \<lparr>retry_running = True, retry_locks = B, retry_table = snd (MarkRetryFailedJobs None (rt_now leak) T)\<rparr>"
    using A' assms(3) by (simp add: retry_round_def clean_tick_def B_def)
  then show "\<exists>B. retry_round deadline leak \<lparr>retry_running = True, retry_locks = A, retry_table = T\<rparr> =
        \<lparr>retry_running = True, retry_locks = B, retry_table = snd (MarkRetryFailedJobs None (rt_now leak) T)\<rparr>
      \<and> holder B RetryLock = Some (rt_acquire leak)
      \<and> (\<forall>tk T'. rt_acquire tk \<noteq> rt_acquire leak \<longrightarrow>
           retry_round deadline tk \<lparr>retry_running = True, retry_locks = B, retry_table = T'\<rparr> =
           \<lparr>retry_running = False, retry_locks = B, retry_table = T'\<rparr>)"
    using B by (intro exI [of _ B]) (simp add: retry_round_locked_out)
qed

definition demo_tick :: "session \<Rightarrow> session \<Rightarrow> retry_tick" where
  "demo_tick s t = \<lparr>rt_now = 9, rt_acquire = s, rt_release = t, rt_acquire_fault = None, rt_mark_fault = None, rt_release_fault = None\<rparr>"

theorem retry_depends_on_session_witness:
  "\<exists>B. retry_round ''late'' (demo_tick 1 2) \<lparr>retry_running = True, retry_locks = Map.empty, retry_table = empty_table\<rparr> =
      \<lparr>retry_running = True, retry_locks = B, retry_table = snd (MarkRetryFailedJobs None 9 empty_table)\<rparr>
    \<and> retry_round ''late'' (demo_tick 3 3) \<lparr>retry_running = True, retry_locks = B, retry_table = empty_table\<rparr> =
      \<lparr>retry_running = False, retry_locks = B, retry_table = empty_table\<rparr>"
proof -
  have "depth_ok Map.empty" "holder Map.empty RetryLock = None" "clean_tick (demo_tick 1 2)"
    "rt_release (demo_tick 1 2) \<noteq> rt_acquire (demo_tick 1 2)"
    "list_all (\<lambda>tk. clean_tick tk \<and> rt_acquire tk = 4 \<and> rt_release tk = 4) [demo_tick 4 4]"
    by (simp_all add: depth_ok_def holder_def clean_tick_def demo_tick_def)
  from retry_depends_on_session [OF this, of "''late''" empty_table] show ?thesis
    by (fastforce simp: demo_tick_def)
qed

end
