(* ===== verification/DbInit.thy ===== *)
theory DbInit
  imports LockManager
begin

text \<open>
  The initialisation of the database (\<^verbatim>\<open>internal/db/init.go\<close> and the scripts in
  \<^verbatim>\<open>internal/db/migrations\<close>): what \<^verbatim>\<open>Init\<close> calls and in which order, what the scripts do to the catalog, and
  several instances that start at the same time. The files of the embedded directory and the failures of the
  calls are arguments.
\<close>

section \<open>Init\<close>

datatype 'c db_call =
    OpenDB string
  | AcquireLock int
  | Ping
  | CreateSchema string
  | ExecScript 'c
  | CloseDB
  | ReleaseLock int

record dir_entry =
  entry_Name :: string
  entry_IsDir :: bool

fun read_entries :: "(string \<Rightarrow> 'c result) \<Rightarrow> dir_entry list \<Rightarrow> 'c list result" where
  "read_entries ReadFile [] = Inr []"
| "read_entries ReadFile (entry # entries) =
     (if entry_IsDir entry then read_entries ReadFile entries
      else case ReadFile (''migrations/'' @ entry_Name entry) of
             Inl e \<Rightarrow> Inl e
           | Inr content \<Rightarrow> map_sum id (Cons content) (read_entries ReadFile entries))"

definition readSQLScripts :: "(string \<Rightarrow> dir_entry list result) \<Rightarrow> (string \<Rightarrow> 'c result) \<Rightarrow> 'c list result" where
  "readSQLScripts ReadDir ReadFile =
     (case ReadDir ''migrations'' of Inl e \<Rightarrow> Inl e | Inr entries \<Rightarrow> read_entries ReadFile entries)"

definition schema :: string where "schema = ''gofire_schema''"

text \<open>\<open>err n c\<close> is the error of the call \<open>c\<close> when it is the \<open>n\<close>-th of the run.\<close>

fun exec_scripts :: "(nat \<Rightarrow> 'c db_call \<Rightarrow> fault) \<Rightarrow> nat \<Rightarrow> 'c list \<Rightarrow> fault \<times> 'c db_call list" where
  "exec_scripts err n [] = (None, [])"
| "exec_scripts err n (script # scripts) =
     (case err n (ExecScript script) of
        Some e \<Rightarrow> (Some e, [ExecScript script])
      | None \<Rightarrow> (case exec_scripts err (n + 1) scripts of (r, calls) \<Rightarrow> (r, ExecScript script # calls)))"

definition migrate :: "(nat \<Rightarrow> 'c db_call \<Rightarrow> fault) \<Rightarrow> 'c list result \<Rightarrow> fault \<times> 'c db_call list" where
  "migrate err read =
     (case err 3 (CreateSchema schema) of
        Some e \<Rightarrow> (Some e, [CreateSchema schema])
      | None \<Rightarrow>
          (case read of
             Inl e \<Rightarrow> (Some e, [CreateSchema schema])
           | Inr scripts \<Rightarrow> (case exec_scripts err 4 scripts of (r, calls) \<Rightarrow> (r, CreateSchema schema # calls))))"

text \<open>The deferred calls run in the reverse order of their \<^verbatim>\<open>defer\<close> statements; their errors are only logged.\<close>

definition Init :: "(nat \<Rightarrow> 'c db_call \<Rightarrow> fault) \<Rightarrow> 'c list result \<Rightarrow> string \<Rightarrow> fault \<times> 'c db_call list" where
  "Init err read postgresURL =
     (case err 0 (OpenDB postgresURL) of
        Some e \<Rightarrow> (Some e, [OpenDB postgresURL])
      | None \<Rightarrow>
          (case err 1 (AcquireLock MigrationLock) of
             Some e \<Rightarrow> (Some e, [OpenDB postgresURL, AcquireLock MigrationLock])
           | None \<Rightarrow>
               (case err 2 Ping of
                  Some e \<Rightarrow> (Some e, [OpenDB postgresURL, AcquireLock MigrationLock, Ping, ReleaseLock MigrationLock])
                | None \<Rightarrow>
                    (case migrate err read of
                       (r, calls) \<Rightarrow>
                         (r, [OpenDB postgresURL, AcquireLock MigrationLock, Ping] @ calls
                             @ [CloseDB, ReleaseLock MigrationLock])))))"

section \<open>The scripts\<close>

text \<open>Tables and indexes share the name space of their schema. With \<^verbatim>\<open>IF NOT EXISTS\<close> a statement that meets a relation
  of the name, of either kind, does nothing; an index goes to the schema of its table.\<close>

type_synonym qname = "string \<times> string"

datatype relation = Table | Index qname "string list"

record catalog =
  schemas :: "string list"
  relations :: "qname \<rightharpoonup> relation"

datatype ddl = CreateTable qname | CreateIndex string qname "string list"

definition add_relation :: "qname \<Rightarrow> relation \<Rightarrow> catalog \<Rightarrow> catalog" where
  "add_relation q r C = (if relations C q = None then C\<lparr>relations := (relations C)(q \<mapsto> r)\<rparr> else C)"

fun exec_ddl :: "ddl \<Rightarrow> catalog \<Rightarrow> catalog option" where
  "exec_ddl (CreateTable q) C =
     (if fst q \<in> set (schemas C) then Some (add_relation q Table C) else None)"
| "exec_ddl (CreateIndex n q cols) C =
     (if relations C q = Some Table then Some (add_relation (fst q, n) (Index q cols) C) else None)"

text \<open>The statements of one script are one transaction.\<close>

fun exec_script :: "ddl list \<Rightarrow> catalog \<Rightarrow> catalog option" where
  "exec_script [] C = Some C"
| "exec_script (d # ds) C = (case exec_ddl d C of None \<Rightarrow> None | Some C' \<Rightarrow> exec_script ds C')"

definition cron_jobs_sql :: "ddl list" where
  "cron_jobs_sql =
     [CreateTable (schema, ''cron_jobs''),
      CreateIndex ''idx_jobs_status'' (schema, ''cron_jobs'') [''status''],
      CreateIndex ''idx_jobs_next_run_at'' (schema, ''cron_jobs'') [''next_run_at'']]"

definition enqueued_jobs_sql :: "ddl list" where
  "enqueued_jobs_sql =
     [CreateTable (schema, ''enqueued_jobs''),
      CreateIndex ''idx_jobs_status_scheduled_at'' (schema, ''enqueued_jobs'') [''status'', ''scheduled_at''],
      CreateIndex ''idx_jobs_scheduled_at'' (schema, ''enqueued_jobs'') [''scheduled_at'']]"

text \<open>This script names no schema: the relations go to the first schema of the search path.\<close>

definition gofire_schema_state_sql :: "string \<Rightarrow> ddl list" where
  "gofire_schema_state_sql path =
     [CreateTable (path, ''gofire_schema_state''),
      CreateIndex ''gofire_schema_state'' (path, ''gofire_schema_state'') [''job_id'']]"

definition gofire_schema_users_sql :: "ddl list" where
  "gofire_schema_users_sql = [CreateTable (schema, ''users'')]"

text \<open>\<^verbatim>\<open>ReadDir\<close> lists the embedded files by name.\<close>

definition migrations :: "string \<Rightarrow> ddl list list" where
  "migrations path = [cron_jobs_sql, enqueued_jobs_sql, gofire_schema_state_sql path, gofire_schema_users_sql]"

lemmas migration_defs = migrations_def cron_jobs_sql_def enqueued_jobs_sql_def gofire_schema_state_sql_def
  gofire_schema_users_sql_def

definition create_schema :: "string \<Rightarrow> catalog \<Rightarrow> catalog" where
  "create_schema s C = (if s \<in> set (schemas C) then C else C\<lparr>schemas := schemas C @ [s]\<rparr>)"

text \<open>The effect of a call on the catalog, \<^const>\<open>None\<close> when the server refuses it.\<close>

fun call_effect :: "ddl list db_call \<Rightarrow> catalog \<Rightarrow> catalog option" where
  "call_effect (CreateSchema s) C = Some (create_schema s C)"
| "call_effect (ExecScript ds) C = exec_script ds C"
| "call_effect _ C = Some C"

section \<open>Lemmas on Init\<close>

lemma exec_scripts_calls:
  assumes "exec_scripts err n scripts = (r, calls)"
  shows "\<exists>k. k \<le> length scripts \<and> calls = map ExecScript (take k scripts) \<and> (r = None \<longrightarrow> k = length scripts)"
  using assms
proof (induction scripts arbitrary: n r calls)
  case (Cons script scripts)
  show ?case
  proof (cases "err n (ExecScript script)")
    case None
    then obtain cs where cs: "exec_scripts err (n + 1) scripts = (r, cs)" "calls = ExecScript script # cs"
      using Cons.prems by (auto split: prod.splits)
    from Cons.IH [OF cs(1)] obtain k where "k \<le> length scripts" "cs = map ExecScript (take k scripts)"
      "r = None \<longrightarrow> k = length scripts" by blast
    with cs(2) show ?thesis by (intro exI [of _ "Suc k"]) simp
  next
    case (Some e)
    with Cons.prems show ?thesis by (intro exI [of _ 1]) auto
  qed
qed simp

lemma exec_scripts_ok: "(\<And>m script. err m (ExecScript script) = None) \<Longrightarrow> exec_scripts err n scripts = (None, map ExecScript scripts)"
  by (induction scripts arbitrary: n) simp_all

section \<open>Lemmas on the catalog\<close>

definition grows :: "catalog \<Rightarrow> catalog \<Rightarrow> bool" where
  "grows C D \<longleftrightarrow> set (schemas C) \<subseteq> set (schemas D) \<and> relations C \<subseteq>\<^sub>m relations D"

lemma grows_refl [simp]: "grows C C"
  by (simp add: grows_def)

lemma grows_trans: "grows C D \<Longrightarrow> grows D E \<Longrightarrow> grows C E"
  using map_le_trans by (auto simp: grows_def)

lemma grows_add: "grows C (add_relation q r C)"
  by (auto simp: grows_def add_relation_def map_le_def)

lemma add_relation_there: "relations C q \<noteq> None \<Longrightarrow> add_relation q r C = C"
  by (auto simp: add_relation_def)

lemma add_relation_in: "relations (add_relation q r C) q \<noteq> None"
  by (auto simp: add_relation_def)

lemma grows_relation: "grows C D \<Longrightarrow> relations C q \<noteq> None \<Longrightarrow> relations D q = relations C q"
  by (metis grows_def map_le_def domIff)

lemma exec_ddl_grows: "exec_ddl d C = Some C' \<Longrightarrow> grows C C'"
  by (cases d) (auto simp: grows_add split: if_splits)

lemma exec_ddl_again:
  assumes "exec_ddl d C = Some C'" "grows C' D"
  shows "exec_ddl d D = Some D"
proof -
  have "grows C D" using exec_ddl_grows [OF assms(1)] assms(2) by (rule grows_trans)
  note there = grows_relation [OF this] grows_relation [OF assms(2)]
  show ?thesis
  proof (cases d)
    case (CreateTable q)
    then have "fst q \<in> set (schemas D)" "C' = add_relation q Table C"
      using assms(1) \<open>grows C D\<close> by (auto simp: grows_def split: if_splits)
    with CreateTable show ?thesis using there add_relation_in by (simp add: add_relation_there)
  next
    case (CreateIndex n q cols)
    then have "relations C q = Some Table" "C' = add_relation (fst q, n) (Index q cols) C"
      using assms(1) by (auto split: if_splits)
    with CreateIndex show ?thesis using there add_relation_in by (simp add: add_relation_there)
  qed
qed

lemma exec_script_grows: "exec_script ds C = Some C' \<Longrightarrow> grows C C'"
  by (induction ds arbitrary: C) (auto split: option.splits dest: exec_ddl_grows intro: grows_trans)

lemma exec_script_again:
  assumes "exec_script ds C = Some C'" "grows C' D"
  shows "exec_script ds D = Some D"
  using assms(1)
proof (induction ds arbitrary: C)
  case (Cons d ds)
  then obtain C1 where C1: "exec_ddl d C = Some C1" "exec_script ds C1 = Some C'" by (auto split: option.splits)
  then have "grows C1 D" using exec_script_grows assms(2) by (blast intro: grows_trans)
  then show ?case using Cons.IH [OF C1(2)] exec_ddl_again [OF C1(1)] by simp
qed simp

lemma grows_create_schema: "grows C (create_schema s C)"
  by (auto simp: grows_def create_schema_def)

lemma call_effect_grows: "call_effect c C = Some C' \<Longrightarrow> grows C C'"
  by (cases c) (auto simp: grows_create_schema dest: exec_script_grows)

text \<open>A script is done when running it again changes nothing; it stays done.\<close>

definition script_done :: "catalog \<Rightarrow> ddl list \<Rightarrow> bool" where
  "script_done C ds \<longleftrightarrow> exec_script ds C = Some C"

lemma script_done_grows: "script_done C ds \<Longrightarrow> grows C D \<Longrightarrow> script_done D ds"
  unfolding script_done_def by (rule exec_script_again)

lemma script_done_exec: "exec_script ds C = Some C' \<Longrightarrow> script_done C' ds"
  by (auto simp: script_done_def intro: exec_script_again)

section \<open>Init as a machine\<close>

text \<open>The same run one call at a time, so that several instances can be interleaved.\<close>

datatype 'c init_pc =
    AtOpen
  | AtAcquire
  | AtPing
  | AtSchema
  | AtScripts 'c "'c list"
  | AtClose fault
  | AtRelease fault
  | Returned fault

fun at_scripts :: "'c list \<Rightarrow> 'c init_pc" where
  "at_scripts [] = AtClose None"
| "at_scripts (s # ss) = AtScripts s ss"

fun next_call :: "string \<Rightarrow> 'c init_pc \<Rightarrow> 'c db_call option" where
  "next_call url AtOpen = Some (OpenDB url)"
| "next_call url AtAcquire = Some (AcquireLock MigrationLock)"
| "next_call url AtPing = Some Ping"
| "next_call url AtSchema = Some (CreateSchema schema)"
| "next_call url (AtScripts s ss) = Some (ExecScript s)"
| "next_call url (AtClose r) = Some CloseDB"
| "next_call url (AtRelease r) = Some (ReleaseLock MigrationLock)"
| "next_call url (Returned r) = None"

fun advance :: "'c list result \<Rightarrow> 'c init_pc \<Rightarrow> fault \<Rightarrow> 'c init_pc" where
  "advance read AtOpen r = (case r of Some e \<Rightarrow> Returned (Some e) | None \<Rightarrow> AtAcquire)"
| "advance read AtAcquire r = (case r of Some e \<Rightarrow> Returned (Some e) | None \<Rightarrow> AtPing)"
| "advance read AtPing r = (case r of Some e \<Rightarrow> AtRelease (Some e) | None \<Rightarrow> AtSchema)"
| "advance read AtSchema r =
     (case r of
        Some e \<Rightarrow> AtClose (Some e)
      | None \<Rightarrow> (case read of Inl e \<Rightarrow> AtClose (Some e) | Inr scripts \<Rightarrow> at_scripts scripts))"
| "advance read (AtScripts s ss) r = (case r of Some e \<Rightarrow> AtClose (Some e) | None \<Rightarrow> at_scripts ss)"
| "advance read (AtClose ret) r = AtRelease ret"
| "advance read (AtRelease ret) r = Returned ret"
| "advance read (Returned ret) r = Returned ret"

fun steps_left :: "'c list result \<Rightarrow> 'c init_pc \<Rightarrow> nat" where
  "steps_left read AtOpen = 7 + (case read of Inr ss \<Rightarrow> length ss | Inl _ \<Rightarrow> 0)"
| "steps_left read AtAcquire = 6 + (case read of Inr ss \<Rightarrow> length ss | Inl _ \<Rightarrow> 0)"
| "steps_left read AtPing = 5 + (case read of Inr ss \<Rightarrow> length ss | Inl _ \<Rightarrow> 0)"
| "steps_left read AtSchema = 4 + (case read of Inr ss \<Rightarrow> length ss | Inl _ \<Rightarrow> 0)"
| "steps_left read (AtScripts s ss) = 3 + length ss"
| "steps_left read (AtClose r) = 2"
| "steps_left read (AtRelease r) = 1"
| "steps_left read (Returned r) = 0"

lemma steps_left_at_scripts [simp]: "steps_left read (at_scripts ss) = 2 + length ss"
  by (cases ss) simp_all

lemma steps_left_advance: "next_call url pc = Some c \<Longrightarrow> steps_left read (advance read pc r) < steps_left read pc"
  by (cases pc) (auto split: option.splits sum.splits)

function machine_run :: "(nat \<Rightarrow> 'c db_call \<Rightarrow> fault) \<Rightarrow> 'c list result \<Rightarrow> string \<Rightarrow> nat \<Rightarrow> 'c init_pc \<Rightarrow> 'c init_pc \<times> 'c db_call list" where
  "machine_run err read url n pc =
     (case next_call url pc of
        None \<Rightarrow> (pc, [])
      | Some c \<Rightarrow> (case machine_run err read url (n + 1) (advance read pc (err n c)) of (pc', calls) \<Rightarrow> (pc', c # calls)))"
  by pat_completeness auto
termination
  by (relation "measure (\<lambda>(err, read, url, n, pc). steps_left read pc)") (simp_all add: steps_left_advance)

declare machine_run.simps [simp del]

lemmas machine_unfold = machine_run.simps [of _ _ _ _ AtOpen] machine_run.simps [of _ _ _ _ AtAcquire]
  machine_run.simps [of _ _ _ _ AtPing] machine_run.simps [of _ _ _ _ AtSchema]
  machine_run.simps [of _ _ _ _ "AtScripts _ _"] machine_run.simps [of _ _ _ _ "AtClose _"]
  machine_run.simps [of _ _ _ _ "AtRelease _"] machine_run.simps [of _ _ _ _ "Returned _"]

lemma machine_scripts:
  "machine_run err read url n (at_scripts scripts) =
     (case exec_scripts err n scripts of (r, calls) \<Rightarrow> (Returned r, calls @ [CloseDB, ReleaseLock MigrationLock]))"
  by (induction scripts arbitrary: n) (auto simp: machine_unfold split: option.splits prod.splits)

lemma Init_machine:
  "machine_run err read url 0 AtOpen = (case Init err read url of (r, calls) \<Rightarrow> (Returned r, calls))"
  by (auto simp: machine_unfold machine_scripts Init_def migrate_def eval_nat_numeral
      split: option.splits sum.splits prod.splits)

section \<open>Instances that start together\<close>

text \<open>Each process has its own pool; \<open>pool_of\<close> tells whose a session is. The steps of the processes interleave
  in any order, any call may fail, and any session may end at any time. \<open>boot_lost\<close> collects the processes
  whose session had the lock and ended while they were migrating; they do not notice it.\<close>

record boot =
  pcs :: "nat \<Rightarrow> ddl list init_pc"
  boot_locks :: advisory
  boot_catalog :: catalog
  boot_lost :: "nat set"

fun inside :: "'c init_pc \<Rightarrow> bool" where
  "inside AtOpen = False"
| "inside AtAcquire = False"
| "inside (Returned r) = False"
| "inside _ = True"

fun lock_call :: "'c db_call \<Rightarrow> bool" where
  "lock_call (AcquireLock k) = True"
| "lock_call (ReleaseLock k) = True"
| "lock_call _ = False"

inductive boot_step :: "(session \<Rightarrow> nat) \<Rightarrow> string \<Rightarrow> ddl list list result \<Rightarrow> boot \<Rightarrow> boot \<Rightarrow> bool"
  for pool_of url read where
  call_ok: "next_call url (pcs B p) = Some c \<Longrightarrow> \<not> lock_call c \<Longrightarrow> call_effect c (boot_catalog B) = Some C
    \<Longrightarrow> boot_step pool_of url read B (B\<lparr>pcs := (pcs B)(p := advance read (pcs B p) None), boot_catalog := C\<rparr>)"
| call_fails: "next_call url (pcs B p) = Some c \<Longrightarrow> \<not> lock_call c
    \<Longrightarrow> boot_step pool_of url read B (B\<lparr>pcs := (pcs B)(p := advance read (pcs B p) (Some e))\<rparr>)"
| acquire: "pcs B p = AtAcquire \<Longrightarrow> pool_of s = p \<Longrightarrow> Acquire flt deadline s MigrationLock (boot_locks B) = (r, A)
    \<Longrightarrow> boot_step pool_of url read B (B\<lparr>pcs := (pcs B)(p := advance read (pcs B p) r), boot_locks := A\<rparr>)"
| release: "pcs B p = AtRelease ret \<Longrightarrow> pool_of s = p \<Longrightarrow> Release flt s MigrationLock (boot_locks B) = (r, A)
    \<Longrightarrow> boot_step pool_of url read B (B\<lparr>pcs := (pcs B)(p := advance read (pcs B p) r), boot_locks := A\<rparr>)"
| session_ends: "boot_step pool_of url read B (B\<lparr>boot_locks := end_sessions [s] (boot_locks B), boot_lost :=
      if holder (boot_locks B) MigrationLock = Some s \<and> inside (pcs B (pool_of s))
      then insert (pool_of s) (boot_lost B) else boot_lost B\<rparr>)"

definition boot_initial :: "boot \<Rightarrow> bool" where
  "boot_initial B \<longleftrightarrow> (\<forall>p. pcs B p = AtOpen) \<and> boot_lost B = {}"

inductive boot_steps :: "(session \<Rightarrow> nat) \<Rightarrow> string \<Rightarrow> ddl list list result \<Rightarrow> boot \<Rightarrow> boot \<Rightarrow> bool"
  for pool_of url read where
  boot_refl: "boot_steps pool_of url read B B"
| boot_next: "boot_steps pool_of url read B B' \<Longrightarrow> boot_step pool_of url read B' B'' \<Longrightarrow> boot_steps pool_of url read B B''"

text \<open>A process inside has the lock through one of its sessions, unless that session was lost.\<close>

definition inside_holds :: "(session \<Rightarrow> nat) \<Rightarrow> boot \<Rightarrow> bool" where
  "inside_holds pool_of B \<longleftrightarrow>
     (\<forall>p. inside (pcs B p) \<longrightarrow> p \<notin> boot_lost B \<longrightarrow> (\<exists>s. holder (boot_locks B) MigrationLock = Some s \<and> pool_of s = p))"

lemma inside_at_scripts [simp]: "inside (at_scripts ss)"
  by (cases ss) simp_all

lemma inside_advance:
  assumes "next_call url pc = Some c" "\<not> lock_call c"
  shows "inside (advance read pc r) = inside pc"
  using assms by (cases pc) (auto split: option.splits sum.splits)

lemma inside_holds_step:
  assumes "boot_step pool_of url read B B'" "inside_holds pool_of B"
  shows "inside_holds pool_of B'"
  using assms
proof cases
  case (call_ok p c C)
  then show ?thesis using assms(2) by (auto simp: inside_holds_def inside_advance)
next
  case (call_fails p c e)
  then show ?thesis using assms(2) by (auto simp: inside_holds_def inside_advance)
next
  case (acquire p s flt deadline r A)
  note own = pgl.acquire_owner [of flt deadline s MigrationLock "boot_locks B"]
  show ?thesis
  proof (cases r)
    case None
    then have "inside (pcs B q) \<Longrightarrow> q \<notin> boot_lost B \<Longrightarrow> q = p" for q
      using pgl.acquire_granted [of flt deadline s MigrationLock "boot_locks B"] acquire assms(2)
      by (fastforce simp: inside_holds_def)
    with None acquire own show ?thesis by (auto simp: inside_holds_def)
  next
    case (Some e)
    with acquire own assms(2) show ?thesis by (auto simp: inside_holds_def)
  qed
next
  case (release p ret s flt r A)
  have "inside (pcs B q) \<Longrightarrow> q \<notin> boot_lost B \<Longrightarrow> q \<noteq> p \<Longrightarrow> \<exists>t. holder A MigrationLock = Some t \<and> pool_of t = q" for q
    using pgl.release_keeps_holder [of "boot_locks B" MigrationLock _ s flt] release assms(2)
    by (fastforce simp: inside_holds_def)
  with release show ?thesis by (auto simp: inside_holds_def)
next
  case (session_ends s)
  show ?thesis unfolding inside_holds_def
  proof (intro allI impI)
    fix p assume p: "inside (pcs B' p)" "p \<notin> boot_lost B'"
    with session_ends have "inside (pcs B p)" "p \<notin> boot_lost B" by (auto split: if_splits)
    then obtain t where t: "holder (boot_locks B) MigrationLock = Some t" "pool_of t = p"
      using assms(2) unfolding inside_holds_def by blast
    then have "t \<noteq> s" using p session_ends by auto
    then show "\<exists>t. holder (boot_locks B') MigrationLock = Some t \<and> pool_of t = p"
      using t session_ends by (intro exI [of _ t]) (simp add: holder_end_sessions)
  qed
qed

lemma inside_holds_steps:
  "boot_steps pool_of url read B B' \<Longrightarrow> inside_holds pool_of B \<Longrightarrow> inside_holds pool_of B'"
  by (induction rule: boot_steps.induct) (auto intro: inside_holds_step)

lemma inside_holds_initial: "boot_initial B \<Longrightarrow> inside_holds pool_of B"
  by (simp add: boot_initial_def inside_holds_def)

text \<open>What a process has done by a point of its run.\<close>

fun progress :: "ddl list list \<Rightarrow> catalog \<Rightarrow> ddl list init_pc \<Rightarrow> bool" where
  "progress scripts C (AtScripts s ss) \<longleftrightarrow> (\<exists>pre. scripts = pre @ s # ss \<and> list_all (script_done C) pre)"
| "progress scripts C (AtClose r) \<longleftrightarrow> (r = None \<longrightarrow> list_all (script_done C) scripts)"
| "progress scripts C (AtRelease r) \<longleftrightarrow> (r = None \<longrightarrow> list_all (script_done C) scripts)"
| "progress scripts C (Returned r) \<longleftrightarrow> (r = None \<longrightarrow> list_all (script_done C) scripts)"
| "progress scripts C _ \<longleftrightarrow> True"

lemma list_done_grows: "list_all (script_done C) ss \<Longrightarrow> grows C D \<Longrightarrow> list_all (script_done D) ss"
  by (auto simp: list_all_iff intro: script_done_grows)

lemma progress_grows: "progress scripts C pc \<Longrightarrow> grows C D \<Longrightarrow> progress scripts D pc"
  by (cases pc) (auto intro: list_done_grows)

lemma progress_at_scripts:
  "scripts = pre @ ss \<Longrightarrow> list_all (script_done C) pre \<Longrightarrow> progress scripts C (at_scripts ss)"
  by (cases ss) auto

lemma progress_fails: "progress scripts C pc \<Longrightarrow> progress scripts C (advance (Inr scripts) pc (Some e))"
  by (cases pc) auto

lemma progress_ok:
  assumes "progress scripts C pc" "next_call url pc = Some c" "call_effect c C = Some D" "\<not> lock_call c"
  shows "progress scripts D (advance (Inr scripts) pc None)"
proof (cases pc)
  case (AtScripts s ss)
  then obtain pre where pre: "scripts = pre @ s # ss" "list_all (script_done C) pre" "exec_script s C = Some D"
    using assms by auto
  then have "list_all (script_done D) (pre @ [s])"
    by (auto intro: list_done_grows exec_script_grows script_done_exec)
  with pre(1) AtScripts show ?thesis using progress_at_scripts [of scripts "pre @ [s]" ss D] by simp
qed (use assms progress_at_scripts [of scripts "[]" scripts D] in auto)

lemma boot_step_grows: "boot_step pool_of url read B B' \<Longrightarrow> grows (boot_catalog B) (boot_catalog B')"
  by (cases rule: boot_step.cases) (auto dest: call_effect_grows)

lemma progress_step:
  assumes "boot_step pool_of url (Inr scripts) B B'" "\<forall>p. progress scripts (boot_catalog B) (pcs B p)"
  shows "\<forall>p. progress scripts (boot_catalog B') (pcs B' p)"
  using assms
proof cases
  case (call_ok p c C)
  then show ?thesis using assms(2) progress_ok progress_grows call_effect_grows by fastforce
next
  case (call_fails p c e)
  then show ?thesis using assms(2) progress_fails by fastforce
next
  case (acquire p s flt deadline r A)
  then show ?thesis using assms(2) by (auto split: option.splits)
next
  case (release p ret s flt r A)
  with assms(2) have "progress scripts (boot_catalog B) (AtRelease ret)" by metis
  with release assms(2) show ?thesis by auto
qed simp

lemma progress_steps:
  "boot_steps pool_of url (Inr scripts) B B' \<Longrightarrow> \<forall>p. progress scripts (boot_catalog B) (pcs B p)
    \<Longrightarrow> \<forall>p. progress scripts (boot_catalog B') (pcs B' p)"
  by (induction rule: boot_steps.induct) (auto dest: progress_step)

text \<open>What the points of a run tell of its calls.\<close>

fun script_calls :: "ddl list list \<Rightarrow> ddl list init_pc \<Rightarrow> bool" where
  "script_calls scripts (AtScripts s ss) \<longleftrightarrow> set (s # ss) \<subseteq> set scripts"
| "script_calls scripts _ \<longleftrightarrow> True"

lemma script_calls_at_scripts: "set ss \<subseteq> set scripts \<Longrightarrow> script_calls scripts (at_scripts ss)"
  by (cases ss) auto

lemma script_calls_advance: "script_calls scripts pc \<Longrightarrow> script_calls scripts (advance (Inr scripts) pc r)"
  by (cases pc) (auto simp: script_calls_at_scripts split: option.splits)

lemma script_calls_steps:
  "boot_steps pool_of url (Inr scripts) B B' \<Longrightarrow> \<forall>p. script_calls scripts (pcs B p) \<Longrightarrow> \<forall>p. script_calls scripts (pcs B' p)"
proof (induction rule: boot_steps.induct)
  case (boot_next B B' B'')
  from boot_next.hyps(2) show ?case
    by cases (use boot_next.IH [OF boot_next.prems] in \<open>simp_all add: script_calls_advance del: advance.simps\<close>)
qed simp

lemma schema_grows: "grows C D \<Longrightarrow> s \<in> set (schemas C) \<Longrightarrow> s \<in> set (schemas D)"
  by (auto simp: grows_def)

text \<open>With all scripts done and the schema there, no call changes the catalog.\<close>

lemma call_effect_done:
  assumes "list_all (script_done C) scripts" "schema \<in> set (schemas C)" "script_calls scripts pc"
    and "next_call url pc = Some c" "call_effect c C = Some D"
  shows "D = C"
  using assms by (cases pc) (auto simp: create_schema_def script_done_def list_all_iff)

lemma boot_catalog_stays:
  assumes "boot_steps pool_of url (Inr scripts) B B'" "\<forall>p. script_calls scripts (pcs B p)"
    and "list_all (script_done (boot_catalog B)) scripts" "schema \<in> set (schemas (boot_catalog B))"
  shows "boot_catalog B' = boot_catalog B"
  using assms
proof (induction rule: boot_steps.induct)
  case (boot_next B B' B'')
  have calls: "\<forall>p. script_calls scripts (pcs B' p)"
    using script_calls_steps [OF boot_next.hyps(1)] boot_next.prems by blast
  from boot_next.hyps(2) show ?case
  proof cases
    case (call_ok p c C)
    moreover have "script_calls scripts (pcs B' p)" using calls by blast
    ultimately have "C = boot_catalog B'"
      using call_effect_done boot_next.IH [OF boot_next.prems] boot_next.prems by metis
    with call_ok boot_next.IH [OF boot_next.prems] show ?thesis by simp
  qed (use boot_next.IH [OF boot_next.prems] in simp_all)
qed simp

lemma exec_script_statements:
  assumes "exec_script ds C = Some C'" "d \<in> set ds"
  shows "exec_ddl d C' = Some C'"
  using assms
proof (induction ds arbitrary: C)
  case (Cons d' ds)
  then obtain C1 where C1: "exec_ddl d' C = Some C1" "exec_script ds C1 = Some C'" by (auto split: option.splits)
  show ?case
  proof (cases "d \<in> set ds")
    case True
    then show ?thesis using Cons.IH [OF C1(2)] by simp
  next
    case False
    then show ?thesis using exec_ddl_again [OF C1(1) exec_script_grows [OF C1(2)]] Cons.prems by simp
  qed
qed simp

lemma script_done_table:
  assumes "script_done C ds" "CreateTable q \<in> set ds"
  shows "relations C q \<noteq> None" "fst q \<in> set (schemas C)"
  using exec_script_statements [of ds C C "CreateTable q"] assms add_relation_in [of q Table C]
  by (auto simp: script_done_def split: if_splits)

lemma script_done_indexed:
  assumes "script_done C ds" "CreateIndex n q cols \<in> set ds"
  shows "relations C q = Some Table"
  using exec_script_statements [of ds C C "CreateIndex n q cols"] assms by (auto simp: script_done_def split: if_splits)

text \<open>The schema after the migrations; the relation \<^verbatim>\<open>gofire_schema_state\<close> is the table, so the index of that name
  is never made.\<close>

definition schema_complete :: "string \<Rightarrow> catalog \<Rightarrow> bool" where
  "schema_complete path C \<longleftrightarrow> schema \<in> set (schemas C)
     \<and> relations C (schema, ''cron_jobs'') = Some Table \<and> relations C (schema, ''enqueued_jobs'') = Some Table
     \<and> relations C (schema, ''users'') \<noteq> None \<and> relations C (path, ''gofire_schema_state'') = Some Table"

lemma migrations_complete:
  assumes "list_all (script_done C) (migrations path)"
  shows "schema_complete path C"
proof -
  have d: "script_done C cron_jobs_sql" "script_done C enqueued_jobs_sql"
    "script_done C (gofire_schema_state_sql path)" "script_done C gofire_schema_users_sql"
    using assms by (simp_all add: migrations_def)
  have "relations C (schema, ''cron_jobs'') = Some Table"
    by (rule script_done_indexed [OF d(1), of "''idx_jobs_status''" _ "[''status'']"]) (simp add: migration_defs)
  moreover have "relations C (schema, ''enqueued_jobs'') = Some Table"
    by (rule script_done_indexed [OF d(2), of "''idx_jobs_scheduled_at''" _ "[''scheduled_at'']"]) (simp add: migration_defs)
  moreover have "relations C (path, ''gofire_schema_state'') = Some Table"
    by (rule script_done_indexed [OF d(3), of "''gofire_schema_state''" _ "[''job_id'']"]) (simp add: migration_defs)
  moreover have "relations C (schema, ''users'') \<noteq> None"
    by (rule script_done_table [OF d(4)]) (simp add: migration_defs)
  moreover have "fst (schema, ''users'') \<in> set (schemas C)"
    by (rule script_done_table [OF d(4)]) (simp add: migration_defs)
  ultimately show ?thesis by (simp add: schema_complete_def)
qed

text \<open>The deferred calls: the lock is released last whenever it was had; the handle is closed only
  when the database answered.\<close>

lemma Init_deferred:
  assumes "Init err read url = (r, calls)"
  shows "ReleaseLock MigrationLock \<in> set calls \<longleftrightarrow> err 0 (OpenDB url) = None \<and> err 1 (AcquireLock MigrationLock) = None"
    and "ReleaseLock MigrationLock \<in> set calls \<Longrightarrow> last calls = ReleaseLock MigrationLock"
    and "CloseDB \<in> set calls \<longleftrightarrow> ReleaseLock MigrationLock \<in> set calls \<and> err 2 Ping = None"
proof -
  have mig: "ReleaseLock k \<notin> set (snd (migrate err read))" "CloseDB \<notin> set (snd (migrate err read))" for k
    using exec_scripts_calls [of err 4]
    by (fastforce simp: migrate_def split: option.splits sum.splits prod.splits)+
  show "ReleaseLock MigrationLock \<in> set calls \<longleftrightarrow> err 0 (OpenDB url) = None \<and> err 1 (AcquireLock MigrationLock) = None"
    "ReleaseLock MigrationLock \<in> set calls \<Longrightarrow> last calls = ReleaseLock MigrationLock"
    "CloseDB \<in> set calls \<longleftrightarrow> ReleaseLock MigrationLock \<in> set calls \<and> err 2 Ping = None"
    using assms mig by (auto simp: Init_def split: option.splits prod.splits)
qed

section \<open>Properties\<close>

text \<open>(C15) Only one instance migrates at a time. Each run of the migration makes the calls of \<^verbatim>\<open>Init\<close> in their order,
  and however the runs of several processes interleave, whatever calls fail, whichever sessions of its
  pool a process uses and whichever sessions end, of the processes whose session with the lock has not been lost under
  them at most one is between having got the migration lock and giving it back, and
  meanwhile every attempt of another process to get the lock fails. A process that loses the session goes
  on migrating without the lock.\<close>

theorem migrations_exclusive:
  assumes "boot_initial B0" "boot_steps pool_of url read B0 B" "inside (pcs B p)" "p \<notin> boot_lost B"
  shows "machine_run err read url 0 AtOpen = (case Init err read url of (r, calls) \<Rightarrow> (Returned r, calls))
    \<and> (\<forall>q. inside (pcs B q) \<longrightarrow> q \<notin> boot_lost B \<longrightarrow> q = p)
    \<and> (\<forall>flt deadline s. pool_of s \<noteq> p \<longrightarrow> fst (Acquire flt deadline s MigrationLock (boot_locks B)) \<noteq> None)"
proof -
  have inv: "inside_holds pool_of B"
    using inside_holds_steps [OF assms(2) inside_holds_initial [OF assms(1)]] .
  then obtain t where t: "holder (boot_locks B) MigrationLock = Some t" "pool_of t = p"
    using assms(3,4) by (auto simp: inside_holds_def)
  have "fst (Acquire flt deadline s MigrationLock (boot_locks B)) \<noteq> None" if "pool_of s \<noteq> p" for flt deadline s
    using pgl.acquire_taken [OF t(1), of s flt deadline] that t(2) by auto
  moreover have "q = p" if "inside (pcs B q)" "q \<notin> boot_lost B" for q using inv t that by (auto simp: inside_holds_def)
  ultimately show ?thesis by (simp add: Init_machine)
qed

text \<open>(C34) A process whose initialisation returned no error finds the schema complete: the tables of the two job stores and
  of the users are there. It stays so: no later step of any process, a repeated migration included, changes the catalog. The state table
  is there too, but never has its index, whose name the table has taken.\<close>

theorem Init_completes_schema:
  assumes "boot_initial B0" "boot_steps pool_of url (Inr (migrations path)) B0 B" "pcs B p = Returned None"
  shows "schema_complete path (boot_catalog B)
    \<and> (\<forall>B'. boot_steps pool_of url (Inr (migrations path)) B B' \<longrightarrow> boot_catalog B' = boot_catalog B)"
proof -
  have scripts: "list_all (script_done (boot_catalog B)) (migrations path)"
  proof -
    have "progress (migrations path) (boot_catalog B) (pcs B p)"
      using progress_steps [OF assms(2)] assms(1) by (simp add: boot_initial_def)
    then show ?thesis using assms(3) by simp
  qed
  moreover have "\<forall>p. script_calls (migrations path) (pcs B p)"
    using script_calls_steps [OF assms(2)] assms(1) by (simp add: boot_initial_def)
  ultimately show ?thesis
    using migrations_complete boot_catalog_stays by (auto simp: schema_complete_def)
qed

section \<open>Witnesses\<close>

text \<open>A process that gets the lock and meets no faults comes to its end.\<close>

fun exec_all :: "ddl list list \<Rightarrow> catalog \<Rightarrow> catalog option" where
  "exec_all [] C = Some C"
| "exec_all (ds # dss) C = (case exec_script ds C of None \<Rightarrow> None | Some C' \<Rightarrow> exec_all dss C')"

lemma boot_calls:
  assumes "boot_steps pool_of url read B0 B" "next_call url (pcs B p) = Some c" "\<not> lock_call c"
    and "call_effect c (boot_catalog B) = Some C"
  shows "\<exists>B'. boot_steps pool_of url read B0 B' \<and> pcs B' p = advance read (pcs B p) None
    \<and> boot_catalog B' = C \<and> boot_locks B' = boot_locks B \<and> boot_lost B' = boot_lost B
    \<and> (\<forall>q. q \<noteq> p \<longrightarrow> pcs B' q = pcs B q)"
proof -
  let ?B = "B\<lparr>pcs := (pcs B)(p := advance read (pcs B p) None), boot_catalog := C\<rparr>"
  have "boot_steps pool_of url read B0 ?B"
    using assms(1) call_ok [where pool_of = pool_of, OF assms(2-4)] by (rule boot_next)
  then show ?thesis by (intro exI [of _ ?B]) simp
qed

lemma boot_scripts:
  assumes "boot_steps pool_of url read B0 B" "pcs B p = at_scripts ss" "exec_all ss (boot_catalog B) = Some C"
  shows "\<exists>B'. boot_steps pool_of url read B0 B' \<and> pcs B' p = AtClose None \<and> boot_catalog B' = C"
  using assms
proof (induction ss arbitrary: B)
  case (Cons ds ss)
  then obtain C1 where C1: "exec_script ds (boot_catalog B) = Some C1" "exec_all ss C1 = Some C"
    by (auto split: option.splits)
  then obtain B1 where "boot_steps pool_of url read B0 B1" "pcs B1 p = at_scripts ss" "boot_catalog B1 = C1"
    using boot_calls [OF Cons.prems(1), of p "ExecScript ds"] Cons.prems(2) by auto
  with C1(2) show ?case using Cons.IH by simp
qed auto

lemma boot_enters:
  assumes "pcs B p = AtOpen" "holder (boot_locks B) MigrationLock = None" "pool_of s = p"
  shows "\<exists>B'. boot_steps pool_of url read B B' \<and> pcs B' p = AtPing \<and> boot_catalog B' = boot_catalog B
    \<and> boot_lost B' = boot_lost B \<and> holder (boot_locks B') MigrationLock = Some s \<and> (\<forall>q. q \<noteq> p \<longrightarrow> pcs B' q = pcs B q)"
proof -
  obtain B1 where B1: "boot_steps pool_of url read B B1" "pcs B1 p = AtAcquire" "boot_catalog B1 = boot_catalog B"
    "boot_locks B1 = boot_locks B" "boot_lost B1 = boot_lost B" "\<forall>q. q \<noteq> p \<longrightarrow> pcs B1 q = pcs B q"
    using boot_calls [OF boot_refl, of url B p "OpenDB url" "boot_catalog B" pool_of read] assms(1) by auto
  then obtain A where A: "Acquire None [] s MigrationLock (boot_locks B1) = (None, A)" "holder A MigrationLock = Some s"
    using Acquire_grants [of "boot_locks B1" MigrationLock s "[]"] assms(2) by metis
  then have "boot_step pool_of url read B1 (B1\<lparr>pcs := (pcs B1)(p := advance read (pcs B1 p) None), boot_locks := A\<rparr>)"
    using B1(2) assms(3) by (intro acquire) auto
  with A(2) B1 show ?thesis
    by (intro exI [of _ "B1\<lparr>pcs := (pcs B1)(p := advance read (pcs B1 p) None), boot_locks := A\<rparr>"]) (auto intro: boot_next)
qed

lemma boot_completes:
  assumes "pcs B p = AtOpen" "holder (boot_locks B) MigrationLock = None" "pool_of s = p"
    and "exec_all scripts (create_schema schema (boot_catalog B)) = Some C"
  shows "\<exists>B'. boot_steps pool_of url (Inr scripts) B B' \<and> pcs B' p = Returned None"
proof -
  obtain B1 where B1: "boot_steps pool_of url (Inr scripts) B B1" "pcs B1 p = AtPing" "boot_catalog B1 = boot_catalog B"
    using boot_enters [where read = "Inr scripts" and pool_of = pool_of, OF assms(1-3)] by blast
  then obtain B2 where B2: "boot_steps pool_of url (Inr scripts) B B2" "pcs B2 p = AtSchema" "boot_catalog B2 = boot_catalog B"
    using boot_calls [OF B1(1), of p Ping] by auto
  then obtain B3 where "boot_steps pool_of url (Inr scripts) B B3" "pcs B3 p = at_scripts scripts"
    "boot_catalog B3 = create_schema schema (boot_catalog B)"
    using boot_calls [OF B2(1), of p "CreateSchema schema"] by auto
  then obtain B4 where B4: "boot_steps pool_of url (Inr scripts) B B4" "pcs B4 p = AtClose None"
    using boot_scripts assms(4) by metis
  then obtain B5 where B5: "boot_steps pool_of url (Inr scripts) B B5" "pcs B5 p = AtRelease None"
    using boot_calls [OF B4(1), of p CloseDB] by auto
  obtain r A where "Release None s MigrationLock (boot_locks B5) = (r, A)" by fastforce
  then have "boot_step pool_of url (Inr scripts) B5
      (B5\<lparr>pcs := (pcs B5)(p := advance (Inr scripts) (pcs B5 p) r), boot_locks := A\<rparr>)"
    using B5(2) assms(3) by (intro release) auto
  with B5 show ?thesis
    by (intro exI [of _ "B5\<lparr>pcs := (pcs B5)(p := advance (Inr scripts) (pcs B5 p) r), boot_locks := A\<rparr>"])
      (auto intro: boot_next)
qed

definition demo_boot :: boot where
  "demo_boot = \<lparr>pcs = (\<lambda>_. AtOpen), boot_locks = Map.empty, boot_catalog = \<lparr>schemas = [''public''], relations = Map.empty\<rparr>,
     boot_lost = {}\<rparr>"

theorem migrations_exclusive_witness:
  "\<exists>B. boot_steps (\<lambda>s. s div 10) ''db'' (Inr []) demo_boot B \<and> inside (pcs B 1) \<and> \<not> inside (pcs B 2)
     \<and> fst (Acquire None ''late'' 20 MigrationLock (boot_locks B)) \<noteq> None"
proof -
  have i: "boot_initial demo_boot" by (simp add: boot_initial_def demo_boot_def)
  obtain B where B: "boot_steps (\<lambda>s. s div 10) ''db'' (Inr []) demo_boot B" "inside (pcs B 1)" "1 \<notin> boot_lost B"
    and B2: "2 \<notin> boot_lost B"
    using boot_enters [of demo_boot 1 "\<lambda>s. s div 10" 10 "''db''" "Inr []"] by (auto simp: demo_boot_def holder_def)
  note excl = migrations_exclusive [OF i B, where err = "\<lambda>_ _. None", THEN conjunct2]
  have "\<not> inside (pcs B 2)" using excl [THEN conjunct1, rule_format, of 2] B2 by auto
  moreover have "fst (Acquire None ''late'' 20 MigrationLock (boot_locks B)) \<noteq> None"
    using excl [THEN conjunct2, rule_format, of 20] by simp
  ultimately show ?thesis using B by blast
qed

text \<open>The lock protects nothing once its session is lost: the server gives it to the next process, and two
  processes migrate at a time.\<close>

lemma lost_session_overlap:
  assumes "boot_initial B" "holder (boot_locks B) MigrationLock = None" "pool_of s = p" "pool_of t = q" "p \<noteq> q"
  shows "\<exists>B'. boot_steps pool_of url read B B' \<and> inside (pcs B' p) \<and> inside (pcs B' q)"
proof -
  obtain B1 where B1: "boot_steps pool_of url read B B1" "pcs B1 p = AtPing" "\<forall>r. r \<noteq> p \<longrightarrow> pcs B1 r = pcs B r"
    "holder (boot_locks B1) MigrationLock = Some s"
    using boot_enters [of B p pool_of s url read] assms by (auto simp: boot_initial_def)
  let ?B = "B1\<lparr>boot_locks := end_sessions [s] (boot_locks B1), boot_lost := insert p (boot_lost B1)\<rparr>"
  have "boot_step pool_of url read B1 ?B"
    using session_ends [of pool_of url read B1 s] B1(2,4) assms(3) by simp
  with B1(1) have B2: "boot_steps pool_of url read B ?B" by (rule boot_next)
  obtain B3 where B3: "boot_steps pool_of url read ?B B3" "pcs B3 q = AtPing" "\<forall>r. r \<noteq> q \<longrightarrow> pcs B3 r = pcs ?B r"
    using boot_enters [of ?B q pool_of t url read] assms B1 by (auto simp: boot_initial_def holder_end_sessions)
  have "boot_steps pool_of url read B B3"
    using B3(1) B2 by (induction rule: boot_steps.induct) (auto intro: boot_next)
  with B1(2) B3(2,3) assms(5) show ?thesis by (intro exI [of _ B3]) auto
qed

theorem Init_completes_schema_witness:
  "\<exists>B. boot_steps (\<lambda>s. s div 10) ''db'' (Inr (migrations ''public'')) demo_boot B
     \<and> pcs B 1 = Returned None \<and> schema_complete ''public'' (boot_catalog B)"
proof -
  have i: "boot_initial demo_boot" by (simp add: boot_initial_def demo_boot_def)
  have "exec_all (migrations ''public'') (create_schema schema (boot_catalog demo_boot)) \<noteq> None" by code_simp
  then obtain C where C: "exec_all (migrations ''public'') (create_schema schema (boot_catalog demo_boot)) = Some C" by blast
  obtain B where B: "boot_steps (\<lambda>s. s div 10) ''db'' (Inr (migrations ''public'')) demo_boot B" "pcs B 1 = Returned None"
    using boot_completes [OF _ _ _ C, of 1 "\<lambda>s. s div 10" 10] by (auto simp: demo_boot_def holder_def)
  from Init_completes_schema [OF i B] B show ?thesis by blast
qed

end
