(* ===== verification/GoTimeText.thy ===== *)
theory GoTimeText
  imports GoTime GoConv
begin

text \<open>
  Times as JSON strings: \<^verbatim>\<open>Time.MarshalJSON\<close> and \<^verbatim>\<open>Time.UnmarshalJSON\<close>, which write and read RFC 3339 with the
  fraction of the second in up to nine digits. Marshalling is an error for a year that does not have
  four digits and for an offset of a day or more; the offset is written in minutes.
\<close>

section \<open>Numbers of fixed width\<close>

definition digit_char :: "int \<Rightarrow> char" where
  "digit_char d = char_of (d + 48)"

definition digit_val :: "char \<Rightarrow> int" where
  "digit_val c = of_char c - 48"

fun pad :: "nat \<Rightarrow> int \<Rightarrow> string" where
  "pad 0 n = []"
| "pad (Suc k) n = pad k (n div 10) @ [digit_char (n mod 10)]"

definition digits_num :: "string \<Rightarrow> int" where
  "digits_num s = foldl (\<lambda>a c. 10 * a + digit_val c) 0 s"

text \<open>A number of a given width within bounds, and the rest of the text.\<close>

definition num_at :: "nat \<Rightarrow> int \<Rightarrow> int \<Rightarrow> string \<Rightarrow> (int \<times> string) option" where
  "num_at k lo hi s =
     (let ds = take k s; v = digits_num ds in
      if length ds = k \<and> list_all is_digit ds \<and> lo \<le> v \<and> v \<le> hi then Some (v, drop k s) else None)"

fun lit_at :: "char \<Rightarrow> string \<Rightarrow> string option" where
  "lit_at c [] = None"
| "lit_at c (d # s) = (if d = c then Some s else None)"

section \<open>Writing\<close>

definition time_Second :: "gotime \<Rightarrow> int" where
  "time_Second t = wall t mod minute_ns div second_ns"

definition time_Nanosecond :: "gotime \<Rightarrow> int" where
  "time_Nanosecond t = wall t mod second_ns"

definition strip_zeros :: "string \<Rightarrow> string" where
  "strip_zeros s = rev (dropWhile (\<lambda>c. c = CHR ''0'') (rev s))"

definition fraction_text :: "int \<Rightarrow> string" where
  "fraction_text ns = (if ns = 0 then [] else ''.'' @ strip_zeros (pad 9 ns))"

text \<open>Go's division of the offset truncates; an offset below a minute is written as \<^verbatim>\<open>+00:00\<close>.\<close>

definition zone_text :: "int \<Rightarrow> string" where
  "zone_text z =
     (if z = 0 then ''Z''
      else let m = \<bar>z\<bar> div 60 in
           (if z \<le> -60 then ''-'' else ''+'') @ pad 2 (m div 60) @ '':'' @ pad 2 (m mod 60))"

definition time_MarshalJSON :: "gotime \<Rightarrow> string result" where
  "time_MarshalJSON t =
     (if time_Year t < 0 \<or> time_Year t > 9999
      then Inl ''Time.MarshalJSON: year outside of range [0,9999]''
      else if \<bar>zone t\<bar> \<ge> 86400
      then Inl ''Time.MarshalJSON: timezone hour outside of range [0,23]''
      else Inr (pad 4 (time_Year t) @ ''-'' @ pad 2 (time_Month t) @ ''-'' @ pad 2 (time_Day t)
         @ ''T'' @ pad 2 (time_Hour t) @ '':'' @ pad 2 (time_Minute t) @ '':'' @ pad 2 (time_Second t)
         @ fraction_text (time_Nanosecond t) @ zone_text (zone t)))"

section \<open>Reading\<close>

definition fraction_at :: "string \<Rightarrow> int \<times> string" where
  "fraction_at s =
     (case s of
        c # d # r \<Rightarrow>
          (if c = CHR ''.'' \<and> is_digit d
           then let ds = takeWhile is_digit (d # r); ns = take 9 ds
                in (digits_num ns * 10 ^ (9 - length ns), dropWhile is_digit (d # r))
           else (0, s))
      | _ \<Rightarrow> (0, s))"

definition zone_at :: "string \<Rightarrow> int option" where
  "zone_at s =
     (if s = ''Z'' then Some 0
      else case s of
             [] \<Rightarrow> None
           | sg # r \<Rightarrow>
               (if sg \<noteq> CHR ''+'' \<and> sg \<noteq> CHR ''-'' then None
                else case num_at 2 0 23 r of
                       None \<Rightarrow> None
                     | Some (h, r) \<Rightarrow>
                         (case Option.bind (lit_at (CHR '':'') r) (num_at 2 0 59) of
                            Some (m, []) \<Rightarrow> Some ((if sg = CHR ''-'' then -1 else 1) * (h * 3600 + m * 60))
                          | _ \<Rightarrow> None)))"

definition days_in :: "int \<Rightarrow> int \<Rightarrow> int" where
  "days_in y m = month_start y (m + 1) - month_start y m"

definition field_at :: "char \<Rightarrow> int \<Rightarrow> int \<Rightarrow> string \<Rightarrow> (int \<times> string) option" where
  "field_at c lo hi s = Option.bind (lit_at c s) (num_at 2 lo hi)"

definition time_parse :: "string \<Rightarrow> gotime option" where
  "time_parse s =
     Option.bind (num_at 4 0 9999 s) (\<lambda>(y, s).
     Option.bind (field_at (CHR ''-'') 1 12 s) (\<lambda>(mo, s).
     Option.bind (field_at (CHR ''-'') 1 (days_in y mo) s) (\<lambda>(d, s).
     Option.bind (field_at (CHR ''T'') 0 23 s) (\<lambda>(h, s).
     Option.bind (field_at (CHR '':'') 0 59 s) (\<lambda>(mi, s).
     Option.bind (field_at (CHR '':'') 0 59 s) (\<lambda>(sec, s).
     case fraction_at s of (ns, s) \<Rightarrow>
     map_option (\<lambda>z. time_Date y mo d (h * hour_ns + mi * minute_ns + sec * second_ns + ns) z) (zone_at s)))))))"

section \<open>Reading what was written\<close>

lemma digit_char_facts:
  assumes "0 \<le> d" "d \<le> 9"
  shows "is_digit (digit_char d)" "digit_val (digit_char d) = d"
  using assms by (auto simp: is_digit_def digit_char_def digit_val_def Let_def)

lemma pad_length [simp]: "length (pad k n) = k"
  by (induction k arbitrary: n) auto

lemma pad_digits: "list_all is_digit (pad k n)"
  by (induction k arbitrary: n) (auto simp: digit_char_facts)

lemma digits_num_append: "digits_num (s @ [c]) = 10 * digits_num s + digit_val c"
  by (simp add: digits_num_def)

lemma digits_num_pad: "0 \<le> n \<Longrightarrow> n < 10 ^ k \<Longrightarrow> digits_num (pad k n) = n"
proof (induction k arbitrary: n)
  case 0
  then show ?case by (simp add: digits_num_def)
next
  case (Suc k)
  then have "n div 10 < 10 ^ k" by (intro div_less_mult) (simp_all add: mult.commute)
  with Suc show ?case by (simp add: digits_num_append digit_char_facts)
qed

lemma num_at_pad: "0 \<le> n \<Longrightarrow> n < 10 ^ k \<Longrightarrow> lo \<le> n \<Longrightarrow> n \<le> hi \<Longrightarrow> num_at k lo hi (pad k n @ s) = Some (n, s)"
  by (simp add: num_at_def Let_def pad_digits digits_num_pad)

lemma field_at_pad: "0 \<le> n \<Longrightarrow> n < 100 \<Longrightarrow> lo \<le> n \<Longrightarrow> n \<le> hi \<Longrightarrow> field_at c lo hi (c # pad 2 n @ s) = Some (n, s)"
  by (simp add: field_at_def num_at_pad)

lemma digits_num_zeros: "digits_num (s @ replicate k (CHR ''0'')) = digits_num s * 10 ^ k"
proof (induction k)
  case (Suc k)
  have "digits_num (s @ replicate (Suc k) (CHR ''0'')) = digits_num ((s @ replicate k (CHR ''0'')) @ [CHR ''0''])"
    by (simp only: replicate_Suc replicate_append_same [symmetric] append_assoc)
  also have "\<dots> = digits_num s * 10 ^ Suc k" using Suc by (simp only: digits_num_append) (simp add: digit_val_def)
  finally show ?case .
qed simp

lemma strip_zeros_split: "\<exists>k. s = strip_zeros s @ replicate k (CHR ''0'')"
proof -
  have "takeWhile (\<lambda>c. c = CHR ''0'') (rev s) = replicate (length (takeWhile (\<lambda>c. c = CHR ''0'') (rev s))) (CHR ''0'')"
    by (rule replicate_eqI) (auto dest: set_takeWhileD)
  moreover have "s = rev (dropWhile (\<lambda>c. c = CHR ''0'') (rev s)) @ rev (takeWhile (\<lambda>c. c = CHR ''0'') (rev s))"
    by (simp flip: rev_append)
  ultimately show ?thesis unfolding strip_zeros_def by (metis rev_replicate)
qed

lemma fraction_round_trip:
  assumes "0 \<le> ns" "ns < 10 ^ 9" "s \<noteq> []" "\<not> is_digit (hd s)" "hd s \<noteq> CHR ''.''"
  shows "fraction_at (fraction_text ns @ s) = (ns, s)"
proof (cases "ns = 0")
  case True
  with assms(3,5) show ?thesis by (auto simp: fraction_at_def fraction_text_def neq_Nil_conv split: list.splits)
next
  case False
  obtain k where k: "pad 9 ns = strip_zeros (pad 9 ns) @ replicate k (CHR ''0'')" using strip_zeros_split by blast
  define f where "f = strip_zeros (pad 9 ns)"
  have digits: "list_all is_digit f" using pad_digits [of 9 ns] k by (metis f_def list_all_append)
  have len: "length f + k = 9" by (metis f_def k length_append length_replicate pad_length)
  have val: "digits_num f * 10 ^ k = ns" using digits_num_pad [OF assms(1,2)] k digits_num_zeros [of f k] by (simp add: f_def)
  then have "f \<noteq> []" using False by (auto simp: digits_num_def)
  then obtain d r where f: "f = d # r" by (cases f) auto
  have "takeWhile is_digit (f @ s) = f" "dropWhile is_digit (f @ s) = s"
    using digits assms(3,4) by (simp_all add: list_all_iff) (cases s; simp)+
  moreover have "9 - length f = k" using len by simp
  ultimately show ?thesis using digits val f False len
    by (simp add: fraction_at_def fraction_text_def f_def [symmetric] Let_def)
qed

lemma zone_round_trip:
  assumes "\<bar>z\<bar> < 86400" "60 dvd z"
  shows "zone_at (zone_text z) = Some z"
proof (cases "z = 0")
  case False
  define m where "m = \<bar>z\<bar> div 60"
  have m: "\<bar>z\<bar> = m * 60" "0 \<le> m" "m < 1440" using assms unfolding m_def by auto
  have b: "0 \<le> m div 60" "m div 60 \<le> 23" "0 \<le> m mod 60" "m mod 60 \<le> 59" using m by auto
  have "num_at 2 0 23 (pad 2 (m div 60) @ '':'' @ pad 2 (m mod 60)) = Some (m div 60, '':'' @ pad 2 (m mod 60))"
    using b by (intro num_at_pad) auto
  moreover have "num_at 2 0 59 (pad 2 (m mod 60)) = Some (m mod 60, [])"
    using b num_at_pad [of "m mod 60" 2 0 59 "[]"] by simp
  moreover have "m div 60 * 3600 + m mod 60 * 60 = \<bar>z\<bar>" using m(1) by presburger
  moreover have "z \<le> -60 \<longleftrightarrow> z < 0" using assms(2) False by presburger
  ultimately show ?thesis using False by (auto simp: zone_text_def zone_at_def m_def [symmetric] Let_def)
qed (simp add: zone_text_def zone_at_def)

lemma clock_split:
  "time_Hour t * hour_ns + time_Minute t * minute_ns + time_Second t * second_ns + time_Nanosecond t = wall t mod day_ns"
proof -
  have m: "w mod day_ns mod hour_ns = w mod hour_ns" "w mod hour_ns mod minute_ns = w mod minute_ns"
    "w mod minute_ns mod second_ns = w mod second_ns" for w :: int
    by (rule mod_mod_cancel; simp)+
  have e: "w mod day_ns div hour_ns * hour_ns + w mod hour_ns = w mod day_ns"
    "w mod hour_ns div minute_ns * minute_ns + w mod minute_ns = w mod hour_ns"
    "w mod minute_ns div second_ns * second_ns + w mod second_ns = w mod minute_ns" for w :: int
    by (rule div_mult_mod_eq [of "w mod day_ns" hour_ns, unfolded m] div_mult_mod_eq [of "w mod hour_ns" minute_ns, unfolded m]
        div_mult_mod_eq [of "w mod minute_ns" second_ns, unfolded m])+
  show ?thesis
    unfolding time_Hour_def time_Minute_def time_Second_def time_Nanosecond_def add.assoc e ..
qed

lemma time_Date_again: "time_Date (time_Year t) (time_Month t) (time_Day t) (wall t mod day_ns) (zone t) = t"
proof -
  have m: "(time_Month t - 1) div 12 = 0" "(time_Month t - 1) mod 12 + 1 = time_Month t"
    using wall_day_in_month [of t] by simp_all
  have "wall t div day_ns * day_ns + wall t mod day_ns = wall t" by (rule div_mult_mod_eq)
  then show ?thesis by (simp add: time_Date_def m time_Day_def wall_day_def wall_def)
qed

lemma zone_text_start: "zone_text z \<noteq> [] \<and> \<not> is_digit (hd (zone_text z)) \<and> hd (zone_text z) \<noteq> CHR ''.''"
  by (simp add: zone_text_def Let_def is_digit_def)

lemma days_in_le: "1 \<le> m \<Longrightarrow> m \<le> 12 \<Longrightarrow> days_in y m \<le> 31"
  by (simp add: days_in_def month_start_def days_before_def)

text \<open>A time whose offset is a whole number of minutes comes back as it was.\<close>

lemma time_round_trip:
  assumes "time_MarshalJSON t = Inr s" "60 dvd zone t"
  shows "time_parse s = Some t"
proof -
  let ?rest = "fraction_text (time_Nanosecond t) @ zone_text (zone t)"
  have b: "0 \<le> time_Year t" "time_Year t \<le> 9999" "\<bar>zone t\<bar> < 86400"
    and s: "s = pad 4 (time_Year t) @ CHR ''-'' # pad 2 (time_Month t) @ CHR ''-'' # pad 2 (time_Day t)
         @ CHR ''T'' # pad 2 (time_Hour t) @ CHR '':'' # pad 2 (time_Minute t) @ CHR '':'' # pad 2 (time_Second t) @ ?rest"
    using assms(1) by (auto simp: time_MarshalJSON_def split: if_splits)
  have mo: "1 \<le> time_Month t" "time_Month t \<le> 12" using wall_day_in_month [of t] by simp_all
  have d: "1 \<le> time_Day t" "time_Day t \<le> days_in (time_Year t) (time_Month t)"
    using wall_day_in_month [of t] by (simp_all add: time_Day_def days_in_def)
  have d31: "time_Day t \<le> 31" using d(2) days_in_le [OF mo, of "time_Year t"] by linarith
  have sec: "0 \<le> time_Second t" "time_Second t \<le> 59" unfolding time_Second_def by linarith+
  have ns: "0 \<le> time_Nanosecond t" "time_Nanosecond t < 10 ^ 9" unfolding time_Nanosecond_def by simp_all
  have rest: "fraction_at ?rest = (time_Nanosecond t, zone_text (zone t))"
    using fraction_round_trip [OF ns, of "zone_text (zone t)"] zone_text_start by blast
  show ?thesis unfolding s time_parse_def
    using b mo d d31 sec time_Hour_range [of t] time_Minute_range [of t]
    by (simp add: num_at_pad field_at_pad rest zone_round_trip assms(2) clock_split time_Date_again)
qed

end
