(* ===== verification/QueueSync.thy ===== *)
theory QueueSync
  imports EnqueuedStore GoTimeText
begin

text \<open>
  Jobs that are sent through a message queue: \<^verbatim>\<open>JobManager.Enqueue\<close> with its two modes
  (\<^verbatim>\<open>client/job_manager.go\<close>), the worker that reads the queue and stores jobs in batches
  (\<^verbatim>\<open>StartQueueAndStorageSyncWorker\<close> in \<^verbatim>\<open>client/enqueue_job_manager.go\<close>), and the adapter to RabbitMQ
  (\<^verbatim>\<open>internal/message_broaker/rabbitmq.go\<close>). A message is the JSON value of its text, or text that is no
  JSON; a slice without elements is nil. The broker itself and the package \<^verbatim>\<open>amqp091-go\<close> are not part of the program: the worker is given the
  sequence of events it sees, and the adapter the results of the calls it makes.
\<close>

section \<open>Messages\<close>

datatype message = Json json | NotJson

text \<open>\<^verbatim>\<open>json.Marshal\<close> of a \<^verbatim>\<open>types.Job\<close>.\<close>

definition Marshal_Job :: "Job \<Rightarrow> message result" where
  "Marshal_Job job =
     bind_result (Marshal_args (job_Args job)) (\<lambda>args.
     case time_MarshalJSON (job_ScheduledAt job) of
       Inl e \<Rightarrow> Inl (''json: error calling MarshalJSON for type time.Time: '' @ e)
     | Inr scheduled \<Rightarrow> Inr (Json (JObject
         [(''id'', JNumber (of_int (job_ID job))), (''name'', JString (job_Name job)), (''args'', args),
          (''scheduled_at'', JString scheduled)])))"

definition zero_job :: Job where
  "zero_job = \<lparr>job_ID = 0, job_Name = [], job_Args = [], job_ScheduledAt = zero_time\<rparr>"

definition ascii_lower :: "char \<Rightarrow> char" where
  "ascii_lower c = (if 65 \<le> (of_char c :: int) \<and> (of_char c :: int) \<le> 90 then char_of (of_char c + 32 :: int) else c)"

text \<open>One member of the object. Names are matched without regard to case, \<^verbatim>\<open>null\<close> leaves a field that is not a slice as it is,
  and members of other names are skipped.\<close>

definition set_field :: "string \<times> json \<Rightarrow> Job \<Rightarrow> Job result" where
  "set_field kv job =
     (let k = map ascii_lower (fst kv); v = snd kv in
      if k = ''id'' then
        (case v of
           JNull \<Rightarrow> Inr job
         | JNumber r \<Rightarrow> (if r = of_int \<lfloor>r\<rfloor> \<and> min_int \<le> \<lfloor>r\<rfloor> \<and> \<lfloor>r\<rfloor> \<le> max_int then Inr (job\<lparr>job_ID := \<lfloor>r\<rfloor>\<rparr>)
                         else Inl ''json: cannot unmarshal number into Go struct field Job.id of type int64'')
         | _ \<Rightarrow> Inl ''json: cannot unmarshal into Go struct field Job.id of type int64'')
      else if k = ''name'' then
        (case v of
           JNull \<Rightarrow> Inr job
         | JString s \<Rightarrow> Inr (job\<lparr>job_Name := s\<rparr>)
         | _ \<Rightarrow> Inl ''json: cannot unmarshal into Go struct field Job.name of type string'')
      else if k = ''args'' then map_sum id (\<lambda>args. job\<lparr>job_Args := args\<rparr>) (Unmarshal_args v)
      else if k = ''scheduled_at'' then
        (case v of
           JNull \<Rightarrow> Inr job
         | JString s \<Rightarrow> (case time_parse s of
                           None \<Rightarrow> Inl ''parsing time''
                         | Some t \<Rightarrow> Inr (job\<lparr>job_ScheduledAt := t\<rparr>))
         | _ \<Rightarrow> Inl ''Time.UnmarshalJSON: input is not a JSON string'')
      else Inr job)"

fun set_fields :: "(string \<times> json) list \<Rightarrow> Job \<Rightarrow> Job result" where
  "set_fields [] job = Inr job"
| "set_fields (kv # kvs) job = bind_result (set_field kv job) (set_fields kvs)"

fun Unmarshal_Job :: "message \<Rightarrow> Job result" where
  "Unmarshal_Job (Json (JObject kvs)) = set_fields kvs zero_job"
| "Unmarshal_Job (Json JNull) = Inr zero_job"
| "Unmarshal_Job (Json _) = Inl ''json: cannot unmarshal into Go value of type types.Job''"
| "Unmarshal_Job NotJson = Inl ''invalid character''"

section \<open>Enqueueing\<close>

text \<open>The two modes of \<^verbatim>\<open>JobManager.Enqueue\<close>: the id and the error, the table, and the message that is
  published, if any. The failure of \<^verbatim>\<open>Publish\<close> is an argument.\<close>

definition JobManager_Enqueue ::
  "bool \<Rightarrow> fault \<Rightarrow> fault \<Rightarrow> timestamp \<Rightarrow> string \<Rightarrow> gotime \<Rightarrow> any list \<Rightarrow> enqueued_table
   \<Rightarrow> (int \<times> fault) \<times> enqueued_table \<times> message option" where
  "JobManager_Enqueue writeJobsToQueue flt publish_fault now jobName enqueueAt args T =
     (if \<not> writeJobsToQueue
      then (case Insert flt now jobName (instant enqueueAt) args T of (r, T') \<Rightarrow> (r, T', None))
      else let job = \<lparr>job_ID = 0, job_Name = jobName, job_Args = args, job_ScheduledAt = enqueueAt\<rparr> in
           case Marshal_Job job of
             Inl e \<Rightarrow> ((0, Some (''failed to marshal job: '' @ e)), T, None)
           | Inr payload \<Rightarrow>
               (case publish_fault of
                  Some e \<Rightarrow> ((0, Some (''failed to publish job to broker: '' @ e)), T, None)
                | None \<Rightarrow> ((0, None), T, Some payload)))"

section \<open>The worker\<close>

record sync_state =
  jobsBatch :: "Job list"
  sync_table :: enqueued_table
  sync_running :: bool

definition sync_batchSize :: nat where "sync_batchSize = 1000"

definition flushBatch :: "fault \<Rightarrow> timestamp \<Rightarrow> sync_state \<Rightarrow> sync_state" where
  "flushBatch flt now s =
     (if jobsBatch s = [] then s
      else s\<lparr>sync_table := snd (BulkInsert flt now (jobsBatch s) (sync_table s)), jobsBatch := []\<rparr>)"

text \<open>What the \<^verbatim>\<open>select\<close> of the loop can see, with the failure and the time of a statement that is then
  executed. A statement under a cancelled context fails.\<close>

datatype sync_event = Cancelled | Received message | ChannelClosed | Tick

fun sync_handle :: "fault \<Rightarrow> timestamp \<Rightarrow> sync_event \<Rightarrow> sync_state \<Rightarrow> sync_state" where
  "sync_handle flt now Cancelled s = (flushBatch (Some ''context canceled'') now s)\<lparr>sync_running := False\<rparr>"
| "sync_handle flt now ChannelClosed s = (flushBatch flt now s)\<lparr>sync_running := False\<rparr>"
| "sync_handle flt now (Received msg) s =
     (case Unmarshal_Job msg of
        Inl _ \<Rightarrow> s
      | Inr job \<Rightarrow>
          (let s = s\<lparr>jobsBatch := jobsBatch s @ [job]\<rparr> in
           if length (jobsBatch s) \<ge> sync_batchSize then flushBatch flt now s else s))"
| "sync_handle flt now Tick s = flushBatch flt now s"

fun sync_loop :: "(fault \<times> timestamp \<times> sync_event) list \<Rightarrow> sync_state \<Rightarrow> sync_state" where
  "sync_loop [] s = s"
| "sync_loop ((flt, now, ev) # evs) s =
     (if sync_running s then sync_loop evs (sync_handle flt now ev s) else s)"

definition sync_start :: "enqueued_table \<Rightarrow> sync_state" where
  "sync_start T = \<lparr>jobsBatch = [], sync_table = T, sync_running = True\<rparr>"

section \<open>The adapter to RabbitMQ\<close>

text \<open>The calls of \<^verbatim>\<open>NewRabbitMQ\<close> in their order; the argument gives the error of each.\<close>

datatype amqp_call =
    Dial string
  | OpenChannel
  | ExchangeDeclare string
  | QueueDeclare string
  | QueueBind string string string
  | PublishMessage string string message
  | ConsumeQueue string
  | CloseChannel
  | CloseConn

definition NewRabbitMQ :: "(amqp_call \<Rightarrow> fault) \<Rightarrow> string \<Rightarrow> string \<Rightarrow> string \<Rightarrow> string \<Rightarrow> fault \<times> amqp_call list" where
  "NewRabbitMQ err url exchange queue routingKey =
     (case err (Dial url) of
        Some e \<Rightarrow> (Some e, [Dial url])
      | None \<Rightarrow>
          (case err OpenChannel of
             Some e \<Rightarrow> (Some e, [Dial url, OpenChannel, CloseConn])
           | None \<Rightarrow>
               (case err (ExchangeDeclare exchange) of
                  Some e \<Rightarrow> (Some e, [Dial url, OpenChannel, ExchangeDeclare exchange, CloseChannel, CloseConn])
                | None \<Rightarrow>
                    (case err (QueueDeclare queue) of
                       Some e \<Rightarrow> (Some e, [Dial url, OpenChannel, ExchangeDeclare exchange, QueueDeclare queue,
                                         CloseChannel, CloseConn])
                     | None \<Rightarrow>
                         (let calls = [Dial url, OpenChannel, ExchangeDeclare exchange, QueueDeclare queue,
                                       QueueBind queue routingKey exchange] in
                          case err (QueueBind queue routingKey exchange) of
                            Some e \<Rightarrow> (Some e, calls @ [CloseChannel, CloseConn])
                          | None \<Rightarrow> (None, calls))))))"

definition RabbitMQ_Close :: "(amqp_call \<Rightarrow> fault) \<Rightarrow> fault \<times> amqp_call list" where
  "RabbitMQ_Close err =
     (case err CloseChannel of
        Some e \<Rightarrow> (Some e, [CloseChannel, CloseConn])
      | None \<Rightarrow> (err CloseConn, [CloseChannel, CloseConn]))"

text \<open>A message goes to the exchange of the connection under its routing key; the queue the caller names is not used.\<close>

definition RabbitMQ_Publish ::
  "(amqp_call \<Rightarrow> fault) \<Rightarrow> string \<Rightarrow> string \<Rightarrow> string \<Rightarrow> message \<Rightarrow> fault \<times> amqp_call list" where
  "RabbitMQ_Publish err exchange routingKey queue m =
     (err (PublishMessage exchange routingKey m), [PublishMessage exchange routingKey m])"

definition RabbitMQ_Consume :: "(amqp_call \<Rightarrow> fault) \<Rightarrow> string \<Rightarrow> fault \<times> amqp_call list" where
  "RabbitMQ_Consume err queue = (err (ConsumeQueue queue), [ConsumeQueue queue])"

text \<open>A direct exchange passes a message to the queues bound to it under exactly its routing key.\<close>

definition routed :: "amqp_call list \<Rightarrow> amqp_call \<Rightarrow> string set" where
  "routed calls c = (case c of PublishMessage exchange key m \<Rightarrow> {q. QueueBind q key exchange \<in> set calls} | _ \<Rightarrow> {})"

text \<open>The worker as it is started: without a queue, or when the queue cannot be consumed, it does nothing.\<close>

definition StartQueueAndStorageSyncWorker ::
  "(amqp_call \<Rightarrow> fault) \<Rightarrow> string \<Rightarrow> bool \<Rightarrow> (fault \<times> timestamp \<times> sync_event) list \<Rightarrow> enqueued_table \<Rightarrow> enqueued_table" where
  "StartQueueAndStorageSyncWorker err queue useQueue evs T =
     (if \<not> useQueue then T
      else case fst (RabbitMQ_Consume err queue) of
             Some e \<Rightarrow> T
           | None \<Rightarrow> sync_table (sync_loop evs (sync_start T)))"

text \<open>The goroutine of \<^verbatim>\<open>Consume\<close>: deliveries are passed on in their order until they end, or until the
  context is done, which may come before a delivery is taken or before it is passed on.\<close>

datatype delivery_event = Delivered message | DeliveriesClosed | ConsumeCancelled

fun Consume_forward :: "delivery_event list \<Rightarrow> message list" where
  "Consume_forward [] = []"
| "Consume_forward (Delivered m # evs) = m # Consume_forward evs"
| "Consume_forward (DeliveriesClosed # evs) = []"
| "Consume_forward (ConsumeCancelled # evs) = []"

section \<open>Lemmas\<close>

text \<open>Payloads whose numbers are \<^verbatim>\<open>float64\<close> values.\<close>

fun exact_json :: "json \<Rightarrow> bool" where
  "exact_json (JNumber r) = (float64 r = r)"
| "exact_json (JArray js) = (\<forall>j \<in> set js. exact_json j)"
| "exact_json (JObject kjs) = (\<forall>kj \<in> set kjs. exact_json (snd kj))"
| "exact_json _ = True"

lemma Marshal_again:
  "exact_json j \<Longrightarrow> Marshal (Unmarshal j) = Inr j"
  "\<forall>j \<in> set js. exact_json j \<Longrightarrow> Marshal_list (Unmarshal_list js) = Inr js"
  "\<forall>kj \<in> set kjs. exact_json (snd kj) \<Longrightarrow> Marshal_map (Unmarshal_map kjs) = Inr kjs"
  by (induction j and js and kjs rule: Unmarshal_Unmarshal_list_Unmarshal_map.induct) auto

lemma Marshal_args_again:
  assumes "Marshal_args args = Inr payload" "exact_json payload"
  shows "Marshal_args (map received args) = Inr payload"
proof (cases "args = []")
  case False
  with assms(1) obtain js where js: "payload = JArray js" "Marshal_list args = Inr js"
    by (auto simp: Marshal_args_def)
  have "Unmarshal_list js = map received args"
    using args_round_trip [of args] assms(1) js(1) by (simp add: Unmarshal_args_def)
  then show ?thesis using js Marshal_again(2) [of js] assms(2) False by (simp add: Marshal_args_def)
qed (use assms in \<open>simp add: Marshal_args_def\<close>)

lemma lower_keys:
  "map ascii_lower ''id'' = ''id''" "map ascii_lower ''name'' = ''name''" "map ascii_lower ''args'' = ''args''"
  "map ascii_lower ''scheduled_at'' = ''scheduled_at''"
  by (simp_all add: ascii_lower_def)

text \<open>A job comes out of its message with the arguments a handler would receive, the numbers rounded to \<^verbatim>\<open>float64\<close>.\<close>

lemma Job_round_trip:
  assumes "Marshal_Job job = Inr msg"
    and "60 dvd zone (job_ScheduledAt job)" "min_int \<le> job_ID job" "job_ID job \<le> max_int"
  shows "Unmarshal_Job msg = Inr (job\<lparr>job_Args := map received (job_Args job)\<rparr>)"
proof -
  obtain s payload where s: "time_MarshalJSON (job_ScheduledAt job) = Inr s" "Marshal_args (job_Args job) = Inr payload"
    and msg: "msg = Json (JObject [(''id'', JNumber (of_int (job_ID job))), (''name'', JString (job_Name job)),
      (''args'', payload), (''scheduled_at'', JString s)])"
    using assms(1) by (cases "Marshal_args (job_Args job)") (auto simp: Marshal_Job_def split: sum.splits)
  have "Unmarshal_args payload = Inr (map received (job_Args job))"
    using args_round_trip [of "job_Args job"] s(2) by simp
  then show ?thesis
    using time_round_trip [OF s(1) assms(2)] assms(3,4) lower_keys
    by (simp add: msg set_field_def zero_job_def)
qed

text \<open>Inserting a job only depends on its name, its payload and its time.\<close>

lemma insert_each_append: "insert_each now (xs @ ys) T = insert_each now ys (insert_each now xs T)"
  by (induction xs arbitrary: T) auto

lemma insert_each_cong:
  assumes "list_all2 (\<lambda>a b. job_Name a = job_Name b \<and> instant (job_ScheduledAt a) = instant (job_ScheduledAt b)
      \<and> Marshal_args (job_Args a) = Marshal_args (job_Args b)) xs ys"
  shows "insert_each now xs T = insert_each now ys T"
  using assms by (induction arbitrary: T rule: list_all2_induct) (auto simp: Insert_def)

section \<open>What the worker stores\<close>

definition encodable :: "Job \<Rightarrow> bool" where
  "encodable job \<longleftrightarrow> is_ok (Marshal_args (job_Args job))"

lemma flush_table:
  assumes "\<forall>job \<in> set (jobsBatch s). encodable job"
  shows "sync_table (flushBatch None now s) = insert_each now (jobsBatch s) (sync_table s)"
  using assms by (auto simp: flushBatch_def snd_BulkInsert encodable_def)

lemma flush_simps [simp]:
  "jobsBatch (flushBatch flt now s) = []" "sync_running (flushBatch flt now s) = sync_running s"
  by (simp_all add: flushBatch_def)

text \<open>The jobs of the messages that can be decoded.\<close>

fun decoded :: "sync_event list \<Rightarrow> Job list" where
  "decoded [] = []"
| "decoded (Received msg # evs) = (case Unmarshal_Job msg of Inl _ \<Rightarrow> decoded evs | Inr job \<Rightarrow> job # decoded evs)"
| "decoded (_ # evs) = decoded evs"

lemma Unmarshal_supported:
  "supported (Unmarshal j)" "\<forall>v \<in> set (Unmarshal_list js). supported v" "\<forall>kv \<in> set (Unmarshal_map kjs). supported (snd kv)"
  by (induction j and js and kjs rule: Unmarshal_Unmarshal_list_Unmarshal_map.induct) auto

lemma Unmarshal_args_encodable: "Unmarshal_args v = Inr args \<Longrightarrow> is_ok (Marshal_args args)"
  using args_round_trip [of args] Unmarshal_supported(2)
  by (auto simp: Unmarshal_args_def is_ok_iff split: json.splits sum.splits)

lemma set_field_encodable: "set_field kv job = Inr job' \<Longrightarrow> encodable job \<Longrightarrow> encodable job'"
  by (auto simp: set_field_def Let_def encodable_def Unmarshal_args_encodable split: if_splits json.splits option.splits)

lemma set_fields_encodable: "set_fields kvs job = Inr job' \<Longrightarrow> encodable job \<Longrightarrow> encodable job'"
  by (induction kvs arbitrary: job) (auto dest: set_field_encodable)

lemma Unmarshal_Job_encodable: "Unmarshal_Job msg = Inr job \<Longrightarrow> encodable job"
proof -
  have "encodable zero_job" by (simp add: encodable_def zero_job_def Marshal_args_def)
  then show "Unmarshal_Job msg = Inr job \<Longrightarrow> encodable job"
    by (cases msg rule: Unmarshal_Job.cases) (auto dest: set_fields_encodable)
qed

lemma decoded_encodable: "\<forall>job \<in> set (decoded evs). encodable job"
  by (induction evs rule: decoded.induct) (auto simp: Unmarshal_Job_encodable split: sum.splits)

lemma sync_loop_stores:
  assumes "\<forall>job \<in> set (jobsBatch s @ decoded evs). encodable job" "sync_running s"
    and "\<forall>ev \<in> set evs. ev = Tick \<or> (\<exists>m. ev = Received m)"
  shows "sync_table (sync_loop (map (\<lambda>ev. (None, now, ev)) (evs @ [ChannelClosed])) s) =
    insert_each now (jobsBatch s @ decoded evs) (sync_table s)"
  using assms
proof (induction evs arbitrary: s)
  case Nil
  then show ?case by (simp add: flush_table)
next
  case (Cons ev evs)
  show ?case
  proof (cases ev)
    case (Received msg)
    show ?thesis
    proof (cases "Unmarshal_Job msg")
      case (Inr job)
      let ?s = "s\<lparr>jobsBatch := jobsBatch s @ [job]\<rparr>"
      have enc: "\<forall>job \<in> set (jobsBatch ?s). encodable job" using Cons.prems(1) Received Inr by auto
      let ?s' = "if sync_batchSize \<le> length (jobsBatch ?s) then flushBatch None now ?s else ?s"
      have "insert_each now (jobsBatch ?s' @ decoded evs) (sync_table ?s') = insert_each now (jobsBatch ?s @ decoded evs) (sync_table s)"
        using flush_table [OF enc, of now] by (simp add: insert_each_append)
      moreover have "sync_table (sync_loop (map (\<lambda>ev. (None, now, ev)) (evs @ [ChannelClosed])) ?s') =
          insert_each now (jobsBatch ?s' @ decoded evs) (sync_table ?s')"
        using Cons.prems Received Inr enc by (intro Cons.IH) auto
      ultimately show ?thesis using Cons.prems(2) Received Inr by (simp add: Let_def)
    qed (use Cons Received in simp)
  next
    case Tick
    have enc: "\<forall>job \<in> set (jobsBatch s). encodable job" using Cons.prems(1) by auto
    have "sync_table (sync_loop (map (\<lambda>ev. (None, now, ev)) (evs @ [ChannelClosed])) (flushBatch None now s)) =
        insert_each now (jobsBatch (flushBatch None now s) @ decoded evs) (sync_table (flushBatch None now s))"
      using Cons.prems Tick enc by (intro Cons.IH) auto
    then show ?thesis using Cons.prems(2) Tick flush_table [OF enc, of now] by (simp add: insert_each_append)
  qed (use Cons.prems(3) in auto)
qed

lemma batch_bounded:
  assumes "length (jobsBatch s) < sync_batchSize"
  shows "length (jobsBatch (sync_loop evs s)) < sync_batchSize"
  using assms
proof (induction evs arbitrary: s)
  case (Cons e evs)
  obtain flt now ev where e: "e = (flt, now, ev)" by (cases e) auto
  have "length (jobsBatch (sync_handle flt now ev s)) < sync_batchSize"
    using Cons.prems by (cases ev) (auto simp: Let_def sync_batchSize_def split: sum.splits)
  with Cons e show ?case by simp
qed simp

section \<open>Properties\<close>

text \<open>A job as it is enqueued: its name, its time and its arguments. It can be sent when its arguments can be
  encoded, its time can be written and the offset of its zone is a number of whole minutes.\<close>

type_synonym enqueue_call = "string \<times> gotime \<times> any list"

definition sendable :: "enqueue_call \<Rightarrow> bool" where
  "sendable c = (case c of (name, due, args) \<Rightarrow>
     is_ok (Marshal_args args) \<and> is_ok (time_MarshalJSON due) \<and> 60 dvd zone due)"

text \<open>The call with the arguments of its message, and the calls whose numbers are \<^verbatim>\<open>float64\<close> values.\<close>

definition as_received :: "enqueue_call \<Rightarrow> enqueue_call" where
  "as_received c = (case c of (name, due, args) \<Rightarrow> (name, due, map received args))"

definition exact_call :: "enqueue_call \<Rightarrow> bool" where
  "exact_call c = (case c of (name, due, args) \<Rightarrow>
     (case Marshal_args args of Inl _ \<Rightarrow> False | Inr payload \<Rightarrow> exact_json payload))"

definition message_of :: "timestamp \<Rightarrow> enqueued_table \<Rightarrow> enqueue_call \<Rightarrow> message option" where
  "message_of now T c = (case c of (name, due, args) \<Rightarrow>
     snd (snd (JobManager_Enqueue True None None now name due args T)))"

definition direct :: "timestamp \<Rightarrow> enqueue_call \<Rightarrow> enqueued_table \<Rightarrow> enqueued_table" where
  "direct now c T = (case c of (name, due, args) \<Rightarrow> fst (snd (JobManager_Enqueue False None None now name due args T)))"

fun messages_of :: "sync_event list \<Rightarrow> message list" where
  "messages_of [] = []"
| "messages_of (Received msg # evs) = msg # messages_of evs"
| "messages_of (_ # evs) = messages_of evs"

definition job_of_call :: "enqueue_call \<Rightarrow> Job" where
  "job_of_call c = (case c of (name, due, args) \<Rightarrow> \<lparr>job_ID = 0, job_Name = name, job_Args = args, job_ScheduledAt = due\<rparr>)"

lemma decoded_messages: "decoded evs = oks (map Unmarshal_Job (messages_of evs))"
  by (induction evs rule: decoded.induct) (auto split: sum.splits)

lemma sent_message:
  assumes "sendable c"
  shows "\<exists>msg. message_of now T c = Some msg \<and> Unmarshal_Job msg = Inr (job_of_call (as_received c))"
proof -
  obtain name due args where c: "c = (name, due, args)" by (cases c) auto
  then obtain msg where msg: "Marshal_Job (job_of_call c) = Inr msg"
    using assms by (auto simp: Marshal_Job_def job_of_call_def sendable_def is_ok_iff)
  have "Unmarshal_Job msg = Inr (job_of_call (as_received c))"
    using Job_round_trip [OF msg] assms c
    by (simp add: job_of_call_def sendable_def as_received_def min_int_def max_int_def)
  moreover have "message_of now T c = Some msg"
    using msg c by (simp add: message_of_def JobManager_Enqueue_def job_of_call_def)
  ultimately show ?thesis by blast
qed

lemma exact_inserts:
  assumes "\<forall>c \<in> set cs. exact_call c"
  shows "insert_each now (map job_of_call (map as_received cs)) T = insert_each now (map job_of_call cs) T"
proof (rule insert_each_cong)
  have "Marshal_args (job_Args (job_of_call (as_received c))) = Marshal_args (job_Args (job_of_call c))"
    if "exact_call c" for c
    using that Marshal_args_again
    by (cases c) (auto simp: exact_call_def as_received_def job_of_call_def split: sum.splits)
  with assms show "list_all2 (\<lambda>a b. job_Name a = job_Name b \<and> instant (job_ScheduledAt a) = instant (job_ScheduledAt b)
      \<and> Marshal_args (job_Args a) = Marshal_args (job_Args b)) (map job_of_call (map as_received cs)) (map job_of_call cs)"
    by (induction cs) (auto simp: job_of_call_def as_received_def)
qed

lemma direct_inserts: "fold (direct now) cs T = insert_each now (map job_of_call cs) T"
  by (induction cs arbitrary: T) (auto simp: direct_def JobManager_Enqueue_def job_of_call_def split: prod.splits)


text \<open>An integer just above 2 ^ 53 is not exact.\<close>

lemma float64_rounds: "float64 (of_int (2 ^ 53 + 1)) = of_int (2 ^ 53)"
proof -
  have "drop_bits53 9007199254740993 = 1" by (simp add: drop_bits53.simps)
  then show ?thesis by (simp add: float64_def round53_def Let_def)
qed

definition demo_call :: "int \<Rightarrow> enqueue_call" where
  "demo_call n = (''mail'', \<lparr>instant = 0, zone = 3600\<rparr>, [AnyInt n])"

lemma demo_sendable: "sendable (demo_call n)" "exact_call (demo_call 7)"
proof -
  have "time_Year \<lparr>instant = 0, zone = 3600\<rparr> = 1"
    by (simp add: time_Year_def wall_day_def wall_def year_of_day_def)
  then have "is_ok (time_MarshalJSON \<lparr>instant = 0, zone = 3600\<rparr>)"
    by (simp add: time_MarshalJSON_def del: pad.simps)
  then show "sendable (demo_call n)" by (simp add: sendable_def demo_call_def Marshal_args_def)
  have "exact_json (JArray [JNumber (of_int 7)])" using float64_int [of 7] by simp
  then show "exact_call (demo_call 7)" by (simp add: exact_call_def demo_call_def Marshal_args_def)
qed


text \<open>The argument of a call that is changed by the queue.\<close>

lemma queue_rounds: "as_received (demo_call (2 ^ 53 + 1)) = (''mail'', \<lparr>instant = 0, zone = 3600\<rparr>, [AnyFloat (of_int (2 ^ 53))])"
  using float64_rounds by (simp add: as_received_def demo_call_def)

lemma sync_loop_append: "sync_loop (xs @ ys) s = sync_loop ys (sync_loop xs s)"
proof (induction xs arbitrary: s)
  case (Cons x xs)
  obtain flt now ev where "x = (flt, now, ev)" by (cases x) auto
  with Cons show ?case by (cases ys) auto
qed simp

lemma stopped_empty: "(\<not> sync_running s \<Longrightarrow> jobsBatch s = []) \<Longrightarrow> \<not> sync_running (sync_loop evs s) \<Longrightarrow> jobsBatch (sync_loop evs s) = []"
proof (induction evs arbitrary: s)
  case (Cons e evs)
  obtain flt now ev where e: "e = (flt, now, ev)" by (cases e) auto
  have "\<not> sync_running (sync_handle flt now ev s) \<Longrightarrow> jobsBatch (sync_handle flt now ev s) = []"
    if "sync_running s" using that by (cases ev) (auto simp: Let_def split: sum.splits if_splits)
  with Cons e show ?case by (auto split: if_splits)
qed simp

text \<open>(C38) Stopping the worker loses jobs: when its context is cancelled, the jobs received since the
  last flush, at most 999, have left the queue and are in neither the table nor the batch.\<close>

theorem cancel_loses_batch:
  "let s = sync_loop evs (sync_start T); s' = sync_loop (evs @ [(flt, now, Cancelled)]) (sync_start T) in
   sync_table s' = sync_table s \<and> length (jobsBatch s) \<le> 999 \<and> jobsBatch s' = []"
proof -
  let ?s = "sync_loop evs (sync_start T)"
  have "sync_table (flushBatch (Some e) now ?s) = sync_table ?s" for e
    by (simp add: flushBatch_def snd_BulkInsert)
  moreover have "length (jobsBatch ?s) < sync_batchSize"
    by (rule batch_bounded) (simp add: sync_start_def sync_batchSize_def)
  moreover have "\<not> sync_running ?s \<Longrightarrow> jobsBatch ?s = []"
    using stopped_empty [of "sync_start T" evs] by (simp add: sync_start_def)
  ultimately show ?thesis by (simp add: sync_loop_append sync_batchSize_def)
qed

text \<open>Whatever fails, \<^verbatim>\<open>NewRabbitMQ\<close> closes what it has opened.\<close>

lemma NewRabbitMQ_cleans_up:
  "case NewRabbitMQ err url exchange queue key of (result, calls) \<Rightarrow>
     (OpenChannel \<in> set calls \<longrightarrow> (CloseConn \<in> set calls \<longleftrightarrow> result \<noteq> None))
     \<and> (ExchangeDeclare exchange \<in> set calls \<longrightarrow> (CloseChannel \<in> set calls \<longleftrightarrow> result \<noteq> None))"
  by (auto simp: NewRabbitMQ_def Let_def split: option.splits)

text \<open>What is published on a connection reaches the queue it was made for, and no other.\<close>

lemma published_reaches_queue:
  assumes "NewRabbitMQ err url exchange queue key = (None, calls)"
  shows "routed calls (PublishMessage exchange key m) = {queue}"
  using assms by (auto simp: NewRabbitMQ_def routed_def Let_def split: option.splits)

end
