(* ===== verification/JobManagerApi.thy ===== *)
theory JobManagerApi
  imports CronStore NextRun JobHandlers LockManager
begin

text \<open>
  The operations of the job manager that programs call (\<^verbatim>\<open>client/job_manager.go\<close>), apart from
  \<^verbatim>\<open>Enqueue\<close>, which is with the message queue: cron schedules, timers, look-up and removal of
  jobs, and the shutdown. The readings of the clock and the failures of the statements are arguments.
\<close>

section \<open>Jobs\<close>

definition RemoveEnqueue :: "fault \<Rightarrow> int \<Rightarrow> enqueued_table \<Rightarrow> fault \<times> enqueued_table" where
  "RemoveEnqueue flt jobID T = RemoveByID flt jobID T"

definition FindEnqueue :: "fault \<Rightarrow> int \<Rightarrow> enqueued_table \<Rightarrow> EnqueuedJob result outcome" where
  "FindEnqueue flt jobID T = FindByID flt jobID T"

section \<open>Cron schedules\<close>

text \<open>What a call meets: the failure of its statement, the time of the process and the time of the database.\<close>

record moment =
  mo_fault :: fault
  mo_now :: gotime
  mo_db_now :: timestamp

type_synonym scheduling = "((int \<times> fault) \<times> cron_table) option"

text \<open>\<^const>\<open>None\<close> is a computation of the next run that does not return.\<close>

definition addOrUpdate :: "moment \<Rightarrow> string \<Rightarrow> string \<Rightarrow> any list \<Rightarrow> cron_table \<Rightarrow> scheduling" where
  "addOrUpdate m jobName expression args T =
     (case CalculateNextRun expression (mo_now m) of
        None \<Rightarrow> None
      | Some scheduledAt \<Rightarrow> Some (AddOrUpdate (mo_fault m) (mo_db_now m) jobName scheduledAt expression args T))"

definition Schedule :: "moment \<Rightarrow> string \<Rightarrow> string \<Rightarrow> any list \<Rightarrow> cron_table \<Rightarrow> scheduling" where
  "Schedule m jobName expression args T = addOrUpdate m jobName expression args T"

text \<open>The six shorthands have the same body: they add the job and then schedule it again.\<close>

definition schedule_shorthand :: "string \<Rightarrow> moment \<Rightarrow> moment \<Rightarrow> string \<Rightarrow> any list \<Rightarrow> cron_table \<Rightarrow> scheduling" where
  "schedule_shorthand expression m1 m2 jobName args T =
     (case addOrUpdate m1 jobName expression args T of
        None \<Rightarrow> None
      | Some ((_, Some err), T') \<Rightarrow> Some ((0, Some err), T')
      | Some ((_, None), T') \<Rightarrow> Schedule m2 jobName expression args T')"

definition ScheduleEveryMinute :: "moment \<Rightarrow> moment \<Rightarrow> string \<Rightarrow> any list \<Rightarrow> cron_table \<Rightarrow> scheduling" where
  "ScheduleEveryMinute = schedule_shorthand ''* * * * *''"

definition ScheduleEveryHour :: "moment \<Rightarrow> moment \<Rightarrow> string \<Rightarrow> any list \<Rightarrow> cron_table \<Rightarrow> scheduling" where
  "ScheduleEveryHour = schedule_shorthand ''0 * * * *''"

definition ScheduleEveryDay :: "moment \<Rightarrow> moment \<Rightarrow> string \<Rightarrow> any list \<Rightarrow> cron_table \<Rightarrow> scheduling" where
  "ScheduleEveryDay = schedule_shorthand ''0 0 * * *''"

definition ScheduleEveryWeek :: "moment \<Rightarrow> moment \<Rightarrow> string \<Rightarrow> any list \<Rightarrow> cron_table \<Rightarrow> scheduling" where
  "ScheduleEveryWeek = schedule_shorthand ''0 0 * * 0''"

definition ScheduleEveryMonth :: "moment \<Rightarrow> moment \<Rightarrow> string \<Rightarrow> any list \<Rightarrow> cron_table \<Rightarrow> scheduling" where
  "ScheduleEveryMonth = schedule_shorthand ''0 0 1 * *''"

definition ScheduleEveryYear :: "moment \<Rightarrow> moment \<Rightarrow> string \<Rightarrow> any list \<Rightarrow> cron_table \<Rightarrow> scheduling" where
  "ScheduleEveryYear = schedule_shorthand ''0 0 1 1 *''"

text \<open>The error of the store is dropped.\<close>

definition ActivateSchedule :: "fault \<Rightarrow> int \<Rightarrow> cron_table \<Rightarrow> cron_table" where
  "ActivateSchedule flt jobID T = snd (Activate flt jobID T)"

definition DeActivateSchedule :: "fault \<Rightarrow> int \<Rightarrow> cron_table \<Rightarrow> cron_table" where
  "DeActivateSchedule flt jobID T = snd (DeActivate flt jobID T)"

section \<open>Timers\<close>

text \<open>A round of the loop reads the clock for the next run and again for the time until it; a run that
  is not yet due is awaited together with the end of the context. \<open>Fired\<close> carries the time at which the timer
  fires.\<close>

datatype timer_select = CtxDone go_error | Fired gotime

record timer_round =
  tr_now :: gotime
  tr_until :: gotime
  tr_select :: timer_select

datatype timer_end = Waiting | Stopped go_error | Crashed string | Stuck

definition time_Until :: "gotime \<Rightarrow> gotime \<Rightarrow> int" where
  "time_Until t now = max min_int (min max_int (instant t - instant now))"

text \<open>The calls made, each with the run it is for and the time it is made at, and how the loop ends; \<^const>\<open>Waiting\<close> when the
  rounds are used up.\<close>

fun runWithTimerInternal ::
  "string \<Rightarrow> handler_fun \<Rightarrow> any list \<Rightarrow> timer_round list \<Rightarrow> (gotime \<times> gotime) list \<times> timer_end" where
  "runWithTimerInternal expression fn args [] = ([], Waiting)"
| "runWithTimerInternal expression fn args (tr # trs) =
     (case CalculateNextRun expression (tr_now tr) of
        None \<Rightarrow> ([], Stuck)
      | Some next_run \<Rightarrow>
          (if time_Until next_run (tr_until tr) \<le> 0
           then (case fn args of
                   Panics p \<Rightarrow> ([(next_run, tr_until tr)], Crashed p)
                 | Returns _ \<Rightarrow> apfst (Cons (next_run, tr_until tr)) (runWithTimerInternal expression fn args trs))
           else (case tr_select tr of
                   CtxDone e \<Rightarrow> ([], Stopped e)
                 | Fired t \<Rightarrow>
                     (case fn args of
                        Panics p \<Rightarrow> ([(next_run, t)], Crashed p)
                      | Returns _ \<Rightarrow> apfst (Cons (next_run, t)) (runWithTimerInternal expression fn args trs)))))"

definition timer_job :: "JobHandler \<Rightarrow> string \<Rightarrow> handler_fun" where
  "timer_job jh jobName args =
     (if \<not> Exists jh jobName then Returns (Some (''handler for '' @ quoted jobName @ '' not found''))
      else Execute jh jobName args)"

text \<open>The goroutine that is started; the call itself returns nil.\<close>

definition ScheduleInvokeWithTimer ::
  "JobHandler \<Rightarrow> string \<Rightarrow> string \<Rightarrow> any list \<Rightarrow> timer_round list \<Rightarrow> (gotime \<times> gotime) list \<times> timer_end" where
  "ScheduleInvokeWithTimer jh jobName expression args trs =
     runWithTimerInternal expression (timer_job jh jobName) args trs"

definition ScheduleFuncWithTimer ::
  "string \<Rightarrow> handler_fun \<Rightarrow> any list \<Rightarrow> timer_round list \<Rightarrow> (gotime \<times> gotime) list \<times> timer_end" where
  "ScheduleFuncWithTimer expression fn args trs = runWithTimerInternal expression fn args trs"

section \<open>Shutdown\<close>

text \<open>After the signal the workers are told to stop and awaited, then the stores are closed, which
  ends the sessions of their pool, and at last every lock is released. The errors are logged or dropped; they
  are listed here. A lock call uses the session and meets the failure given for its lock.\<close>

record manager_state =
  ms_cancelled :: bool
  ms_handle :: handle
  ms_locks :: advisory

fun release_all :: "handle \<Rightarrow> (int \<Rightarrow> fault \<times> session) \<Rightarrow> int list \<Rightarrow> advisory \<Rightarrow> fault list \<times> advisory" where
  "release_all h how [] A = ([], A)"
| "release_all h how (lockID # ids) A =
     (case Release (stmt_fault h (fst (how lockID))) (snd (how lockID)) lockID A of
        (r, A') \<Rightarrow> apfst (Cons r) (release_all h how ids A'))"

definition GracefulExit ::
  "bool \<Rightarrow> fault \<Rightarrow> fault \<Rightarrow> (int \<Rightarrow> fault \<times> session) \<Rightarrow> session list \<Rightarrow> manager_state \<Rightarrow> fault list \<times> manager_state" where
  "GracefulExit has_cancel flt1 flt2 how pool M =
     (let cancelled = ms_cancelled M \<or> has_cancel;
          (e1, h1) = Cron_Close flt1 (ms_handle M);
          A1 = end_sessions pool (ms_locks M);
          (e2, h2) = Enqueued_Close flt2 h1;
          (es, A2) = release_all h2 how Locks A1
      in (e1 # e2 # es, \<lparr>ms_cancelled = cancelled, ms_handle = h2, ms_locks = A2\<rparr>))"

section \<open>What the shorthands mean\<close>

datatype period = Minutely | Hourly | Daily | Weekly | Monthly | Yearly

fun schedule_every :: "period \<Rightarrow> moment \<Rightarrow> moment \<Rightarrow> string \<Rightarrow> any list \<Rightarrow> cron_table \<Rightarrow> scheduling" where
  "schedule_every Minutely = ScheduleEveryMinute"
| "schedule_every Hourly = ScheduleEveryHour"
| "schedule_every Daily = ScheduleEveryDay"
| "schedule_every Weekly = ScheduleEveryWeek"
| "schedule_every Monthly = ScheduleEveryMonth"
| "schedule_every Yearly = ScheduleEveryYear"

fun period_expression :: "period \<Rightarrow> string" where
  "period_expression Minutely = ''* * * * *''"
| "period_expression Hourly = ''0 * * * *''"
| "period_expression Daily = ''0 0 * * *''"
| "period_expression Weekly = ''0 0 * * 0''"
| "period_expression Monthly = ''0 0 1 * *''"
| "period_expression Yearly = ''0 0 1 1 *''"

text \<open>The instants at which a period begins, by the calendar.\<close>

definition midnight :: "gotime \<Rightarrow> bool" where
  "midnight t \<longleftrightarrow> instant t mod minute_ns = 0 \<and> time_Minute t = 0 \<and> time_Hour t = 0"

fun begins :: "period \<Rightarrow> gotime \<Rightarrow> bool" where
  "begins Minutely t \<longleftrightarrow> instant t mod minute_ns = 0"
| "begins Hourly t \<longleftrightarrow> instant t mod minute_ns = 0 \<and> time_Minute t = 0"
| "begins Daily t \<longleftrightarrow> midnight t"
| "begins Weekly t \<longleftrightarrow> midnight t \<and> time_Weekday t = 0"
| "begins Monthly t \<longleftrightarrow> midnight t \<and> time_Day t = 1"
| "begins Yearly t \<longleftrightarrow> midnight t \<and> time_Day t = 1 \<and> time_Month t = 1"

fun period_fields :: "period \<Rightarrow> CronExpr" where
  "period_fields Minutely = \<lparr>Minute = [0..59], Hour = [0..23], DayOfMonth = [1..31], Month = [1..12], DayOfWeek = [0..6]\<rparr>"
| "period_fields Hourly = \<lparr>Minute = [0], Hour = [0..23], DayOfMonth = [1..31], Month = [1..12], DayOfWeek = [0..6]\<rparr>"
| "period_fields Daily = \<lparr>Minute = [0], Hour = [0], DayOfMonth = [1..31], Month = [1..12], DayOfWeek = [0..6]\<rparr>"
| "period_fields Weekly = \<lparr>Minute = [0], Hour = [0], DayOfMonth = [1..31], Month = [1..12], DayOfWeek = [0]\<rparr>"
| "period_fields Monthly = \<lparr>Minute = [0], Hour = [0], DayOfMonth = [1], Month = [1..12], DayOfWeek = [0..6]\<rparr>"
| "period_fields Yearly = \<lparr>Minute = [0], Hour = [0], DayOfMonth = [1], Month = [1], DayOfWeek = [0..6]\<rparr>"

lemma period_parses:
  "ParseCron ''* * * * *'' = Some (Inr (period_fields Minutely))"
  "ParseCron ''0 * * * *'' = Some (Inr (period_fields Hourly))"
  "ParseCron ''0 0 * * *'' = Some (Inr (period_fields Daily))"
  "ParseCron ''0 0 * * 0'' = Some (Inr (period_fields Weekly))"
  "ParseCron ''0 0 1 * *'' = Some (Inr (period_fields Monthly))"
  "ParseCron ''0 0 1 1 *'' = Some (Inr (period_fields Yearly))"
  by code_simp+

lemma ParseCron_period: "ParseCron (period_expression per) = Some (Inr (period_fields per))"
  by (cases per) (simp_all only: period_expression.simps period_parses)

lemma calendar_ranges:
  "0 \<le> time_Minute t" "time_Minute t \<le> 59" "0 \<le> time_Hour t" "time_Hour t \<le> 23" "1 \<le> time_Day t" "time_Day t \<le> 31"
  "1 \<le> time_Month t" "time_Month t \<le> 12" "0 \<le> time_Weekday t" "time_Weekday t \<le> 6"
  using time_Minute_range time_Hour_range time_Day_ge_1 time_Day_le_31 wall_day_in_month [of t]
  by (simp_all add: time_Weekday_def)

lemma fires_period: "fires (period_fields per) t \<longleftrightarrow> begins per t"
  by (cases per) (auto simp: fires_def midnight_def calendar_ranges)

lemma begins_somewhere: "begins per \<lparr>instant = (if per = Weekly then 6 * day_ns else 0), zone = 0\<rparr>"
  by (induction per; code_simp)

text \<open>The first time a period begins after a given time.\<close>

definition first_after :: "period \<Rightarrow> gotime \<Rightarrow> gotime \<Rightarrow> bool" where
  "first_after per from r \<longleftrightarrow> begins per r \<and> zone r = 0 \<and> instant from < instant r
     \<and> (\<forall>v. zone v = 0 \<and> begins per v \<and> instant from < instant v \<longrightarrow> instant r \<le> instant v)"

lemma period_next:
  assumes "zone from = 0"
  obtains r where "CalculateNextRun (period_expression per) from = Some r" "first_after per from r"
proof -
  let ?u = "\<lparr>instant = (if per = Weekly then 6 * day_ns else 0), zone = 0\<rparr>"
  have "zone ?u = 0" "fires (period_fields per) ?u" using begins_somewhere by (simp_all add: fires_period)
  from next_run_least [OF ParseCron_period assms this] show thesis
    using that by (auto simp: first_after_def fires_period)
qed

lemma schedule_every_shorthand: "schedule_every per = schedule_shorthand (period_expression per)"
  by (cases per) (simp_all add: ScheduleEveryMinute_def ScheduleEveryHour_def ScheduleEveryDay_def
      ScheduleEveryWeek_def ScheduleEveryMonth_def ScheduleEveryYear_def)

section \<open>The course of a timer\<close>

text \<open>A clock that does not go backwards and a timer that does not fire early; the next run is within the range of
  a duration.\<close>

fun clock_ok :: "string \<Rightarrow> int \<Rightarrow> timer_round list \<Rightarrow> bool" where
  "clock_ok expression t [] \<longleftrightarrow> True"
| "clock_ok expression t (tr # trs) \<longleftrightarrow>
     t \<le> instant (tr_now tr) \<and> instant (tr_now tr) \<le> instant (tr_until tr)
     \<and> (case CalculateNextRun expression (tr_now tr) of
          None \<Rightarrow> True
        | Some r \<Rightarrow>
            instant r - instant (tr_until tr) \<le> max_int
            \<and> (if time_Until r (tr_until tr) \<le> 0 then clock_ok expression (instant (tr_until tr)) trs
               else case tr_select tr of
                      CtxDone e \<Rightarrow> True
                    | Fired u \<Rightarrow> instant (tr_until tr) + time_Until r (tr_until tr) \<le> instant u
                        \<and> clock_ok expression (instant u) trs))"

definition call_in_order :: "gotime \<times> gotime \<Rightarrow> gotime \<times> gotime \<Rightarrow> bool" where
  "call_in_order c c' \<longleftrightarrow> instant (snd c) < instant (fst c')"

definition calls_ok :: "string \<Rightarrow> int \<Rightarrow> (gotime \<times> gotime) list \<times> timer_end \<Rightarrow> bool" where
  "calls_ok expression t R \<longleftrightarrow> snd R \<noteq> Stuck \<and> sorted_wrt call_in_order (fst R)
     \<and> list_all (\<lambda>(due, run). t < instant due \<and> instant due \<le> instant run
         \<and> (\<exists>now. CalculateNextRun expression now = Some due)) (fst R)"

lemma time_Until_due: "time_Until r now \<le> 0 \<longleftrightarrow> instant r \<le> instant now"
  by (auto simp: time_Until_def min_int_def max_int_def)

lemma time_Until_exact: "instant now < instant r \<Longrightarrow> instant r - instant now \<le> max_int \<Longrightarrow> time_Until r now = instant r - instant now"
  by (auto simp: time_Until_def min_int_def)

lemma calls_ok_Cons:
  assumes "calls_ok expression (instant run) R" "t < instant due" "instant due \<le> instant run"
    and "CalculateNextRun expression now = Some due"
  shows "calls_ok expression t (apfst (Cons (due, run)) R)"
  using assms by (cases R) (fastforce simp: calls_ok_def call_in_order_def list_all_iff)

lemma calls_ok_one:
  assumes "t < instant due" "instant due \<le> instant run" "CalculateNextRun expression now = Some due"
  shows "calls_ok expression t ([(due, run)], Crashed p)"
  using assms by (auto simp: calls_ok_def)

lemma runWithTimer_calls_ok: "clock_ok expression t trs \<Longrightarrow> calls_ok expression t (runWithTimerInternal expression fn args trs)"
proof (induction trs arbitrary: t)
  case Nil
  then show ?case by (simp add: calls_ok_def)
next
  case (Cons tr trs)
  obtain r where r: "CalculateNextRun expression (tr_now tr) = Some r" "instant (tr_now tr) < instant r"
    using next_run_later by blast
  have t: "t < instant r" using Cons.prems r(2) by simp
  show ?case
  proof (cases "instant r \<le> instant (tr_until tr)")
    case True
    then have "clock_ok expression (instant (tr_until tr)) trs" using Cons.prems r(1) by (simp add: time_Until_due)
    from Cons.IH [OF this] t True r(1) show ?thesis
      by (auto simp: time_Until_due intro: calls_ok_Cons calls_ok_one split: outcome.splits)
  next
    case wait: False
    show ?thesis
    proof (cases "tr_select tr")
      case (CtxDone e)
      with wait r(1) show ?thesis by (simp add: time_Until_due calls_ok_def)
    next
      case (Fired u)
      then have "clock_ok expression (instant u) trs" "instant r \<le> instant u"
        using Cons.prems r(1) wait by (auto simp: time_Until_due time_Until_exact)
      from Cons.IH [OF this(1)] this(2) t wait Fired r(1) show ?thesis
        by (auto simp: time_Until_due intro: calls_ok_Cons calls_ok_one split: outcome.splits)
    qed
  qed
qed

lemma release_all_closed:
  "pool_closed h \<Longrightarrow> release_all h how ids A = (replicate (length ids) (Some ''failed to release lock: sql: database is closed''), A)"
  by (induction ids) (simp_all add: Release_def stmt_fault_def)

lemma run_state_id:
  assumes "map_option cr_id x = Some i" "map_option run_state x = Some (j, rest)"
  shows "j = i"
  using assms by (auto simp: run_state_def)

lemma length_Locks: "length Locks = 7"
  by (simp add: Locks_def)

section \<open>Properties\<close>

text \<open>(C18) The six shorthands schedule what their names say. In UTC each of them, although it writes the job twice, leaves the schedule
  with the job under its expression and its next run at the first beginning of a minute, hour, day, week
  (Sunday), month or year after the time of the call; other jobs are untouched, and a job that was
  there keeps its id, status, lock and activation.\<close>

theorem ScheduleEvery_first_after:
  assumes "cron_reach T" "Marshal_args args = Inr payload" "mo_fault m = None" "mo_fault m' = None"
    and "zone (mo_now m') = 0"
  shows "\<exists>i T' r. schedule_every per m m' name args T = Some ((i, None), T') \<and> first_after per (mo_now m') r
    \<and> schedule_of T' = put name r (period_expression per) payload (schedule_of T)
    \<and> (\<forall>other. other \<noteq> name \<longrightarrow> named T' other = named T other)
    \<and> map_option run_state (named T' name) =
        (case named T name of
           Some row \<Rightarrow> Some (run_state row)
         | None \<Rightarrow> Some (i, StatusQueued, None, None, None, None, True))"
proof -
  let ?e = "period_expression per"
  obtain r1 where r1: "CalculateNextRun ?e (mo_now m) = Some r1" using next_run_later by blast
  obtain r2 where r2: "CalculateNextRun ?e (mo_now m') = Some r2" "first_after per (mo_now m') r2"
    using period_next [OF assms(5)] by blast
  obtain i1 x1 T1 where T1: "AddOrUpdate None (mo_db_now m) name r1 ?e args T = ((i1, x1), T1)" by (metis surj_pair)
  obtain i2 x2 T2 where T2: "AddOrUpdate None (mo_db_now m') name r2 ?e args T1 = ((i2, x2), T2)" by (metis surj_pair)
  have inv: "cron_inv T" using assms(1) by (rule cron_reach_inv)
  then have "cron_inv T1" using inv_AddOrUpdate T1 by (metis snd_conv)
  note e1 = AddOrUpdate_effect [OF inv assms(2), where now = "mo_db_now m" and name = name and sched = r1 and expr = ?e,
      unfolded T1 prod.case]
    and e2 = AddOrUpdate_effect [OF \<open>cron_inv T1\<close> assms(2), where now = "mo_db_now m'" and name = name and sched = r2 and expr = ?e,
      unfolded T2 prod.case]
  have "schedule_every per m m' name args T = Some ((i2, None), T2)"
    using e1 e2 assms(3,4) r1 r2(1) T1 T2
    by (simp add: schedule_every_shorthand schedule_shorthand_def addOrUpdate_def Schedule_def)
  moreover have "schedule_of T2 = put name r2 ?e payload (schedule_of T)"
    using e1 e2 by (simp add: put_def)
  moreover have "\<forall>other. other \<noteq> name \<longrightarrow> named T2 other = named T other" using e1 e2 by simp
  moreover have "map_option run_state (named T2 name) =
      (case named T name of Some row \<Rightarrow> Some (run_state row) | None \<Rightarrow> Some (i2, StatusQueued, None, None, None, None, True))"
    using e1 e2 run_state_id [of "named T2 name" i2] by (auto simp del: map_option_eq_Some split: option.splits)
  ultimately show ?thesis using r2(2) by blast
qed

text \<open>(C17) A timer runs each occurrence at most once and never early. With a clock that does not go backwards, every call of
  the function is for a run of the expression that is due when the call is made, and the next call is for a run
  after it; the loop never gets stuck computing the next run.\<close>

theorem timer_runs_once:
  assumes "clock_ok expression t trs"
  shows "case runWithTimerInternal expression fn args trs of (calls, e) \<Rightarrow>
      e \<noteq> Stuck \<and> sorted_wrt (\<lambda>(due, run) (due', run'). instant run < instant due') calls
      \<and> (\<forall>(due, run) \<in> set calls. t < instant due \<and> instant due \<le> instant run
           \<and> (\<exists>now. CalculateNextRun expression now = Some due))"
  using runWithTimer_calls_ok [OF assms, of fn args]
  by (auto simp: calls_ok_def call_in_order_def [abs_def] list_all_iff case_prod_unfold)

text \<open>(C35) A graceful exit leaves no lock behind. It closes the pool before it releases the locks, so all seven
  releases fail; closing the pool has ended its sessions, and with them their locks. The locks of
  other processes stay.\<close>

theorem GracefulExit_frees_locks:
  "case GracefulExit has_cancel flt1 flt2 how pool M of (errs, M') \<Rightarrow>
     ms_cancelled M' = (ms_cancelled M \<or> has_cancel) \<and> pool_closed (ms_handle M')
     \<and> (\<forall>k. holder (ms_locks M') k =
          (case holder (ms_locks M) k of Some s \<Rightarrow> if s \<in> set pool then None else Some s | None \<Rightarrow> None))
     \<and> errs = [flt1, flt2] @ replicate 7 (Some ''failed to release lock: sql: database is closed'')"
  by (simp add: GracefulExit_def Cron_Close_def Enqueued_Close_def Close_handle_def release_all_closed
      holder_end_sessions length_Locks)

section \<open>Witnesses\<close>

definition demo_moment :: "int \<Rightarrow> moment" where
  "demo_moment t = \<lparr>mo_fault = None, mo_now = \<lparr>instant = t, zone = 0\<rparr>, mo_db_now = t\<rparr>"

theorem ScheduleEvery_first_after_witness:
  "\<exists>i T' r. ScheduleEveryWeek (demo_moment 5) (demo_moment 6) ''report'' [] empty_table = Some ((i, None), T')
     \<and> first_after Weekly \<lparr>instant = 6, zone = 0\<rparr> r \<and> schedule_of T' = [''report'' \<mapsto> (''0 0 * * 0'', JNull, Some (wall r))]"
proof -
  have "cron_reach empty_table" "Marshal_args [] = Inr JNull" by (auto intro: cron_reach.intros simp: Marshal_args_def)
  moreover have "schedule_of empty_table = Map.empty" by (simp add: schedule_of_def named_def fun_eq_iff)
  ultimately show ?thesis
    using ScheduleEvery_first_after [of empty_table "[]" JNull, where per = Weekly and name = "''report''" and m = "demo_moment 5" and m' = "demo_moment 6"]
    by (fastforce simp: demo_moment_def put_def)
qed

lemma demo_next_run: "CalculateNextRun ''* * * * *'' \<lparr>instant = 5, zone = 0\<rparr> = Some \<lparr>instant = minute_ns, zone = 0\<rparr>"
proof -
  have "cron_step (period_fields Minutely) (time_Truncate (time_Add \<lparr>instant = 5, zone = 0\<rparr> minute_ns) minute_ns) =
      Inl \<lparr>instant = minute_ns, zone = 0\<rparr>" by code_simp
  then show ?thesis by (simp only: CalculateNextRun_def period_parses cron_loop_numeral option.case sum.case)
qed

definition demo_round :: timer_round where
  "demo_round = \<lparr>tr_now = \<lparr>instant = 5, zone = 0\<rparr>, tr_until = \<lparr>instant = 7, zone = 0\<rparr>, tr_select = Fired \<lparr>instant = minute_ns + 2, zone = 0\<rparr>\<rparr>"

theorem timer_runs_once_witness:
  "case runWithTimerInternal ''* * * * *'' (\<lambda>_. Returns None) [] [demo_round] of (calls, e) \<Rightarrow>
     length calls = 1 \<and> e \<noteq> Stuck \<and> (\<forall>(due, run) \<in> set calls. 5 < instant due \<and> instant due \<le> instant run)"
proof -
  have "clock_ok ''* * * * *'' 5 [demo_round]"
    by (simp add: demo_round_def demo_next_run time_Until_def max_int_def min_int_def)
  from timer_runs_once [OF this, of "\<lambda>_. Returns None" "[]"] show ?thesis
    by (simp add: demo_round_def demo_next_run time_Until_def max_int_def min_int_def)
qed

end
