(* ===== verification/AppWiring.thy ===== *)
theory AppWiring
  imports GofireConfig DbInit UserStore QueueSync JobManagerApi
begin

text \<open>
  How the program is put together at start-up: the container of dependencies (\<^verbatim>\<open>app/\<close>), the job
  manager for programs that schedule jobs (\<^verbatim>\<open>jobmanager/run.go\<close>) and the server that runs them
  (\<^verbatim>\<open>gofire/server.go\<close>). The failures of the connections, of the initialisation and of the statements are
  arguments. The goroutines that are started are listed in their order; what they do is in the
  theories of their managers.
\<close>

section \<open>The container\<close>

type_synonym redis_client = nat

datatype enqueued_store = PostgresEnqueuedJobStore "handle option"
datatype cron_store = PostgresCronJobStore "handle option"
datatype user_store = PostgresUserStore "handle option"
datatype distributed_lock = PostgresDistributedLockManager "handle option"

record broker =
  bk_url :: string
  bk_exchange :: string
  bk_queue :: string
  bk_routing_key :: string

text \<open>\<^verbatim>\<open>Cancel\<close> is nil until a server is started.\<close>

record JobManager =
  jm_EnqueuedJobStore :: enqueued_store
  jm_CronJobStore :: cron_store
  jm_MBroker :: "broker option"
  jm_JobHandler :: JobHandler
  jm_lockManager :: distributed_lock
  jm_Cancel :: bool
  jm_Wg :: int
  jm_writeJobsToQueue :: bool
  jm_jobQueueName :: string

definition NewJobManager ::
  "enqueued_store \<Rightarrow> cron_store \<Rightarrow> JobHandler \<Rightarrow> distributed_lock \<Rightarrow> broker option \<Rightarrow> bool \<Rightarrow> string \<Rightarrow> JobManager" where
  "NewJobManager enqueuedStore cronStore jobHandler lockManager messageBroker writeJobsToQueue jobQueueName =
     \<lparr>jm_EnqueuedJobStore = enqueuedStore, jm_CronJobStore = cronStore, jm_MBroker = messageBroker,
      jm_JobHandler = jobHandler, jm_lockManager = lockManager, jm_Cancel = False, jm_Wg = 0,
      jm_writeJobsToQueue = writeJobsToQueue,
      jm_jobQueueName = jobQueueName\<rparr>"

record Container =
  co_Config :: "GofireConfig option"
  co_DB :: "handle option"
  co_Redis :: "redis_client option"
  co_EnqueuedJobStore :: enqueued_store
  co_CronJobStore :: cron_store
  co_UserStore :: user_store
  co_LockManager :: distributed_lock
  co_MessageBroker :: "broker option"
  co_JobHandler :: JobHandler
  co_JobManager :: "JobManager option"

text \<open>The goroutines: those every container starts, the workers with their interval, worker count and batch size, the
  worker of the message queue with the section it reads, and the dashboard.\<close>

datatype goroutine =
    CronResultProcessor
  | RetryFailedJobs
  | EnqueueWorker int int int
  | CronWorker int int int
  | QueueSyncWorker "RabbitMQConfig option"
  | Dashboard string bool "64 word"

record containerConfig =
  cc_db :: "handle option"
  cc_redis :: "redis_client option"

definition WithDB :: "handle option \<Rightarrow> containerConfig \<Rightarrow> containerConfig" where
  "WithDB db c = c\<lparr>cc_db := db\<rparr>"

definition WithRedis :: "redis_client option \<Rightarrow> containerConfig \<Rightarrow> containerConfig" where
  "WithRedis redis c = c\<lparr>cc_redis := redis\<rparr>"

definition createEnqueuedJobStore :: "StorageDriver \<Rightarrow> handle option \<Rightarrow> enqueued_store outcome" where
  "createEnqueuedJobStore driver db =
     (if driver = Postgres then Returns (PostgresEnqueuedJobStore db) else Panics ''unsupported storage driver'')"

definition createCronJobStore :: "StorageDriver \<Rightarrow> handle option \<Rightarrow> cron_store outcome" where
  "createCronJobStore driver db =
     (if driver = Postgres then Returns (PostgresCronJobStore db) else Panics ''unsupported storage driver'')"

definition createUserStore :: "StorageDriver \<Rightarrow> handle option \<Rightarrow> user_store outcome" where
  "createUserStore driver db =
     (if driver = Postgres then Returns (PostgresUserStore db) else Panics ''unsupported storage driver'')"

definition createDistributedLockManager :: "StorageDriver \<Rightarrow> handle option \<Rightarrow> distributed_lock outcome" where
  "createDistributedLockManager driver db =
     (if driver = Postgres then Returns (PostgresDistributedLockManager db) else Panics ''unsupported storage driver'')"

lemmas create_defs = createEnqueuedJobStore_def createCronJobStore_def createUserStore_def createDistributedLockManager_def

text \<open>What start-up meets: the errors of \<^verbatim>\<open>sql.Open\<close>, of the calls to the message queue, of the calls of the
  initialisation and of the statements on the users, the scripts, and the hash of a password.\<close>

record start_env =
  sql_open :: "string \<Rightarrow> fault"
  amqp_err :: "amqp_call \<Rightarrow> fault"
  init_err :: "nat \<Rightarrow> ddl list db_call \<Rightarrow> fault"
  init_read :: "ddl list list result"
  user_faults :: "fault \<times> fault \<times> fault"
  bcrypt :: "string \<Rightarrow> string result"

definition openPostgresDB :: "start_env \<Rightarrow> string \<Rightarrow> handle result" where
  "openPostgresDB env connectionURL =
     (case sql_open env connectionURL of
        Some e \<Rightarrow> Inl (''open postgres: '' @ e)
      | None \<Rightarrow> Inr \<lparr>pool_closed = False\<rparr>)"

definition initStorageConnections :: "start_env \<Rightarrow> GofireConfig \<Rightarrow> (handle option \<times> redis_client option) result" where
  "initStorageConnections env cfg =
     (if cfg_StorageDriver cfg = Postgres
      then (case openPostgresDB env (pg_ConnectionUrl (cfg_PostgresConfig cfg)) of
              Inl e \<Rightarrow> Inl e
            | Inr db \<Rightarrow> Inr (Some db, None))
      else Inl (''unsupported storage driver: '' @ StorageDriver_String (cfg_StorageDriver cfg)))"

definition nil_dereference :: string where
  "nil_dereference = ''runtime error: invalid memory address or nil pointer dereference''"

text \<open>The broker and the manager, after the cron job manager has started its goroutine.\<close>

definition connect_broker :: "start_env \<Rightarrow> GofireConfig \<Rightarrow> broker option result outcome" where
  "connect_broker env cfg =
     (if \<not> cfg_UseQueueWriter cfg then Returns (Inr None)
      else case cfg_RabbitMQConfig cfg of
             None \<Rightarrow> Panics nil_dereference
           | Some mq \<Rightarrow>
               (case fst (NewRabbitMQ (amqp_err env) (mq_URL mq) (mq_Exchange mq) (mq_Queue mq) []) of
                  Some e \<Rightarrow> Returns (Inl (''init rabbitmq: '' @ e))
                | None \<Rightarrow> Returns (Inr (Some \<lparr>bk_url = mq_URL mq, bk_exchange = mq_Exchange mq,
                                              bk_queue = mq_Queue mq, bk_routing_key = []\<rparr>))))"

definition build_container ::
  "start_env \<Rightarrow> GofireConfig \<Rightarrow> handle option \<Rightarrow> redis_client option \<Rightarrow> enqueued_store \<Rightarrow> cron_store \<Rightarrow> user_store
   \<Rightarrow> distributed_lock \<Rightarrow> goroutine list \<times> Container result outcome" where
  "build_container env cfg db redis es cs us lm =
     (case connect_broker env cfg of
        Panics p \<Rightarrow> ([CronResultProcessor], Panics p)
      | Returns (Inl e) \<Rightarrow> ([CronResultProcessor], Returns (Inl e))
      | Returns (Inr mb) \<Rightarrow>
          (case cfg_RabbitMQConfig cfg of
             None \<Rightarrow> ([CronResultProcessor, RetryFailedJobs], Panics nil_dereference)
           | Some mq \<Rightarrow>
               ([CronResultProcessor, RetryFailedJobs],
                Returns (Inr \<lparr>co_Config = Some cfg, co_DB = db, co_Redis = redis, co_EnqueuedJobStore = es,
                  co_CronJobStore = cs, co_UserStore = us, co_LockManager = lm, co_MessageBroker = mb,
                  co_JobHandler = NewJobHandler,
                  co_JobManager = Some (NewJobManager es cs NewJobHandler lm mb (cfg_UseQueueWriter cfg) (mq_Queue mq))\<rparr>))))"

definition NewContainer ::
  "start_env \<Rightarrow> GofireConfig \<Rightarrow> (containerConfig \<Rightarrow> containerConfig) list \<Rightarrow> goroutine list \<times> Container result outcome" where
  "NewContainer env cfg opts =
     (let opt = fold (\<lambda>f c. f c) opts \<lparr>cc_db = None, cc_redis = None\<rparr>;
          conns = (case cc_db opt of
                     Some h \<Rightarrow> Inr (Some h, cc_redis opt)
                   | None \<Rightarrow> (case initStorageConnections env cfg of
                                Inl e \<Rightarrow> Inl (''init storage: '' @ e)
                              | Inr c \<Rightarrow> Inr c))
      in case conns of
           Inl e \<Rightarrow> ([], Returns (Inl e))
         | Inr (db, redis) \<Rightarrow>
             (case createEnqueuedJobStore (cfg_StorageDriver cfg) db of
                Panics p \<Rightarrow> ([], Panics p)
              | Returns es \<Rightarrow>
                  (case createCronJobStore (cfg_StorageDriver cfg) db of
                     Panics p \<Rightarrow> ([], Panics p)
                   | Returns cs \<Rightarrow>
                       (case createUserStore (cfg_StorageDriver cfg) db of
                          Panics p \<Rightarrow> ([], Panics p)
                        | Returns us \<Rightarrow>
                            (case createDistributedLockManager (cfg_StorageDriver cfg) db of
                               Panics p \<Rightarrow> ([], Panics p)
                             | Returns lm \<Rightarrow> build_container env cfg db redis es cs us lm)))))"

section \<open>The job manager\<close>

text \<open>The container and its job manager share one registry of handlers. A nil function is registered like any other and panics when called.\<close>

definition func_value :: "handler_fun option \<Rightarrow> handler_fun" where
  "func_value f args = (case f of None \<Rightarrow> Panics nil_dereference | Some g \<Rightarrow> g args)"

definition config_handlers :: "GofireConfig \<Rightarrow> (string \<times> handler_fun) list" where
  "config_handlers cfg = map (\<lambda>h. (mh_JobName h, func_value (mh_Func h))) (cfg_Handlers cfg)"

definition with_handlers :: "JobHandler \<Rightarrow> Container \<Rightarrow> Container" where
  "with_handlers jh c =
     c\<lparr>co_JobHandler := jh, co_JobManager := map_option (\<lambda>m. m\<lparr>jm_JobHandler := jh\<rparr>) (co_JobManager c)\<rparr>"

text \<open>The steps of \<^verbatim>\<open>New\<close> after the container; \<^verbatim>\<open>Inr None\<close> would be a nil manager without error.\<close>

definition start_manager ::
  "start_env \<Rightarrow> GofireConfig \<Rightarrow> Container \<Rightarrow> user_table \<Rightarrow> goroutine list \<times> JobManager option result \<times> user_table" where
  "start_manager env cfg container T =
     (case register_all (co_JobHandler container) (config_handlers cfg) of
        (Inl e, jh) \<Rightarrow> ([], Inl e, T)
      | (Inr _, jh) \<Rightarrow>
          (case fst (Init (init_err env) (init_read env) (pg_ConnectionUrl (cfg_PostgresConfig cfg))) of
             Some e \<Rightarrow> ([], Inl e, T)
           | None \<Rightarrow>
               (case user_faults env of (f1, f2, f3) \<Rightarrow>
                (case createDashboardAdminIfConfigured f1 f2 f3 (bcrypt env) (cfg_DashboardUserName cfg)
                        (cfg_DashboardPassword cfg) T of
                   (Some e, T') \<Rightarrow> ([], Inl e, T')
                 | (None, T') \<Rightarrow>
                     (if cfg_DashboardAuthEnabled cfg
                      then [Dashboard (cfg_SecretKey cfg) (cfg_DashboardAuthEnabled cfg) (cfg_DashboardPort cfg)] else [],
                      Inr (co_JobManager (with_handlers jh container)), T')))))"

text \<open>A panic is recovered and logged; the results keep their zero values, nil and nil.\<close>

definition New ::
  "start_env \<Rightarrow> GofireConfig \<Rightarrow> user_table \<Rightarrow> goroutine list \<times> JobManager option result \<times> user_table" where
  "New env cfg T =
     (case NewContainer env cfg [] of
        (gs, Panics p) \<Rightarrow> (gs, Inr None, T)
      | (gs, Returns (Inl e)) \<Rightarrow> (gs, Inl e, T)
      | (gs, Returns (Inr container)) \<Rightarrow>
          (case start_manager env cfg container T of (gs', r) \<Rightarrow> (gs @ gs', r)))"

section \<open>The server\<close>

definition AddServerWithContainer ::
  "Container option \<Rightarrow> goroutine list \<times> JobManager option result" where
  "AddServerWithContainer container =
     (case container of
        None \<Rightarrow> ([], Inl ''nil container'')
      | Some c \<Rightarrow>
          (case co_Config c of
             None \<Rightarrow> ([], Inl ''nil container'')
           | Some cfg \<Rightarrow>
               (if co_JobManager c = None then ([], Inl ''nil container'')
                else case register_all (co_JobHandler c) (config_handlers cfg) of
                       (Inl e, jh) \<Rightarrow> ([], Inl e)
                     | (Inr _, jh) \<Rightarrow>
                         ([EnqueueWorker (cfg_EnqueueInterval cfg) (cfg_WorkerCount cfg) (cfg_BatchSize cfg),
                           CronWorker (cfg_ScheduleInterval cfg) (cfg_WorkerCount cfg) (cfg_BatchSize cfg)]
                          @ (if cfg_UseQueueWriter cfg then [QueueSyncWorker (cfg_RabbitMQConfig cfg)] else []),
                          Inr (map_option (\<lambda>m. m\<lparr>jm_Cancel := True, jm_Wg := jm_Wg m + 2\<rparr>)
                                 (co_JobManager (with_handlers jh c)))))))"

definition AddServer :: "start_env \<Rightarrow> GofireConfig \<Rightarrow> goroutine list \<times> JobManager option result outcome" where
  "AddServer env cfg =
     (case NewContainer env cfg [] of
        (gs, Panics p) \<Rightarrow> (gs, Panics p)
      | (gs, Returns (Inl e)) \<Rightarrow> (gs, Returns (Inl e))
      | (gs, Returns (Inr container)) \<Rightarrow>
          (case AddServerWithContainer (Some container) of (gs', r) \<Rightarrow> (gs @ gs', Returns r)))"

section \<open>Lemmas\<close>

definition broker_ok :: "start_env \<Rightarrow> GofireConfig \<Rightarrow> bool" where
  "broker_ok env cfg \<longleftrightarrow> (case cfg_RabbitMQConfig cfg of
     None \<Rightarrow> False
   | Some mq \<Rightarrow> cfg_UseQueueWriter cfg \<longrightarrow>
       fst (NewRabbitMQ (amqp_err env) (mq_URL mq) (mq_Exchange mq) (mq_Queue mq) []) = None)"

abbreviation db_url :: "GofireConfig \<Rightarrow> string" where
  "db_url cfg \<equiv> pg_ConnectionUrl (cfg_PostgresConfig cfg)"

definition admin_fault :: "start_env \<Rightarrow> GofireConfig \<Rightarrow> user_table \<Rightarrow> fault" where
  "admin_fault env cfg T = (case user_faults env of (f1, f2, f3) \<Rightarrow>
     fst (createDashboardAdminIfConfigured f1 f2 f3 (bcrypt env) (cfg_DashboardUserName cfg) (cfg_DashboardPassword cfg) T))"

lemma NewContainer_Postgres:
  assumes "cfg_StorageDriver cfg = Postgres"
  shows "NewContainer env cfg [] =
    (case sql_open env (db_url cfg) of
       Some e \<Rightarrow> ([], Returns (Inl (''init storage: open postgres: '' @ e)))
     | None \<Rightarrow> let db = Some \<lparr>pool_closed = False\<rparr> in
         build_container env cfg db None (PostgresEnqueuedJobStore db) (PostgresCronJobStore db)
           (PostgresUserStore db) (PostgresDistributedLockManager db))"
  using assms by (simp add: NewContainer_def initStorageConnections_def openPostgresDB_def create_defs Let_def split: option.splits)

lemma build_container_ok:
  assumes "queue_ok cfg" "broker_ok env cfg"
  obtains c m where "build_container env cfg db redis es cs us lm = ([CronResultProcessor, RetryFailedJobs], Returns (Inr c))"
    "co_Config c = Some cfg" "co_JobHandler c = NewJobHandler" "co_JobManager c = Some m" "\<not> jm_Cancel m"
proof -
  obtain mq where mq: "cfg_RabbitMQConfig cfg = Some mq" using assms(1) by (auto simp: queue_ok_def)
  then obtain mb where "connect_broker env cfg = Returns (Inr mb)"
    using assms(2) by (cases "cfg_UseQueueWriter cfg") (simp_all add: connect_broker_def broker_ok_def)
  with mq that show thesis by (simp add: build_container_def NewJobManager_def)
qed

lemma build_container_fails:
  assumes "queue_ok cfg" "\<not> broker_ok env cfg"
  obtains e where "build_container env cfg db redis es cs us lm = ([CronResultProcessor], Returns (Inl e))"
  using assms that by (auto simp: build_container_def connect_broker_def queue_ok_def broker_ok_def split: option.splits)

text \<open>A well-formed configuration gives a container or an error, never a panic.\<close>

lemma NewContainer_cases:
  assumes "config_ok cfg"
  shows "if sql_open env (db_url cfg) = None \<and> broker_ok env cfg
    then \<exists>c m. NewContainer env cfg [] = ([CronResultProcessor, RetryFailedJobs], Returns (Inr c)) \<and> co_Config c = Some cfg
      \<and> co_JobHandler c = NewJobHandler \<and> co_JobManager c = Some m \<and> \<not> jm_Cancel m
    else \<exists>gs e. NewContainer env cfg [] = (gs, Returns (Inl e))"
proof -
  have q: "queue_ok cfg" and d: "cfg_StorageDriver cfg = Postgres" using assms by (simp_all add: config_ok_def)
  show ?thesis
  proof (cases "sql_open env (db_url cfg)")
    case None
    show ?thesis
    proof (cases "broker_ok env cfg")
      case True
      with None show ?thesis by (auto simp: NewContainer_Postgres [OF d] Let_def intro: build_container_ok [OF q True])
    next
      case False
      with None show ?thesis by (auto simp: NewContainer_Postgres [OF d] Let_def intro: build_container_fails [OF q False])
    qed
  qed (simp add: NewContainer_Postgres [OF d])
qed

lemma register_config:
  assumes "register_all NewJobHandler (config_handlers cfg) = (r, jh)"
  shows "(\<exists>u. r = Inr u) \<longleftrightarrow> distinct (map mh_JobName (cfg_Handlers cfg))"
    and "r = Inr u \<Longrightarrow> handlers jh = map_of (config_handlers cfg)"
proof -
  let ?hs = "config_handlers cfg"
  have names: "map fst ?hs = map mh_JobName (cfg_Handlers cfg)" by (simp add: config_handlers_def)
  have "\<exists>e. r = Inl e" if "\<not> distinct (map fst ?hs)"
    using register_all_taken [of ?hs NewJobHandler] that assms by auto
  moreover have "r = Inr () \<and> handlers jh = map_of ?hs" if "distinct (map fst ?hs)"
    using register_all_fresh [OF that, of NewJobHandler] assms by (auto simp: NewJobHandler_def)
  ultimately show "(\<exists>u. r = Inr u) \<longleftrightarrow> distinct (map mh_JobName (cfg_Handlers cfg))"
    "r = Inr u \<Longrightarrow> handlers jh = map_of ?hs"
    unfolding names by auto
qed

section \<open>Properties\<close>

text \<open>(C16) With a well-formed configuration the start of a job manager gives a manager or an error, never a panic and never a nil manager
  without error. It gives a manager exactly when the database opens, the message queue, if used, connects, no
  two handlers share a name, the migrations succeed and the administrator can be created. The manager then has
  exactly the handlers of the configuration; no workers run, only the two goroutines every
  container starts and, with authentication on, the dashboard.\<close>

theorem New_manager_or_error:
  assumes "config_ok cfg"
  shows "case New env cfg T of (gs, r, T') \<Rightarrow>
    r \<noteq> Inr None
    \<and> ((\<exists>m. r = Inr (Some m)) \<longleftrightarrow> sql_open env (db_url cfg) = None \<and> broker_ok env cfg
        \<and> distinct (map mh_JobName (cfg_Handlers cfg))
        \<and> fst (Init (init_err env) (init_read env) (db_url cfg)) = None \<and> admin_fault env cfg T = None)
    \<and> (\<forall>m. r = Inr (Some m) \<longrightarrow> handlers (jm_JobHandler m) = map_of (config_handlers cfg) \<and> \<not> jm_Cancel m
        \<and> gs = [CronResultProcessor, RetryFailedJobs] @
            (if cfg_DashboardAuthEnabled cfg then [Dashboard (cfg_SecretKey cfg) True (cfg_DashboardPort cfg)] else []))"
proof (cases "sql_open env (db_url cfg) = None \<and> broker_ok env cfg")
  case True
  with NewContainer_cases [OF assms, of env] obtain c m where
    c: "NewContainer env cfg [] = ([CronResultProcessor, RetryFailedJobs], Returns (Inr c))"
      "co_JobHandler c = NewJobHandler" "co_JobManager c = Some m" "\<not> jm_Cancel m" by auto
  obtain r jh where reg: "register_all NewJobHandler (config_handlers cfg) = (r, jh)" by fastforce
  show ?thesis
    using True c reg register_config [OF reg]
    by (auto simp: New_def start_manager_def with_handlers_def admin_fault_def split: sum.splits option.splits prod.splits)
next
  case False
  with NewContainer_cases [OF assms, of env] show ?thesis by (auto simp: New_def)
qed

text \<open>(C20) With a well-formed configuration the start of a server never panics. It gives a manager exactly when the database
  opens, the message queue, if used, connects and no two handlers share a name; then the worker of one-off jobs runs with the
  configured enqueue interval, the worker of cron jobs with the schedule interval, both with the configured worker count and batch size,
  all of them positive, the worker of the message queue runs exactly when
  jobs are written to the queue, and the manager can be cancelled.\<close>

theorem AddServer_starts_workers:
  assumes "config_ok cfg"
  shows "case AddServer env cfg of (gs, r) \<Rightarrow>
    (\<forall>p. r \<noteq> Panics p) \<and> r \<noteq> Returns (Inr None)
    \<and> ((\<exists>m. r = Returns (Inr (Some m))) \<longleftrightarrow> sql_open env (db_url cfg) = None \<and> broker_ok env cfg
        \<and> distinct (map mh_JobName (cfg_Handlers cfg)))
    \<and> (\<forall>m. r = Returns (Inr (Some m)) \<longrightarrow> handlers (jm_JobHandler m) = map_of (config_handlers cfg) \<and> jm_Cancel m
        \<and> 1 \<le> cfg_EnqueueInterval cfg \<and> 1 \<le> cfg_ScheduleInterval cfg \<and> 1 \<le> cfg_WorkerCount cfg \<and> 1 \<le> cfg_BatchSize cfg
        \<and> gs = [CronResultProcessor, RetryFailedJobs,
                 EnqueueWorker (cfg_EnqueueInterval cfg) (cfg_WorkerCount cfg) (cfg_BatchSize cfg),
                 CronWorker (cfg_ScheduleInterval cfg) (cfg_WorkerCount cfg) (cfg_BatchSize cfg)] @
               (if cfg_UseQueueWriter cfg then [QueueSyncWorker (cfg_RabbitMQConfig cfg)] else []))"
proof (cases "sql_open env (db_url cfg) = None \<and> broker_ok env cfg")
  case True
  with NewContainer_cases [OF assms, of env] obtain c m where
    c: "NewContainer env cfg [] = ([CronResultProcessor, RetryFailedJobs], Returns (Inr c))"
      "co_Config c = Some cfg" "co_JobHandler c = NewJobHandler" "co_JobManager c = Some m" by auto
  obtain r jh where reg: "register_all NewJobHandler (config_handlers cfg) = (r, jh)" by fastforce
  show ?thesis
    using True c reg register_config [OF reg] assms
    by (auto simp: AddServer_def AddServerWithContainer_def with_handlers_def config_ok_def split: sum.splits)
next
  case False
  with NewContainer_cases [OF assms, of env] show ?thesis by (auto simp: AddServer_def)
qed

text \<open>A configuration that is written by hand and has no message queue section is dereferenced even when
  the queue is not used: the panic is recovered, and the caller gets neither a manager nor an error.\<close>

lemma New_nil_without_error:
  assumes "cfg_StorageDriver cfg = Postgres" "sql_open env (db_url cfg) = None" "cfg_RabbitMQConfig cfg = None"
  shows "fst (snd (New env cfg T)) = Inr None"
  using assms by (auto simp: New_def NewContainer_Postgres build_container_def connect_broker_def Let_def split: prod.splits)

section \<open>Witnesses\<close>

definition demo_env :: start_env where
  "demo_env = \<lparr>sql_open = (\<lambda>_. None), amqp_err = (\<lambda>_. None), init_err = (\<lambda>_ _. None), init_read = Inr (migrations ''public''),
     user_faults = (None, None, None), bcrypt = (\<lambda>pw. Inr (''hash of '' @ pw))\<rparr>"

definition demo_config :: GofireConfig where
  "demo_config = (default_config ''a'')\<lparr>cfg_Handlers := [\<lparr>mh_JobName = ''mail'', mh_Func = Some (\<lambda>_. Returns None)\<rparr>],
     cfg_WorkerCount := 2, cfg_EnqueueInterval := 3, cfg_ScheduleInterval := 7, cfg_BatchSize := 11,
     cfg_UseQueueWriter := True, cfg_MQDriver := RabbitMQ\<rparr>"

lemma demo_config_ok: "config_ok demo_config" "broker_ok demo_env demo_config" "distinct (map mh_JobName (cfg_Handlers demo_config))"
  by (simp_all add: config_ok_defs demo_config_def default_config_def config_defaults handler_ok_def broker_ok_def
      demo_env_def NewRabbitMQ_def Let_def)

lemma demo_init: "fst (Init (init_err demo_env) (init_read demo_env) url) = None"
  by (simp add: Init_def migrate_def demo_env_def exec_scripts_ok)

lemma demo_admin: "admin_fault demo_env demo_config T = None"
  by (simp add: admin_fault_def demo_env_def demo_config_def default_config_def createDashboardAdminIfConfigured_def)

theorem New_manager_or_error_witness:
  "\<exists>m. fst (snd (New demo_env demo_config empty_table)) = Inr (Some m)
     \<and> fst (New demo_env demo_config empty_table) = [CronResultProcessor, RetryFailedJobs]"
  using New_manager_or_error [OF demo_config_ok(1), of demo_env empty_table] demo_config_ok(2,3) demo_init demo_admin
  by (auto simp: demo_env_def demo_config_def default_config_def split: prod.splits)

theorem AddServer_starts_workers_witness:
  "\<exists>m. snd (AddServer demo_env demo_config) = Returns (Inr (Some m)) \<and> jm_Cancel m
     \<and> fst (AddServer demo_env demo_config) =
         [CronResultProcessor, RetryFailedJobs, EnqueueWorker 3 2 11, CronWorker 7 2 11, QueueSyncWorker (Some zero_rabbit)]"
  using AddServer_starts_workers [OF demo_config_ok(1), of demo_env] demo_config_ok(2,3)
  by (auto simp: demo_env_def demo_config_def default_config_def split: prod.splits)

end
