(* ===== verification/Spec2Isabelle.thy ===== *)
theory Spec2Isabelle
  imports CronFields NextRun JobState GoJson JobHandlers EnqueueRuns WebRoutes CronManager AppWiring
begin

text \<open>
  GoFire is a job scheduler for Go programs. One-off jobs and cron jobs are kept in PostgreSQL tables, server
  processes lock the jobs that are due and call their handlers, and a small web dashboard shows
  the jobs and lets an administrator remove or switch them.

  \<^bold>\<open>The parts and how they interact.\<close> A program builds a configuration from options and starts a job manager
  (\<^verbatim>\<open>jobmanager.New\<close>), which opens the database, migrates it under a distributed lock, creates the
  administrator and serves the dashboard; or it starts a server (\<^verbatim>\<open>gofire.AddServer\<close>), which runs the workers. Through the job
  manager the program enqueues jobs, into the table or by way of RabbitMQ, and schedules cron jobs; the cron
  expression parser computes the next run. Each server fetches due jobs page by page, locks a job by
  an \<^verbatim>\<open>UPDATE\<close> that looks at its status, runs the handler in a goroutine bounded by a semaphore, and a result
  processor writes the outcome back.

  \<^bold>\<open>How the code is modelled.\<close> A struct is a record, a table is a list of rows with its sequence, and an
  operation of a store is a function on tables that takes the failure of its statement and the time of the database as
  arguments, so a theorem that does not restrict them covers every failure. Go errors are strings in a sum or option, and
  a panic is a value of its own type. Integers are \<^verbatim>\<open>int\<close> with the 64-bit wrap written out where it can occur,
  and words in the hash functions and the port. Goroutines are steps of a transition relation, or, where one goroutine
  acts alone, functions on the sequence of events it sees.

  \<^bold>\<open>The theories.\<close>
  \<^item> \<^verbatim>\<open>GoPrelude\<close>, \<^verbatim>\<open>GoConv\<close>, \<^verbatim>\<open>GoTime\<close>, \<^verbatim>\<open>GoTimeText\<close>, \<^verbatim>\<open>GoJson\<close>, \<^verbatim>\<open>GoCrypto\<close>: what the code uses of Go's library:
    strings, \<^verbatim>\<open>strconv\<close>, \<^verbatim>\<open>time\<close> and the calendar, RFC 3339, JSON values, SHA-256, HMAC and base64.
  \<^item> \<^verbatim>\<open>GoSql\<close>, \<^verbatim>\<open>JobLock\<close>: tables, statements, cursors and pages; the contract of a job lock as a locale.
  \<^item> \<^verbatim>\<open>CronParser\<close>, \<^verbatim>\<open>CronFields\<close>, \<^verbatim>\<open>NextRun\<close>: \<^verbatim>\<open>pgk/parser/cron_expression_parser.go\<close>. The parser returns for every string; the text of a
    well-formed expression denotes exactly its sets of values; in UTC the next run is the first match after the given time.
  \<^item> \<^verbatim>\<open>JobState\<close>, \<^verbatim>\<open>JobTypes\<close>, \<^verbatim>\<open>JobHandlers\<close>: \<^verbatim>\<open>internal/state\<close>, \<^verbatim>\<open>types\<close>, \<^verbatim>\<open>constants\<close>, \<^verbatim>\<open>types/config/job_handler.go\<close> and the status
    classes of \<^verbatim>\<open>web/template_renderer.go\<close>.
  \<^item> \<^verbatim>\<open>EnqueuedStore\<close>, \<^verbatim>\<open>CronStore\<close>, \<^verbatim>\<open>UserStore\<close>: \<^verbatim>\<open>internal/store/postgres\<close>. Every operation keeps the invariant of its table; both job
    stores are instances of the job lock; adding a cron job refines an update of an abstract schedule. The order of rows with equal
    keys is the server's choice and an argument of a query; pages together hold every due row once where no two rows have the same
    time or the choice is the same for every page, and not otherwise.
  \<^item> \<^verbatim>\<open>EnqueueManager\<close>, \<^verbatim>\<open>EnqueueInvariant\<close>, \<^verbatim>\<open>EnqueueRuns\<close>: \<^verbatim>\<open>client/enqueue_job_manager.go\<close> as a system of any number of instances that
    start, crash and interleave, at any time (\<^verbatim>\<open>reach\<close>). A due job can be driven to its end and the semaphore bounds the workers in every run. The start of an
    instance takes every job in processing back, also from a running instance, and two workers may then handle it. In the runs where
    an instance starts only while no running instance has a job in processing in its hands (\<^verbatim>\<open>calm_reach\<close>) there is one worker per job, at most three calls of a handler and one more
    for each time a start took the job back, attempts and statuses agree, and succeeded jobs stay. The
    counts of calls and unlocks are fields that no step reads.
  \<^item> \<^verbatim>\<open>CronManager\<close>: \<^verbatim>\<open>client/cron_job_manager.go\<close> in the same way.
  \<^item> \<^verbatim>\<open>QueueSync\<close>: the queue mode of \<^verbatim>\<open>Enqueue\<close>, \<^verbatim>\<open>internal/message_broaker\<close> and the worker that writes batches to the table. The queue
    stores what a direct call stores, with the numbers of the arguments rounded to \<^verbatim>\<open>float64\<close>.
  \<^item> \<^verbatim>\<open>LockManager\<close>: \<^verbatim>\<open>internal/lock\<close>. The contract of a lock manager is a locale, interpreted on advisory locks that
    belong to sessions; the goroutine that requeues failed jobs is its user.
  \<^item> \<^verbatim>\<open>DbInit\<close>: \<^verbatim>\<open>internal/db\<close>. \<^verbatim>\<open>Init\<close> as a function and as a machine with the same runs, the scripts on a catalog,
    and processes that migrate together. Sessions may end at any time; the migration is exclusive among the
    processes that have not lost the session with the lock.
  \<^item> \<^verbatim>\<open>GofireConfig\<close>, \<^verbatim>\<open>JobManagerApi\<close>, \<^verbatim>\<open>AppWiring\<close>: \<^verbatim>\<open>types/config\<close>, \<^verbatim>\<open>errors\<close>, \<^verbatim>\<open>client/job_manager.go\<close>, \<^verbatim>\<open>app\<close>, \<^verbatim>\<open>gofire\<close>, \<^verbatim>\<open>jobmanager\<close>. Accepted
    configurations are well formed, and with them start-up gives a manager or an error; schedules and timers run at the
    times their names say.
  \<^item> \<^verbatim>\<open>WebText\<close>, \<^verbatim>\<open>WebUrl\<close>, \<^verbatim>\<open>WebShared\<close>, \<^verbatim>\<open>WebAuth\<close>, \<^verbatim>\<open>WebRoutes\<close>: \<^verbatim>\<open>web\<close>. Escaping of URLs and cookies, the login cookie, the
    middleware and every handler. Nothing is read or changed without a valid cookie.
  \<^item> \<^verbatim>\<open>DashboardScript\<close>: \<^verbatim>\<open>web/static/assets/js/scripts.js\<close> on a page with buttons, cookies and dialogs. Messages of the server
    arrive unchanged and paging moves by one page.
  \<^item> This theory: what spans the scheduler, the store and the cron job manager.

  \<^bold>\<open>Bounds.\<close> \<^verbatim>\<open>CalculateNextRun\<close> gives up after 525600 rounds; this is the constant of the code, and it is proved enough for
    every expression that ever matches. The loops of the parser are bounded by the 64-bit range of their counters. The workers of the
    message queue flush at 1000 jobs and result channels hold 1000 results, as in the code. No other fuel is used.

  \<^bold>\<open>Not modelled.\<close>
  \<^item> The vendored \<^verbatim>\<open>chart.js\<close> and \<^verbatim>\<open>sweetalert2\<close>; the answer to a dialog is a parameter.
  \<^item> Logging, the HTML of the templates (a rendered page is its template and data), the file server and listening on a port.
  \<^item> The servers behind the drivers beyond what the statements say: the broker, the hashing of bcrypt and the failures of
    connections are parameters. A statement that fails has no effect. Limits of column lengths are failures of statements, PostgreSQL's rounding to
    microseconds, the ids a failing \<^verbatim>\<open>INSERT\<close> uses up and the largest \<^verbatim>\<open>SERIAL\<close> id are left out.
  \<^item> The number of connections of a pool: the \<^verbatim>\<open>DELETE\<close> of \<^verbatim>\<open>Create\<close> in the user store, whose row is never scanned, keeps one.
  \<^item> Time zones whose offset changes; a time has a fixed offset.
  \<^item> The wait for signals and for the workers in \<^verbatim>\<open>GracefulExit\<close>, and Redis, which the code only passes along.
\<close>

section \<open>The life of a cron job\<close>

text \<open>A worker that wins the lock of a fetched job runs it and its result is written back.\<close>

definition run_cron_once :: "timestamp \<Rightarrow> string \<Rightarrow> JobHandler \<Rightarrow> gotime \<Rightarrow> CronJob \<Rightarrow> cron_table \<Rightarrow> cron_table option" where
  "run_cron_once now who jh t job T =
     (case Cron_LockJob None now (cj_ID job) who T of
        (Inr True, T1) \<Rightarrow>
          (case executeJob jh t job of
             None \<Rightarrow> None
           | Some res \<Rightarrow> (case cron_mark None res T1 of Panics p \<Rightarrow> None | Returns T2 \<Rightarrow> Some (cron_times None res T2)))
      | _ \<Rightarrow> None)"

definition never_panics :: "JobHandler \<Rightarrow> string \<Rightarrow> bool" where
  "never_panics jh name \<longleftrightarrow> (\<forall>args p. Execute jh name args \<noteq> Panics p)"

definition reported :: "string option \<Rightarrow> JobStatus \<Rightarrow> bool" where
  "reported err st \<longleftrightarrow> st = StatusSucceeded \<or> st = StatusFailed \<and> err \<noteq> None"

lemma executeJob_reports:
  assumes "never_panics jh (cj_Name job)" "CalculateNextRun (cj_Expression job) t = Some nxt"
  shows "\<exists>err st. executeJob jh t job = Some (cron_result job err st t nxt) \<and> reported err st"
proof (cases "Exists jh (cj_Name job)")
  case True
  show ?thesis
  proof (cases "Unmarshal_args (cj_Payload job)")
    case (Inl e)
    with True assms(2) show ?thesis by (auto simp: executeJob_def reported_def)
  next
    case (Inr args)
    obtain err where "Execute jh (cj_Name job) args = Returns err"
      using assms(1) by (cases "Execute jh (cj_Name job) args") (auto simp: never_panics_def)
    with Inr True assms(2) show ?thesis by (simp add: executeJob_def reported_def cron_errorToJobStatus_def) blast
  qed
qed (use assms(2) in \<open>auto simp: executeJob_def reported_def\<close>)

lemma cron_mark_row:
  assumes "cron_row_of T (cj_ID job) = Some r" "reported err st"
  shows "\<exists>T' r'. cron_mark None (cron_result job err st t nxt) T = Returns T' \<and> cron_row_of T' (cj_ID job) = Some r'
    \<and> cr_status r' = st \<and> cr_is_active r' = cr_is_active r"
proof (cases "st = StatusSucceeded")
  case True
  with assms(1) show ?thesis
    by (auto simp: cron_mark_def cron_result_def snd_Cron_MarkSuccess row_by_update IsValidTransition_iff dest: row_by_Some)
next
  case False
  with assms show ?thesis
    by (auto simp: cron_mark_def cron_result_def snd_Cron_MarkFailure row_by_update reported_def IsValidTransition_iff dest: row_by_Some)
qed

lemma cron_times_row:
  assumes "cron_row_of T (cj_ID job) = Some r"
  shows "cron_row_of (cron_times None (cron_result job err st t nxt) T) (cj_ID job) =
    Some (r\<lparr>cr_last_run_at := Some (wall t), cr_next_run_at := Some (wall nxt)\<rparr>)"
  using assms row_by_Some [OF assms] by (simp add: cron_times_def cron_result_def snd_UpdateJobRunTimes row_by_update)

lemma due_after_run:
  "reported err (cr_status r) \<Longrightarrow> cr_next_run_at r = Some n \<Longrightarrow>
    cron_due_where tz now r \<longleftrightarrow> cr_is_active r \<and> n \<le> now + tz * second_ns"
  by (auto simp: cron_due_where_def reported_def status_defs)

lemma run_cron_once_row:
  assumes "cron_inv T" "cron_row_of T (cj_ID job) = Some r" "cron_lockable (cr_status r)"
    and "never_panics jh (cj_Name job)" "CalculateNextRun (cj_Expression job) t = Some nxt"
  shows "\<exists>T' r' err. run_cron_once now who jh t job T = Some T' \<and> cron_row_of T' (cj_ID job) = Some r'
    \<and> reported err (cr_status r') \<and> cr_next_run_at r' = Some (wall nxt) \<and> cr_is_active r' = cr_is_active r"
proof -
  let ?T1 = "snd (Cron_LockJob None now (cj_ID job) who T)"
  have win: "fst (Cron_LockJob None now (cj_ID job) who T) = Inr True"
    using assms(1-3) by (simp add: Cron_LockJob_wins cron_status_of_def)
  then obtain r1 where r1: "cron_row_of ?T1 (cj_ID job) = Some r1" "cr_is_active r1 = cr_is_active r"
    using assms(2) by (simp add: row_of_Cron_LockJob [OF assms(1)])
  obtain err st where res: "executeJob jh t job = Some (cron_result job err st t nxt)" "reported err st"
    using executeJob_reports [OF assms(4,5)] by blast
  obtain T2 r2 where T2: "cron_mark None (cron_result job err st t nxt) ?T1 = Returns T2" "cron_row_of T2 (cj_ID job) = Some r2"
    "cr_status r2 = st" "cr_is_active r2 = cr_is_active r"
    using cron_mark_row [OF r1(1) res(2)] r1(2) by metis
  have "run_cron_once now who jh t job T = Some (cron_times None (cron_result job err st t nxt) T2)"
    using win res(1) T2(1) by (cases "Cron_LockJob None now (cj_ID job) who T") (simp add: run_cron_once_def)
  moreover note cron_times_row [OF T2(2), of err st t nxt]
  ultimately show ?thesis using T2(3,4) res(2) by auto
qed

section \<open>Properties\<close>

text \<open>(C11) The life of a new cron job, from the call that schedules it through the store and a worker. Under a name that is new the call
  puts the job into the table, and, being queued, it is due at once, whatever its next run. A worker that fetches it gets its lock and
  runs it, and unless its handler panics the row then has the run of the expression that follows the
  execution, and is due again exactly when that time has come in the zone of the database.\<close>

theorem scheduled_job_cycle:
  assumes "cron_reach T" "named T name = None" "Marshal_args args = Inr payload" "mo_fault m = None" "never_panics jh name"
  shows "\<exists>i T1 r. Schedule m name expression args T = Some ((i, None), T1) \<and> cron_row_of T1 i = Some r
    \<and> (\<forall>tz now. cron_due_where tz now r)
    \<and> (\<exists>T2 r' nxt. run_cron_once now who jh t (cron_job_of r) T1 = Some T2 \<and> cron_row_of T2 i = Some r'
        \<and> CalculateNextRun expression t = Some nxt \<and> instant t < instant nxt
        \<and> (\<forall>tz now. cron_due_where tz now r' \<longleftrightarrow> wall nxt \<le> now + tz * second_ns))"
proof -
  have inv: "cron_inv T" using assms(1) by (rule cron_reach_inv)
  obtain sched where sched: "CalculateNextRun expression (mo_now m) = Some sched" using next_run_later by blast
  obtain nxt where nxt: "CalculateNextRun expression t = Some nxt" "instant t < instant nxt" using next_run_later by blast
  define r where "r = new_cron_row (mo_db_now m) name sched payload expression (next_id T)"
  define T1 where "T1 = insert_row (new_cron_row (mo_db_now m) name sched payload expression) T"
  have added: "AddOrUpdate None (mo_db_now m) name sched expression args T = ((next_id T, None), T1)"
    by (simp add: AddOrUpdate_named [OF assms(3)] assms(2) T1_def)
  then have S: "Schedule m name expression args T = Some ((next_id T, None), T1)"
    using sched assms(4) by (simp add: Schedule_def addOrUpdate_def)
  have inv1: "cron_inv T1" using inv_AddOrUpdate [OF inv] added by (metis snd_conv)
  have r: "cron_row_of T1 (next_id T) = Some r" 
    using inv by (simp add: T1_def r_def row_by_insert new_cron_row_def cron_inv_def)
  have job: "cj_ID (cron_job_of r) = next_id T" "cj_Name (cron_job_of r) = name" "cj_Expression (cron_job_of r) = expression"
    and st: "cr_status r = StatusQueued" "cr_is_active r"
    by (simp_all add: r_def cron_job_of_def new_cron_row_def)
  have "\<exists>T2 r' err. run_cron_once now who jh t (cron_job_of r) T1 = Some T2 \<and> cron_row_of T2 (next_id T) = Some r'
    \<and> reported err (cr_status r') \<and> cr_next_run_at r' = Some (wall nxt) \<and> cr_is_active r'"
    using run_cron_once_row [OF inv1, of "cron_job_of r" r jh t nxt now who] r assms(5) nxt(1) st by (simp add: job)
  moreover have "\<forall>tz now. cron_due_where tz now r" using st(1) by (simp add: cron_due_where_def status_defs)
  ultimately show ?thesis using S r nxt due_after_run by fastforce
qed

theorem scheduled_job_cycle_witness:
  "\<exists>i T1 r T2 r' nxt. Schedule (demo_moment 5) ''report'' ''0 0 * * *'' [] empty_table = Some ((i, None), T1)
     \<and> cron_row_of T1 i = Some r \<and> cron_due_where 0 6 r
     \<and> run_cron_once 6 ''a'' (snd (Register NewJobHandler ''report'' (\<lambda>_. Returns None))) \<lparr>instant = 6, zone = 0\<rparr> (cron_job_of r) T1 = Some T2
     \<and> cron_row_of T2 i = Some r' \<and> 6 < instant nxt \<and> (cron_due_where 0 9 r' \<longleftrightarrow> wall nxt \<le> 9)"
proof -
  let ?jh = "snd (Register NewJobHandler ''report'' (\<lambda>_. Returns None))"
  have "cron_reach empty_table" "named empty_table ''report'' = None" "Marshal_args [] = Inr JNull"
    "mo_fault (demo_moment 5) = None" "never_panics ?jh ''report''"
    by (auto intro: cron_reach.intros
        simp: named_def Marshal_args_def demo_moment_def never_panics_def Execute_def Register_def NewJobHandler_def)
  from scheduled_job_cycle [OF this, of "''0 0 * * *''" 6 "''a''" "\<lparr>instant = 6, zone = 0\<rparr>"] show ?thesis
    by fastforce
qed

end
